(* ===== verification/Prelude.thy ===== *)
theory Prelude
  imports Main "HOL-Library.Word"
begin

unbundle bit_operations_syntax

text \<open>
  Shared ground of the development: the machine integer types of the C sources, C's error
  outcomes as values, the memory operations \<^verbatim>\<open>memcpy\<close> and \<^verbatim>\<open>memmove\<close> on byte
  arrays with their bounds checked, the byte-order conversions of a little-endian host, the
  tail queues of \<^verbatim>\<open>sys/queue.h\<close> as lists of addresses, and the list and word lemmas
  that the component theories use.
\<close>

section \<open>Machine types and C outcomes\<close>

type_synonym u8 = "8 word"
type_synonym u16 = "16 word"
type_synonym u32 = "32 word"
type_synonym u64 = "64 word"

text \<open>An address (a pointer) of the modelled heap. \<^verbatim>\<open>NULL\<close> is \<open>None\<close>.\<close>

type_synonym addr = nat

text \<open>
  What a C operation can do besides returning: read or write outside an object, follow a null
  pointer, fail an \<^verbatim>\<open>assert\<close>, call \<^verbatim>\<open>exit\<close>, divide by zero, unlink an element from
  a tail queue that it is not on (which corrupts the links), use a freed object, or loop for ever. An operation of the model that can do
  one of these has a result of type \<open>c_error + 'a\<close>.
\<close>

datatype c_error = OutOfBounds | NullDeref | AssertFail | ProcessExit | DivByZero | ListCorrupt | UseAfterFree | Diverges

type_synonym 'a c_result = "c_error + 'a"

text \<open>\<^verbatim>\<open>TAILQ_REMOVE\<close> on a tail queue, kept as the list of its elements.\<close>

definition tailq_remove :: "'a list \<Rightarrow> 'a \<Rightarrow> 'a list c_result" where
  "tailq_remove xs x = (if x \<in> set xs then Inr (remove1 x xs) else Inl ListCorrupt)"

section \<open>Collections of facts\<close>

named_theorems mem_simps \<open>rewrite rules for the byte-array operations\<close>
named_theorems seq_simps \<open>the sequence-number macros, read as distances\<close>

section \<open>Conversions between C integer types\<close>

text \<open>A C \<^verbatim>\<open>int\<close> is a 32-bit word read with \<open>sint\<close>; its conversion to
  \<^verbatim>\<open>size_t\<close> is modulo \<open>2 ^ 64\<close>, so a negative length becomes huge.\<close>

definition size_of_int :: "u32 \<Rightarrow> nat" where
  "size_of_int w = nat (sint w mod 2 ^ 64)"

text \<open>A 31-bit bit-field keeps the low 31 bits of what is stored in it.\<close>

definition bf31 :: "u32 \<Rightarrow> u32" where
  "bf31 w = take_bit 31 w"

lemma unat_lt_2p32: "unat (w :: u32) < 2 ^ 32"
  using unsigned_less [of w, where 'a = nat] by simp

lemma signed_take_bit_31:
  assumes "n < 2 ^ 32"
  shows "signed_take_bit 31 (int n) = (if n < 2 ^ 31 then int n else int n - 2 ^ 32)"
proof (cases "n < 2 ^ 31")
  case True
  then have "signed_take_bit 31 (int n) = int n"
    by (intro signed_take_bit_int_eq_self) simp_all
  with True show ?thesis by simp
next
  case False
  have "signed_take_bit 31 (int n) = signed_take_bit 31 (int n - 2 ^ 32)"
    by (subst signed_take_bit_eq_iff_take_bit_eq) (simp add: take_bit_eq_mod)
  also have "\<dots> = int n - 2 ^ 32"
    using False assms by (intro signed_take_bit_int_eq_self) simp_all
  finally show ?thesis using False by simp
qed

lemma sint_eq_unat:
  fixes w :: u32
  shows "sint w = (if unat w < 2 ^ 31 then int (unat w) else int (unat w) - 2 ^ 32)"
proof -
  have "sint w = signed_take_bit 31 (int (unat w))"
    unfolding sint_uint of_nat_unat by simp
  also note signed_take_bit_31 [OF unat_lt_2p32 [of w]]
  finally show ?thesis .
qed

lemma sint_nonneg_eq: "unat (w :: u32) < 2 ^ 31 \<Longrightarrow> sint w = int (unat w)"
  by (simp only: sint_eq_unat if_True)

lemma nat_sint: "unat (w :: u32) < 2 ^ 31 \<Longrightarrow> nat (sint w) = unat w"
  by (simp only: sint_nonneg_eq nat_int)

lemma sint_nonneg: "unat (w :: u32) < 2 ^ 31 \<Longrightarrow> 0 \<le> sint w"
  by (simp only: sint_nonneg_eq of_nat_0_le_iff)

lemma sint_le_unat:
  "unat (a :: u32) < 2 ^ 31 \<Longrightarrow> unat (b :: u32) < 2 ^ 31 \<Longrightarrow> sint a \<le> sint b \<longleftrightarrow> unat a \<le> unat b"
  by (simp only: sint_nonneg_eq of_nat_le_iff)

lemma sint_less_unat:
  "unat (a :: u32) < 2 ^ 31 \<Longrightarrow> unat (b :: u32) < 2 ^ 31 \<Longrightarrow> sint a < sint b \<longleftrightarrow> unat a < unat b"
  by (simp only: sint_nonneg_eq of_nat_less_iff)

lemma sint_le_0: "unat (w :: u32) < 2 ^ 31 \<Longrightarrow> sint w \<le> 0 \<longleftrightarrow> unat w = 0"
  by (simp only: sint_nonneg_eq of_nat_le_0_iff)

lemmas int_conv = nat_sint sint_nonneg sint_le_unat sint_less_unat sint_le_0

lemma unat_plus_1: "unat (w :: u32) < 2 ^ 31 \<Longrightarrow> unat (w + 1) = unat w + 1"
  by (simp add: unat_word_ariths)

lemma unat_minus_1: "0 < unat (w :: u32) \<Longrightarrow> unat (w - 1) = unat w - 1"
  by (simp add: unat_sub_if_size)

lemma size_of_int_nonneg:
  assumes "unat w < 2 ^ 31"
  shows "size_of_int w = unat w"
proof -
  have "int (unat w) mod 2 ^ 64 = int (unat w)"
    using assms by (intro mod_pos_pos_trivial) (simp_all del: of_nat_unat)
  with assms show ?thesis
    by (simp only: size_of_int_def sint_eq_unat if_True nat_int)
qed

lemma unat_bf31: "unat (bf31 w) = unat w mod 2 ^ 31"
  unfolding bf31_def unsigned_take_bit_eq by (simp add: take_bit_eq_mod)

lemma bf31_id: "unat w < 2 ^ 31 \<Longrightarrow> bf31 w = w"
  by (rule word_unat_eq_iff [THEN iffD2]) (simp add: unat_bf31)

section \<open>Byte arrays\<close>

text \<open>\<^verbatim>\<open>memcpy(dst + off, src, n)\<close> and \<^verbatim>\<open>memmove(buf + d, buf + s, n)\<close>.
  A copy that leaves one of the two objects is the error \<open>OutOfBounds\<close>.\<close>

definition memcpy :: "'a list \<Rightarrow> nat \<Rightarrow> 'a list \<Rightarrow> nat \<Rightarrow> 'a list c_result" where
  "memcpy dst off src n =
     (if n \<le> length src \<and> off + n \<le> length dst
      then Inr (take off dst @ take n src @ drop (off + n) dst)
      else Inl OutOfBounds)"

definition memmove :: "'a list \<Rightarrow> nat \<Rightarrow> nat \<Rightarrow> nat \<Rightarrow> 'a list c_result" where
  "memmove buf d s n =
     (if s + n \<le> length buf \<and> d + n \<le> length buf
      then Inr (take d buf @ take n (drop s buf) @ drop (d + n) buf)
      else Inl OutOfBounds)"

text \<open>The bytes \<open>buf[off], ..., buf[off + n - 1]\<close>.\<close>

definition slice :: "nat \<Rightarrow> nat \<Rightarrow> 'a list \<Rightarrow> 'a list" where
  "slice off n buf = take n (drop off buf)"

lemma length_slice [simp]: "off + n \<le> length buf \<Longrightarrow> length (slice off n buf) = n"
  by (simp add: slice_def)

lemma nth_slice [simp]: "i < n \<Longrightarrow> off + n \<le> length buf \<Longrightarrow> slice off n buf ! i = buf ! (off + i)"
  by (simp add: slice_def)

lemma slice_eqI:
  assumes "off + n \<le> length buf" and "length xs = n"
    and "\<And>i. i < n \<Longrightarrow> buf ! (off + i) = xs ! i"
  shows "slice off n buf = xs"
  using assms by (intro nth_equalityI) simp_all

lemma slice_slice: "slice a n (slice b m buf) = slice (b + a) (min n (m - a)) buf"
  by (simp add: slice_def drop_take min_def add.commute)

lemma memcpy_OK: "n \<le> length src \<Longrightarrow> off + n \<le> length dst \<Longrightarrow>
    memcpy dst off src n = Inr (take off dst @ take n src @ drop (off + n) dst)"
  by (simp add: memcpy_def)

lemma memmove_OK: "s + n \<le> length buf \<Longrightarrow> d + n \<le> length buf \<Longrightarrow>
    memmove buf d s n = Inr (take d buf @ take n (drop s buf) @ drop (d + n) buf)"
  by (simp add: memmove_def)

lemma memcpy_length [mem_simps]: "memcpy dst off src n = Inr dst' \<Longrightarrow> length dst' = length dst"
  by (auto simp: memcpy_def split: if_splits)

lemma memcpy_nth [mem_simps]:
  assumes "memcpy dst off src n = Inr dst'" and "i < length dst"
  shows "dst' ! i = (if off \<le> i \<and> i < off + n then src ! (i - off) else dst ! i)"
  using assms by (auto simp: memcpy_def nth_append min_def split: if_splits)

lemma memmove_length [mem_simps]: "memmove buf d s n = Inr buf' \<Longrightarrow> length buf' = length buf"
  by (auto simp: memmove_def split: if_splits)

lemma memmove_nth [mem_simps]:
  assumes "memmove buf d s n = Inr buf'" and "i < length buf"
  shows "buf' ! i = (if d \<le> i \<and> i < d + n then buf ! (s + (i - d)) else buf ! i)"
proof -
  have ok: "s + n \<le> length buf" "d + n \<le> length buf"
    and buf': "buf' = take d buf @ take n (drop s buf) @ drop (d + n) buf"
    using assms(1) by (auto simp: memmove_def split: if_splits)
  have len: "length (take n (drop s buf)) = n" using ok by simp
  show ?thesis
    using ok assms(2) unfolding buf' by (auto simp: nth_append len)
qed

section \<open>Byte order\<close>

text \<open>The host is little-endian (x86-64), so \<^verbatim>\<open>htons\<close>, \<^verbatim>\<open>ntohs\<close>, \<^verbatim>\<open>htonl\<close>
  and \<^verbatim>\<open>ntohl\<close> reverse the bytes of a word.\<close>

definition htons :: "u16 \<Rightarrow> u16" where
  "htons x = push_bit 8 x OR drop_bit 8 x"

definition htonl :: "u32 \<Rightarrow> u32" where
  "htonl x = push_bit 24 x OR (push_bit 8 x AND 0x00FF0000)
     OR (drop_bit 8 x AND 0x0000FF00) OR drop_bit 24 x"

abbreviation ntohs :: "u16 \<Rightarrow> u16" where "ntohs \<equiv> htons"
abbreviation ntohl :: "u32 \<Rightarrow> u32" where "ntohl \<equiv> htonl"

lemma ntohs_htons [simp]: "ntohs (htons x) = x"
  by (rule bit_word_eqI) (auto simp: htons_def bit_simps)

lemma bit_mask_byte1: "bit (0x0000FF00 :: u32) n \<longleftrightarrow> 8 \<le> n \<and> n < 16"
proof -
  have "(0x0000FF00 :: u32) = push_bit 8 (mask 8)" by (simp add: mask_eq_exp_minus_1)
  then show ?thesis by (auto simp only: bit_push_bit_iff bit_mask_iff) auto
qed

lemma bit_mask_byte2: "bit (0x00FF0000 :: u32) n \<longleftrightarrow> 16 \<le> n \<and> n < 24"
proof -
  have "(0x00FF0000 :: u32) = push_bit 16 (mask 8)" by (simp add: mask_eq_exp_minus_1)
  then show ?thesis by (auto simp only: bit_push_bit_iff bit_mask_iff) auto
qed

lemma bit_htonl:
  assumes "n < 32"
  shows "bit (htonl x) n =
    bit x (if n < 8 then n + 24 else if n < 16 then n + 8 else if n < 24 then n - 8 else n - 24)"
proof -
  have big: "\<not> bit x m" if "m \<ge> 32" for m
    using that bit_imp_le_length [of x m] by auto
  have bits: "bit (htonl x) n \<longleftrightarrow> 24 \<le> n \<and> bit x (n - 24)
      \<or> (16 \<le> n \<and> n < 24) \<and> bit x (n - 8) \<or> (8 \<le> n \<and> n < 16) \<and> bit x (n + 8) \<or> bit x (n + 24)"
    using assms
    by (auto simp add: htonl_def bit_or_iff bit_and_iff bit_push_bit_iff bit_drop_bit_eq
        bit_mask_byte1 bit_mask_byte2 add.commute simp del: bit_numeral_word_iff)
  show ?thesis
    unfolding bits using assms by (auto simp: big)
qed

lemma ntohl_htonl [simp]: "ntohl (htonl x) = x"
  by (rule bit_word_eqI) (auto simp: bit_htonl)

lemma htons_inject [simp]: "htons x = htons y \<longleftrightarrow> x = y"
  by (metis ntohs_htons)

lemma htonl_inject [simp]: "htonl x = htonl y \<longleftrightarrow> x = y"
  by (metis ntohl_htonl)

section \<open>Words in memory\<close>

text \<open>The bytes of a word in memory on a little-endian host, and the word that bytes hold.\<close>

definition bytes32 :: "u32 \<Rightarrow> u8 list" where
  "bytes32 w = [ucast w, ucast (drop_bit 8 w), ucast (drop_bit 16 w), ucast (drop_bit 24 w)]"

definition bytes16 :: "u16 \<Rightarrow> u8 list" where
  "bytes16 w = [ucast w, ucast (drop_bit 8 w)]"

definition word16 :: "u8 \<Rightarrow> u8 \<Rightarrow> u16" where
  "word16 a b = ucast a OR push_bit 8 (ucast b)"

definition word32 :: "u8 \<Rightarrow> u8 \<Rightarrow> u8 \<Rightarrow> u8 \<Rightarrow> u32" where
  "word32 a b c d = ucast a OR push_bit 8 (ucast b) OR push_bit 16 (ucast c) OR push_bit 24 (ucast d)"

lemma length_bytes32 [simp]: "length (bytes32 w) = 4"
  by (simp add: bytes32_def)

lemma length_bytes16 [simp]: "length (bytes16 w) = 2"
  by (simp add: bytes16_def)

lemma word16_bytes16 [simp]: "word16 (ucast w) (ucast (drop_bit 8 w)) = w"
  by (rule bit_word_eqI) (auto simp: word16_def bit_simps)

lemma word32_bytes32 [simp]:
  "word32 (ucast w) (ucast (drop_bit 8 w)) (ucast (drop_bit 16 w)) (ucast (drop_bit 24 w)) = w"
proof (rule bit_word_eqI)
  fix n assume "n < LENGTH(32)"
  then consider "n < 8" | "8 \<le> n" "n < 16" | "16 \<le> n" "n < 24" | "24 \<le> n" "n < 32" by fastforce
  then show "bit (word32 (ucast w) (ucast (drop_bit 8 w)) (ucast (drop_bit 16 w)) (ucast (drop_bit 24 w))) n = bit w n"
    by cases (auto simp add: word32_def bit_or_iff bit_push_bit_iff bit_ucast_iff bit_drop_bit_eq less_diff_conv2)
qed

section \<open>Distances between 32-bit numbers\<close>

text \<open>The sequence space is a ring: the distance from \<open>a\<close> forward to \<open>b\<close> is
  \<open>unat (b - a)\<close>. A window below \<open>2 ^ 31\<close> is ordered by the distance from its base.\<close>

lemma unat_diff_cases:
  fixes a b :: u32
  shows "unat (b - a) = (if unat a \<le> unat b then unat b - unat a else unat b + 2 ^ 32 - unat a)"
  using unat_lt_2p32 [of a] unat_lt_2p32 [of b]
  by (simp add: unat_sub_if_size word_size word_le_nat_alt)

lemma unat_dist_shift:
  fixes s t base :: u32
  assumes "unat (s - base) \<le> unat (t - base)"
  shows "unat (t - s) = unat (t - base) - unat (s - base)"
proof -
  have "t - s = (t - base) - (s - base)" by simp
  with assms show ?thesis
    by (simp only: unat_sub word_le_nat_alt)
qed

lemma unat_add_small:
  fixes a b :: u32
  shows "unat a + unat b < 2 ^ 32 \<Longrightarrow> unat (a + b) = unat a + unat b"
  by (simp add: unat_word_ariths)

end
