(* ===== verification/SeqNum.thy ===== *)
theory SeqNum
  imports Prelude
begin

text \<open>
  Sequence-number comparison. The macros \<^verbatim>\<open>TCP_SEQ_LT\<close> and its kin of
  \<^verbatim>\<open>include/tcp_in.h\<close> read the wrapped difference as a signed integer; the receive
  buffer's \<^verbatim>\<open>GetMinSeq\<close> and \<^verbatim>\<open>GetMaxSeq\<close> (\<^verbatim>\<open>tcp_ring_buffer.c\<close>)
  compare unsigned distances with half the space. The lemmas show that both agree with the
  order of the distances from a common base, inside any window below \<open>2 ^ 31\<close>, whatever the
  base: the wrap-around of the 32-bit space is invisible to them.
\<close>

section \<open>The macros of tcp_in.h\<close>

definition TCP_SEQ_LT :: "u32 \<Rightarrow> u32 \<Rightarrow> bool" where
  "TCP_SEQ_LT a b \<longleftrightarrow> sint (a - b) < 0"

definition TCP_SEQ_LEQ :: "u32 \<Rightarrow> u32 \<Rightarrow> bool" where
  "TCP_SEQ_LEQ a b \<longleftrightarrow> sint (a - b) \<le> 0"

definition TCP_SEQ_GT :: "u32 \<Rightarrow> u32 \<Rightarrow> bool" where
  "TCP_SEQ_GT a b \<longleftrightarrow> sint (a - b) > 0"

definition TCP_SEQ_GEQ :: "u32 \<Rightarrow> u32 \<Rightarrow> bool" where
  "TCP_SEQ_GEQ a b \<longleftrightarrow> sint (a - b) \<ge> 0"

definition TCP_SEQ_BETWEEN :: "u32 \<Rightarrow> u32 \<Rightarrow> u32 \<Rightarrow> bool" where
  "TCP_SEQ_BETWEEN a b c \<longleftrightarrow> TCP_SEQ_GEQ a b \<and> TCP_SEQ_LEQ a c"

section \<open>The comparisons of tcp_ring_buffer.c\<close>

definition MAXSEQ :: u32 where
  "MAXSEQ = 0xFFFFFFFF"

definition GetMinSeq :: "u32 \<Rightarrow> u32 \<Rightarrow> u32" where
  "GetMinSeq a b =
     (if a = b then a
      else if a < b then (if b - a \<le> MAXSEQ div 2 then a else b)
      else (if a - b \<le> MAXSEQ div 2 then b else a))"

definition GetMaxSeq :: "u32 \<Rightarrow> u32 \<Rightarrow> u32" where
  "GetMaxSeq a b =
     (if a = b then a
      else if a < b then (if b - a \<le> MAXSEQ div 2 then b else a)
      else (if a - b \<le> MAXSEQ div 2 then a else b))"

section \<open>Distances\<close>

lemma half_MAXSEQ: "MAXSEQ div 2 = 0x7FFFFFFF"
  by (simp add: MAXSEQ_def)

lemma le_half_iff: "(w :: u32) \<le> MAXSEQ div 2 \<longleftrightarrow> unat w < 2 ^ 31"
  by (simp add: half_MAXSEQ word_le_nat_alt) linarith

lemma sint_neg_iff: "sint (w :: u32) < 0 \<longleftrightarrow> 2 ^ 31 \<le> unat w"
  using unat_lt_2p32 [of w] by (simp add: sint_eq_unat del: of_nat_unat)

lemma sint_0_iff: "sint (w :: u32) = 0 \<longleftrightarrow> w = 0"
  using unat_lt_2p32 [of w] by (auto simp: sint_eq_unat unat_eq_zero simp del: of_nat_unat split: if_splits)

lemma TCP_SEQ_LT_iff: "TCP_SEQ_LT a b \<longleftrightarrow> 2 ^ 31 \<le> unat (a - b)"
  by (simp only: TCP_SEQ_LT_def sint_neg_iff)

lemma TCP_SEQ_GEQ_iff: "TCP_SEQ_GEQ a b \<longleftrightarrow> unat (a - b) < 2 ^ 31"
  using sint_neg_iff [of "a - b"] by (simp only: TCP_SEQ_GEQ_def not_less [symmetric]) auto

lemma TCP_SEQ_LEQ_iff: "TCP_SEQ_LEQ a b \<longleftrightarrow> a = b \<or> 2 ^ 31 \<le> unat (a - b)"
proof -
  have "TCP_SEQ_LEQ a b \<longleftrightarrow> sint (a - b) = 0 \<or> sint (a - b) < 0"
    by (auto simp: TCP_SEQ_LEQ_def)
  then show ?thesis by (simp only: sint_0_iff sint_neg_iff right_minus_eq)
qed

lemma TCP_SEQ_GT_iff: "TCP_SEQ_GT a b \<longleftrightarrow> a \<noteq> b \<and> unat (a - b) < 2 ^ 31"
proof -
  have "TCP_SEQ_GT a b \<longleftrightarrow> \<not> TCP_SEQ_LEQ a b"
    by (auto simp: TCP_SEQ_LEQ_def TCP_SEQ_GT_def)
  then show ?thesis by (auto simp: TCP_SEQ_LEQ_iff)
qed

lemmas seq_iffs = TCP_SEQ_LT_iff TCP_SEQ_GEQ_iff TCP_SEQ_LEQ_iff TCP_SEQ_GT_iff

lemma TCP_SEQ_LT_not_GEQ: "TCP_SEQ_LT a b \<longleftrightarrow> \<not> TCP_SEQ_GEQ a b"
  by (auto simp: seq_iffs)

lemma TCP_SEQ_GT_not_LEQ: "TCP_SEQ_GT a b \<longleftrightarrow> \<not> TCP_SEQ_LEQ a b"
  by (auto simp: seq_iffs)

lemma TCP_SEQ_LEQ_refl [simp]: "TCP_SEQ_LEQ a a"
  and TCP_SEQ_GEQ_refl [simp]: "TCP_SEQ_GEQ a a"
  and TCP_SEQ_LT_irrefl [simp]: "\<not> TCP_SEQ_LT a a"
  and TCP_SEQ_GT_irrefl [simp]: "\<not> TCP_SEQ_GT a a"
  by (auto simp: TCP_SEQ_LEQ_def TCP_SEQ_GEQ_def TCP_SEQ_LT_def TCP_SEQ_GT_def)

text \<open>Inside a window: \<open>d\<close> is the distance from the window's base.\<close>

lemma unat_neg_diff:
  fixes s t :: u32
  assumes "s \<noteq> t"
  shows "unat (s - t) = 2 ^ 32 - unat (t - s)"
  using assms unat_lt_2p32 [of s] unat_lt_2p32 [of t]
  by (auto simp: unat_diff_cases word_unat_eq_iff)

lemma window_diff:
  fixes s t base :: u32
  assumes "unat (s - base) < 2 ^ 31" and "unat (t - base) < 2 ^ 31"
  shows "unat (t - s) < 2 ^ 31 \<longleftrightarrow> unat (s - base) \<le> unat (t - base)"
proof (cases "unat (s - base) \<le> unat (t - base)")
  case True
  with assms show ?thesis by (simp add: unat_dist_shift [OF True])
next
  case False
  then have le: "unat (t - base) \<le> unat (s - base)" and ne: "s \<noteq> t" by auto
  have "unat (s - t) = unat (s - base) - unat (t - base)"
    using le by (rule unat_dist_shift)
  then have "unat (s - t) < 2 ^ 31" and "0 < unat (s - t)"
    using assms False by linarith+
  moreover have "unat (t - s) = 2 ^ 32 - unat (s - t)"
    using ne by (intro unat_neg_diff) auto
  ultimately have "\<not> unat (t - s) < 2 ^ 31"
    by simp
  with False show ?thesis by blast
qed

lemma GetMinSeq_dist:
  assumes "unat (b - a) < 2 ^ 31"
  shows "GetMinSeq a b = a"
proof (cases "a < b")
  case True
  with assms show ?thesis by (simp add: GetMinSeq_def le_half_iff)
next
  case False
  show ?thesis
  proof (cases "a = b")
    case True
    then show ?thesis by (simp add: GetMinSeq_def)
  next
    case ne: False
    have "unat (a - b) = 2 ^ 32 - unat (b - a)" by (rule unat_neg_diff [OF ne])
    with assms have "\<not> unat (a - b) < 2 ^ 31" by simp
    then show ?thesis using False ne by (simp only: GetMinSeq_def le_half_iff if_False)
  qed
qed

lemma GetMinSeq_commute: "GetMinSeq a b = GetMinSeq b a"
  by (auto simp: GetMinSeq_def)

lemma GetMaxSeq_commute: "GetMaxSeq a b = GetMaxSeq b a"
  by (auto simp: GetMaxSeq_def)

lemma GetMinMaxSeq: "GetMaxSeq a b = (if GetMinSeq a b = a then b else a)"
  by (auto simp: GetMinSeq_def GetMaxSeq_def)

lemma GetMinSeq_far:
  assumes "2 ^ 31 < unat (b - a)"
  shows "GetMinSeq a b = b"
proof -
  have "a \<noteq> b" using assms by auto
  then have "unat (a - b) = 2 ^ 32 - unat (b - a)" by (rule unat_neg_diff)
  with assms have "unat (a - b) < 2 ^ 31" by simp
  then have "GetMinSeq b a = b" by (rule GetMinSeq_dist)
  then show ?thesis by (simp add: GetMinSeq_commute [of a b])
qed

text \<open>In a window below \<open>2 ^ 31\<close> the comparisons are those of the distances.\<close>

lemma GetMinSeq_window [seq_simps]:
  assumes "unat (s - base) < 2 ^ 31" and "unat (t - base) < 2 ^ 31"
  shows "GetMinSeq s t = (if unat (s - base) \<le> unat (t - base) then s else t)"
proof (cases "unat (s - base) \<le> unat (t - base)")
  case True
  with window_diff [OF assms] have "GetMinSeq s t = s" by (intro GetMinSeq_dist) simp
  with True show ?thesis by simp
next
  case False
  with window_diff [OF assms(2) assms(1)] have "GetMinSeq t s = t" by (intro GetMinSeq_dist) simp
  with False show ?thesis by (simp add: GetMinSeq_commute)
qed

lemma GetMaxSeq_window [seq_simps]:
  assumes "unat (s - base) < 2 ^ 31" and "unat (t - base) < 2 ^ 31"
  shows "GetMaxSeq s t = (if unat (s - base) \<le> unat (t - base) then t else s)"
  using GetMinSeq_window [OF assms] by (auto simp: GetMinMaxSeq)

lemma TCP_SEQ_window [seq_simps]:
  assumes "unat (s - base) < 2 ^ 31" and "unat (t - base) < 2 ^ 31"
  shows "TCP_SEQ_LT s t \<longleftrightarrow> unat (s - base) < unat (t - base)"
    and "TCP_SEQ_LEQ s t \<longleftrightarrow> unat (s - base) \<le> unat (t - base)"
    and "TCP_SEQ_GT s t \<longleftrightarrow> unat (s - base) > unat (t - base)"
    and "TCP_SEQ_GEQ s t \<longleftrightarrow> unat (s - base) \<ge> unat (t - base)"
proof -
  note w = window_diff [OF assms(2) assms(1)]
  have eq: "s = t \<longleftrightarrow> unat (s - base) = unat (t - base)"
    by (auto simp: word_unat_eq_iff [symmetric])
  show "TCP_SEQ_LT s t \<longleftrightarrow> unat (s - base) < unat (t - base)"
    using w by (auto simp only: TCP_SEQ_LT_iff not_less [symmetric])
  show "TCP_SEQ_GEQ s t \<longleftrightarrow> unat (s - base) \<ge> unat (t - base)"
    using w by (simp only: TCP_SEQ_GEQ_iff)
  show "TCP_SEQ_LEQ s t \<longleftrightarrow> unat (s - base) \<le> unat (t - base)"
    using w eq by (auto simp only: TCP_SEQ_LEQ_iff not_less [symmetric])
  show "TCP_SEQ_GT s t \<longleftrightarrow> unat (s - base) > unat (t - base)"
    using w eq by (auto simp only: TCP_SEQ_GT_iff)
qed

lemma dist_inject: "unat ((s :: u32) - base) = unat (t - base) \<longleftrightarrow> s = t"
  by (metis diff_add_cancel word_unat_eq_iff)

lemma dist_add:
  fixes s l base :: u32
  assumes "unat (s - base) + unat l < 2 ^ 32"
  shows "unat (s + l - base) = unat (s - base) + unat l"
proof -
  have "s + l - base = (s - base) + l" by simp
  with assms show ?thesis by (simp only: unat_add_small)
qed

lemma GetMinSeq_eq_left:
  assumes "unat (s - base) < 2 ^ 31" and "unat (t - base) < 2 ^ 31"
  shows "GetMinSeq s t = s \<longleftrightarrow> unat (s - base) \<le> unat (t - base)"
  using assms dist_inject [of s base t] by (auto simp: GetMinSeq_window)

lemma GetMinSeq_eq_right:
  assumes "unat (s - base) < 2 ^ 31" and "unat (t - base) < 2 ^ 31"
  shows "GetMinSeq s t = t \<longleftrightarrow> unat (t - base) \<le> unat (s - base)"
  using assms dist_inject [of s base t] by (auto simp: GetMinSeq_window)

lemma GetMaxSeq_eq_right:
  assumes "unat (s - base) < 2 ^ 31" and "unat (t - base) < 2 ^ 31"
  shows "GetMaxSeq s t = t \<longleftrightarrow> unat (s - base) \<le> unat (t - base)"
  using assms dist_inject [of s base t] by (auto simp: GetMaxSeq_window)

end
