(* ===== verification/ClickQueue.thy ===== *)
theory ClickQueue
  imports Prelude
begin

text \<open>
  The bounded queues of the stack. The three array queues borrowed from Click
  (\<^verbatim>\<open>tcp_stream_queue.c\<close>, \<^verbatim>\<open>tcp_rb_frag_queue.c\<close>, \<^verbatim>\<open>tcp_sb_queue.c\<close>)
  have one text with different element types; the record and the operations below are that text,
  and each file's functions are instances of them. The counting queue
  (\<^verbatim>\<open>stream_queue_int\<close>) is a second implementation. Both are interpretations of the
  locale \<open>bounded_fifo\<close>, whose client theorem is that every sequence of calls returns what a
  bounded first-in first-out list returns. The last section runs a producer and a consumer thread
  of the Click queue step by step.
\<close>

section \<open>The Click queue\<close>

text \<open>A pointer slot is \<open>None\<close> when it is \<^verbatim>\<open>NULL\<close>, as \<^verbatim>\<open>calloc\<close> leaves it.\<close>

record 'a click_queue =
  q_capacity :: u32
  q_head :: u32
  q_tail :: u32
  q_slots :: "'a option list"

definition NextIndex :: "'a click_queue \<Rightarrow> u32 \<Rightarrow> u32" where
  "NextIndex q i = (if i \<noteq> q_capacity q then i + 1 else 0)"

definition PrevIndex :: "'a click_queue \<Rightarrow> u32 \<Rightarrow> u32" where
  "PrevIndex q i = (if i \<noteq> 0 then i - 1 else q_capacity q)"

text \<open>The two \<^verbatim>\<open>calloc\<close> outcomes are arguments; a failed one gives \<^verbatim>\<open>NULL\<close>.\<close>

definition click_create :: "bool \<Rightarrow> bool \<Rightarrow> u32 \<Rightarrow> 'a click_queue option" where
  "click_create q_ok slots_ok capacity =
    (if \<not> q_ok then None
     else if \<not> slots_ok then None
     else Some \<lparr> q_capacity = capacity, q_head = 0, q_tail = 0,
                 q_slots = replicate (size_of_int (capacity + 1)) None \<rparr>)"

definition click_enqueue :: "'a click_queue \<Rightarrow> 'a option \<Rightarrow> (int \<times> 'a click_queue) c_result" where
  "click_enqueue q p =
    (let h = q_head q; t = q_tail q; nt = NextIndex q t in
     if nt \<noteq> h
     then (if unat t < length (q_slots q)
           then Inr (0, q \<lparr> q_slots := (q_slots q)[unat t := p], q_tail := nt \<rparr>)
           else Inl OutOfBounds)
     else Inr (- 1, q))"

definition click_dequeue :: "'a click_queue \<Rightarrow> ('a option \<times> 'a click_queue) c_result" where
  "click_dequeue q =
    (let h = q_head q; t = q_tail q in
     if h \<noteq> t
     then (if unat h < length (q_slots q)
           then (case q_slots q ! unat h of
                   None \<Rightarrow> Inl AssertFail
                 | Some x \<Rightarrow> Inr (Some x, q \<lparr> q_head := NextIndex q h \<rparr>))
           else Inl OutOfBounds)
     else Inr (None, q))"

definition StreamQueueIsEmpty :: "'a click_queue \<Rightarrow> bool" where
  "StreamQueueIsEmpty q \<longleftrightarrow> q_head q = q_tail q"

subsection \<open>The three instances\<close>

definition CreateStreamQueue :: "bool \<Rightarrow> bool \<Rightarrow> u32 \<Rightarrow> addr click_queue option" where
  "CreateStreamQueue = click_create"

definition StreamEnqueue :: "addr click_queue \<Rightarrow> addr option \<Rightarrow> (int \<times> addr click_queue) c_result" where
  "StreamEnqueue = click_enqueue"

definition StreamDequeue :: "addr click_queue \<Rightarrow> (addr option \<times> addr click_queue) c_result" where
  "StreamDequeue = click_dequeue"

definition CreateRBFragQueue :: "bool \<Rightarrow> bool \<Rightarrow> u32 \<Rightarrow> 'f click_queue option" where
  "CreateRBFragQueue = click_create"

definition RBFragEnqueue :: "'f click_queue \<Rightarrow> 'f option \<Rightarrow> (int \<times> 'f click_queue) c_result" where
  "RBFragEnqueue = click_enqueue"

definition RBFragDequeue :: "'f click_queue \<Rightarrow> ('f option \<times> 'f click_queue) c_result" where
  "RBFragDequeue = click_dequeue"

definition CreateSBQueue :: "bool \<Rightarrow> bool \<Rightarrow> u32 \<Rightarrow> 'b click_queue option" where
  "CreateSBQueue = click_create"

definition SBEnqueue :: "'b click_queue \<Rightarrow> 'b option \<Rightarrow> (int \<times> 'b click_queue) c_result" where
  "SBEnqueue = click_enqueue"

definition SBDequeue :: "'b click_queue \<Rightarrow> ('b option \<times> 'b click_queue) c_result" where
  "SBDequeue = click_dequeue"

section \<open>The counting queue\<close>

record 'a stream_queue_int =
  sqi_array :: "'a option list"
  sqi_size :: u32
  sqi_first :: u32
  sqi_last :: u32
  sqi_count :: u32

definition CreateInternalStreamQueue :: "bool \<Rightarrow> bool \<Rightarrow> u32 \<Rightarrow> 'a stream_queue_int option" where
  "CreateInternalStreamQueue q_ok array_ok sz =
    (if \<not> q_ok then None
     else if \<not> array_ok then None
     else Some \<lparr> sqi_array = replicate (size_of_int sz) None, sqi_size = sz,
                 sqi_first = 0, sqi_last = 0, sqi_count = 0 \<rparr>)"

definition StreamInternalEnqueue ::
    "'a stream_queue_int \<Rightarrow> 'a option \<Rightarrow> (int \<times> 'a stream_queue_int) c_result" where
  "StreamInternalEnqueue sq p =
    (if sint (sqi_size sq) \<le> sint (sqi_count sq) then Inr (- 1, sq)
     else if \<not> (0 \<le> sint (sqi_last sq) \<and> nat (sint (sqi_last sq)) < length (sqi_array sq))
     then Inl OutOfBounds
     else
       let arr = (sqi_array sq)[nat (sint (sqi_last sq)) := p];
           last = sqi_last sq + 1;
           count = sqi_count sq + 1;
           last' = (if sint (sqi_size sq) \<le> sint last then 0 else last) in
       if sint count \<le> sint (sqi_size sq)
       then Inr (0, sq \<lparr> sqi_array := arr, sqi_last := last', sqi_count := count \<rparr>)
       else Inl AssertFail)"

definition StreamInternalDequeue ::
    "'a stream_queue_int \<Rightarrow> ('a option \<times> 'a stream_queue_int) c_result" where
  "StreamInternalDequeue sq =
    (if sint (sqi_count sq) \<le> 0 then Inr (None, sq)
     else if \<not> (0 \<le> sint (sqi_first sq) \<and> nat (sint (sqi_first sq)) < length (sqi_array sq))
     then Inl OutOfBounds
     else case sqi_array sq ! nat (sint (sqi_first sq)) of
       None \<Rightarrow> Inl AssertFail
     | Some x \<Rightarrow>
         let first = sqi_first sq + 1;
             first' = (if sint (sqi_size sq) \<le> sint first then 0 else first);
             count = sqi_count sq - 1 in
         if 0 \<le> sint count
         then Inr (Some x, sq \<lparr> sqi_first := first', sqi_count := count \<rparr>)
         else Inl AssertFail)"

section \<open>The contract of a bounded queue\<close>

datatype 'a fifo_op = Enq 'a | Deq

datatype 'a fifo_res = EnqRes int | DeqRes "'a option"

text \<open>Running a sequence of calls, and the list it should behave as.\<close>

fun fifo_run :: "('q \<Rightarrow> 'a option \<Rightarrow> (int \<times> 'q) c_result) \<Rightarrow> ('q \<Rightarrow> ('a option \<times> 'q) c_result) \<Rightarrow>
    'a fifo_op list \<Rightarrow> 'q \<Rightarrow> ('a fifo_res list \<times> 'q) c_result" where
  "fifo_run enq deq [] q = Inr ([], q)"
| "fifo_run enq deq (Enq x # ops) q =
    (case enq q (Some x) of Inl e \<Rightarrow> Inl e
     | Inr (r, q') \<Rightarrow> (case fifo_run enq deq ops q' of Inl e \<Rightarrow> Inl e
         | Inr (rs, q'') \<Rightarrow> Inr (EnqRes r # rs, q'')))"
| "fifo_run enq deq (Deq # ops) q =
    (case deq q of Inl e \<Rightarrow> Inl e
     | Inr (r, q') \<Rightarrow> (case fifo_run enq deq ops q' of Inl e \<Rightarrow> Inl e
         | Inr (rs, q'') \<Rightarrow> Inr (DeqRes r # rs, q'')))"

fun fifo_spec :: "nat \<Rightarrow> 'a fifo_op list \<Rightarrow> 'a list \<Rightarrow> 'a fifo_res list \<times> 'a list" where
  "fifo_spec cap [] xs = ([], xs)"
| "fifo_spec cap (Enq x # ops) xs =
    (if length xs < cap
     then let (rs, ys) = fifo_spec cap ops (xs @ [x]) in (EnqRes 0 # rs, ys)
     else let (rs, ys) = fifo_spec cap ops xs in (EnqRes (- 1) # rs, ys))"
| "fifo_spec cap (Deq # ops) [] = (let (rs, ys) = fifo_spec cap ops [] in (DeqRes None # rs, ys))"
| "fifo_spec cap (Deq # ops) (x # xs) =
    (let (rs, ys) = fifo_spec cap ops xs in (DeqRes (Some x) # rs, ys))"

locale bounded_fifo =
  fixes enq :: "'q \<Rightarrow> 'a option \<Rightarrow> (int \<times> 'q) c_result"
    and deq :: "'q \<Rightarrow> ('a option \<times> 'q) c_result"
    and inv :: "'q \<Rightarrow> bool"
    and content :: "'q \<Rightarrow> 'a list"
    and cap :: "'q \<Rightarrow> nat"
  assumes content_le_cap: "inv q \<Longrightarrow> length (content q) \<le> cap q"
    and enq_room: "inv q \<Longrightarrow> length (content q) < cap q \<Longrightarrow>
      \<exists>q'. enq q (Some x) = Inr (0, q') \<and> inv q' \<and> content q' = content q @ [x] \<and> cap q' = cap q"
    and enq_full: "inv q \<Longrightarrow> length (content q) = cap q \<Longrightarrow> enq q (Some x) = Inr (- 1, q)"
    and deq_empty: "inv q \<Longrightarrow> content q = [] \<Longrightarrow> deq q = Inr (None, q)"
    and deq_cons: "inv q \<Longrightarrow> content q = x # xs \<Longrightarrow>
      \<exists>q'. deq q = Inr (Some x, q') \<and> inv q' \<and> content q' = xs \<and> cap q' = cap q"
begin

lemma run_refines:
  assumes "inv q"
  shows "\<exists>q'. fifo_run enq deq ops q = Inr (fst (fifo_spec (cap q) ops (content q)), q') \<and>
    inv q' \<and> cap q' = cap q \<and> content q' = snd (fifo_spec (cap q) ops (content q))"
  using assms
proof (induction ops arbitrary: q)
  case Nil
  then show ?case by simp
next
  case (Cons op ops)
  show ?case
  proof (cases op)
    case (Enq x)
    show ?thesis
    proof (cases "length (content q) < cap q")
      case True
      then obtain q1 where q1: "enq q (Some x) = Inr (0, q1)" "inv q1"
        "content q1 = content q @ [x]" "cap q1 = cap q"
        using enq_room [OF Cons.prems True] by blast
      from Cons.IH [OF q1(2)] show ?thesis
        using Enq True q1 by (auto split: prod.splits)
    next
      case False
      with content_le_cap [OF Cons.prems] have "enq q (Some x) = Inr (- 1, q)"
        by (intro enq_full Cons.prems) simp
      with Cons.IH [OF Cons.prems] show ?thesis
        using Enq False by (auto split: prod.splits)
    qed
  next
    case Deq
    show ?thesis
    proof (cases "content q")
      case Nil
      with Cons.IH [OF Cons.prems] deq_empty [OF Cons.prems Nil] show ?thesis
        using Deq by (auto split: prod.splits)
    next
      case (Cons x xs)
      then obtain q1 where q1: "deq q = Inr (Some x, q1)" "inv q1" "content q1 = xs" "cap q1 = cap q"
        using deq_cons [OF Cons.prems Cons] by blast
      from Cons.IH [OF q1(2)] show ?thesis
        using Deq Cons q1 by (auto split: prod.splits)
    qed
  qed
qed

end

section \<open>Circular indices\<close>

definition ring_idx :: "nat \<Rightarrow> nat \<Rightarrow> nat \<Rightarrow> nat" where
  "ring_idx n h i = (if h + i < n then h + i else h + i - n)"

definition ring_dist :: "nat \<Rightarrow> nat \<Rightarrow> nat \<Rightarrow> nat" where
  "ring_dist n h t = (if h \<le> t then t - h else t + n - h)"

lemma ring_idx_less: "h < n \<Longrightarrow> i < n \<Longrightarrow> ring_idx n h i < n"
  by (auto simp: ring_idx_def)

lemma ring_dist_less: "h < n \<Longrightarrow> t < n \<Longrightarrow> ring_dist n h t < n"
  by (auto simp: ring_dist_def)

lemma ring_dist_self [simp]: "ring_dist n h h = 0"
  by (simp add: ring_dist_def)

lemma ring_dist_eq_0: "h < n \<Longrightarrow> t < n \<Longrightarrow> ring_dist n h t = 0 \<longleftrightarrow> h = t"
  by (auto simp: ring_dist_def)

lemma ring_idx_0 [simp]: "h < n \<Longrightarrow> ring_idx n h 0 = h"
  by (simp add: ring_idx_def)

lemma ring_idx_dist: "h < n \<Longrightarrow> t < n \<Longrightarrow> ring_idx n h (ring_dist n h t) = t"
  by (auto simp: ring_idx_def ring_dist_def)

lemma ring_idx_ne_tail:
  "h < n \<Longrightarrow> t < n \<Longrightarrow> i < ring_dist n h t \<Longrightarrow> ring_idx n h i \<noteq> t"
  by (auto simp: ring_idx_def ring_dist_def split: if_splits)

lemma ring_dist_next_tail:
  "h < n \<Longrightarrow> t < n \<Longrightarrow> ring_idx n t (Suc 0) \<noteq> h \<Longrightarrow>
    ring_dist n h (ring_idx n t (Suc 0)) = Suc (ring_dist n h t)"
  by (auto simp: ring_idx_def ring_dist_def)

lemma ring_dist_full:
  "h < n \<Longrightarrow> t < n \<Longrightarrow> ring_idx n t (Suc 0) = h \<longleftrightarrow> Suc (ring_dist n h t) = n"
  by (auto simp: ring_idx_def ring_dist_def)

lemma ring_dist_next_head:
  "h < n \<Longrightarrow> t < n \<Longrightarrow> h \<noteq> t \<Longrightarrow> ring_dist n h t = Suc (ring_dist n (ring_idx n h (Suc 0)) t)"
  by (auto simp: ring_idx_def ring_dist_def)

lemma ring_idx_Suc:
  "h < n \<Longrightarrow> Suc i < n \<Longrightarrow> ring_idx n h (Suc i) = ring_idx n (ring_idx n h (Suc 0)) i"
  by (auto simp: ring_idx_def)

text \<open>The slots from \<open>h\<close> (inclusive) to \<open>t\<close> (exclusive), going round.\<close>

definition ring_slots :: "'a list \<Rightarrow> nat \<Rightarrow> nat \<Rightarrow> 'a list" where
  "ring_slots xs h t = map (\<lambda>i. xs ! ring_idx (length xs) h i) [0..<ring_dist (length xs) h t]"

lemma length_ring_slots [simp]: "length (ring_slots xs h t) = ring_dist (length xs) h t"
  by (simp add: ring_slots_def)

lemma ring_slots_same [simp]: "ring_slots xs h h = []"
  by (simp add: ring_slots_def)

lemma ring_slots_push:
  assumes "h < length xs" "t < length xs" "ring_idx (length xs) t (Suc 0) \<noteq> h"
  shows "ring_slots (xs[t := x]) h (ring_idx (length xs) t (Suc 0)) = ring_slots xs h t @ [x]"
proof -
  let ?n = "length xs"
  have "\<And>i. i < ring_dist ?n h t \<Longrightarrow> xs[t := x] ! ring_idx ?n h i = xs ! ring_idx ?n h i"
    using ring_idx_ne_tail [OF assms(1,2)] by (metis nth_list_update_neq)
  then show ?thesis
    by (simp add: ring_slots_def ring_dist_next_tail [OF assms] ring_idx_dist assms)
qed

lemma nth_ring_slots [simp]:
  "i < ring_dist (length xs) h t \<Longrightarrow> ring_slots xs h t ! i = xs ! ring_idx (length xs) h i"
  by (simp add: ring_slots_def)

lemma ring_slots_pop:
  assumes "h < length xs" "t < length xs" "h \<noteq> t"
  shows "ring_slots xs h t = xs ! h # ring_slots xs (ring_idx (length xs) h (Suc 0)) t"
proof (rule nth_equalityI)
  note step = ring_dist_next_head [OF assms]
  show "length (ring_slots xs h t) =
      length (xs ! h # ring_slots xs (ring_idx (length xs) h (Suc 0)) t)"
    by (simp only: length_ring_slots list.size step)
  fix i assume "i < length (ring_slots xs h t)"
  then have i: "i < ring_dist (length xs) h t" by simp
  show "ring_slots xs h t ! i = (xs ! h # ring_slots xs (ring_idx (length xs) h (Suc 0)) t) ! i"
  proof (cases i)
    case 0
    with i assms(1) show ?thesis by simp
  next
    case (Suc j)
    with i step ring_dist_less [OF assms(1,2)] have "Suc j < length xs" 
      and "j < ring_dist (length xs) (ring_idx (length xs) h (Suc 0)) t" by linarith+
    with i Suc assms(1) show ?thesis by (simp add: ring_idx_Suc [of h _ j])
  qed
qed

lemma ring_slots_write_outside:
  assumes "\<And>j. j < ring_dist (length xs) h t \<Longrightarrow> ring_idx (length xs) h j \<noteq> i"
  shows "ring_slots (xs[i := x]) h t = ring_slots xs h t"
proof (rule nth_equalityI)
  fix j assume "j < length (ring_slots (xs[i := x]) h t)"
  with assms [of j] show "ring_slots (xs[i := x]) h t ! j = ring_slots xs h t ! j"
    by simp
qed simp

section \<open>The Click queue meets the contract\<close>

definition click_indices :: "'a click_queue \<Rightarrow> bool" where
  "click_indices q \<longleftrightarrow>
    length (q_slots q) = Suc (unat (q_capacity q)) \<and>
    unat (q_head q) \<le> unat (q_capacity q) \<and> unat (q_tail q) \<le> unat (q_capacity q)"

definition click_pending :: "'a click_queue \<Rightarrow> 'a option list" where
  "click_pending q = ring_slots (q_slots q) (unat (q_head q)) (unat (q_tail q))"

definition click_inv :: "'a click_queue \<Rightarrow> bool" where
  "click_inv q \<longleftrightarrow> click_indices q \<and> None \<notin> set (click_pending q)"

definition click_content :: "'a click_queue \<Rightarrow> 'a list" where
  "click_content q = map the (click_pending q)"

definition click_cap :: "'a click_queue \<Rightarrow> nat" where
  "click_cap q = unat (q_capacity q)"

lemma unat_NextIndex:
  assumes "click_indices q" "unat i \<le> unat (q_capacity q)"
  shows "unat (NextIndex q i) = ring_idx (length (q_slots q)) (unat i) (Suc 0)"
proof (cases "i = q_capacity q")
  case True
  with assms show ?thesis by (simp add: NextIndex_def ring_idx_def click_indices_def)
next
  case False
  then have "unat i < unat (q_capacity q)"
    using assms(2) by (simp add: word_unat_eq_iff)
  then have "unat (i + 1) = unat i + 1"
    using unat_lt_2p32 [of "q_capacity q"] by (simp add: unat_word_ariths)
  with \<open>unat i < unat (q_capacity q)\<close> False assms(1) show ?thesis
    by (simp add: NextIndex_def ring_idx_def click_indices_def)
qed

lemma click_indices_less:
  "click_indices q \<Longrightarrow> unat (q_head q) < length (q_slots q) \<and> unat (q_tail q) < length (q_slots q)"
  by (simp add: click_indices_def)

lemma click_pending_enqueue:
  fixes q :: "'a click_queue" and p :: "'a option"
  assumes "click_indices q" "NextIndex q (q_tail q) \<noteq> q_head q"
  defines "q' \<equiv> q \<lparr> q_slots := (q_slots q)[unat (q_tail q) := p], q_tail := NextIndex q (q_tail q) \<rparr>"
  shows "click_indices q'" and "click_pending q' = click_pending q @ [p]"
proof -
  note less = click_indices_less [OF assms(1)]
  have nt: "unat (NextIndex q (q_tail q)) = ring_idx (length (q_slots q)) (unat (q_tail q)) (Suc 0)"
    using assms(1) by (intro unat_NextIndex) (simp_all add: click_indices_def)
  have "ring_idx (length (q_slots q)) (unat (q_tail q)) (Suc 0) < length (q_slots q)"
    using less by (auto simp: ring_idx_def)
  with assms(1) nt show "click_indices q'"
    by (auto simp: q'_def click_indices_def)
  have "ring_idx (length (q_slots q)) (unat (q_tail q)) (Suc 0) \<noteq> unat (q_head q)"
    using assms(2) nt by (metis word_unat_eq_iff)
  with less nt show "click_pending q' = click_pending q @ [p]"
    by (simp add: q'_def click_pending_def ring_slots_push)
qed

lemma click_pending_dequeue:
  assumes "click_indices q" "q_head q \<noteq> q_tail q"
  defines "q' \<equiv> q \<lparr> q_head := NextIndex q (q_head q) \<rparr>"
  shows "click_indices q'" and "click_pending q = q_slots q ! unat (q_head q) # click_pending q'"
proof -
  note less = click_indices_less [OF assms(1)]
  have nh: "unat (NextIndex q (q_head q)) = ring_idx (length (q_slots q)) (unat (q_head q)) (Suc 0)"
    using assms(1) by (intro unat_NextIndex) (simp_all add: click_indices_def)
  have "ring_idx (length (q_slots q)) (unat (q_head q)) (Suc 0) < length (q_slots q)"
    using less by (auto simp: ring_idx_def)
  with assms(1) nh show "click_indices q'"
    by (auto simp: q'_def click_indices_def)
  have "unat (q_head q) \<noteq> unat (q_tail q)" using assms(2) by (simp add: word_unat_eq_iff)
  with less nh show "click_pending q = q_slots q ! unat (q_head q) # click_pending q'"
    by (simp add: q'_def click_pending_def ring_slots_pop)
qed

lemma click_full_iff:
  assumes "click_indices q"
  shows "NextIndex q (q_tail q) = q_head q \<longleftrightarrow> length (click_pending q) = click_cap q"
proof -
  note less = click_indices_less [OF assms]
  have "NextIndex q (q_tail q) = q_head q \<longleftrightarrow>
      ring_idx (length (q_slots q)) (unat (q_tail q)) (Suc 0) = unat (q_head q)"
    using assms by (simp add: word_unat_eq_iff unat_NextIndex click_indices_def)
  also have "\<dots> \<longleftrightarrow> Suc (ring_dist (length (q_slots q)) (unat (q_head q)) (unat (q_tail q))) = length (q_slots q)"
    using less by (intro ring_dist_full) auto
  finally show ?thesis
    using assms by (simp add: click_pending_def click_cap_def click_indices_def)
qed

lemma click_empty_iff:
  assumes "click_indices q"
  shows "q_head q = q_tail q \<longleftrightarrow> click_pending q = []"
proof (cases "q_head q = q_tail q")
  case True
  then show ?thesis by (simp add: click_pending_def)
next
  case False
  from click_pending_dequeue(2) [OF assms False] False show ?thesis by simp
qed

lemma click_pending_le:
  "click_indices q \<Longrightarrow> length (click_pending q) \<le> click_cap q"
  using ring_dist_less [of "unat (q_head q)" "length (q_slots q)" "unat (q_tail q)"]
  by (simp add: click_pending_def click_cap_def click_indices_def)


lemma click_enqueue_room:
  assumes "click_inv q" "length (click_content q) < click_cap q"
  shows "\<exists>q'. click_enqueue q (Some x) = Inr (0, q') \<and> click_inv q' \<and>
    click_content q' = click_content q @ [x] \<and> click_cap q' = click_cap q"
proof -
  have ind: "click_indices q" using assms(1) by (simp add: click_inv_def)
  have ne: "NextIndex q (q_tail q) \<noteq> q_head q"
    using assms(2) by (simp add: click_full_iff [OF ind] click_content_def)
  note enq = click_pending_enqueue [OF ind ne, of "Some x"]
  show ?thesis
    using assms(1) enq ne click_indices_less [OF ind]
    by (auto simp: click_enqueue_def Let_def click_inv_def click_content_def click_cap_def)
qed

lemma click_enqueue_full:
  assumes "click_inv q" "length (click_content q) = click_cap q"
  shows "click_enqueue q p = Inr (- 1, q)"
  using assms by (simp add: click_enqueue_def click_full_iff click_inv_def click_content_def)

lemma click_dequeue_empty:
  assumes "click_inv q" "click_content q = []"
  shows "click_dequeue q = Inr (None, q)"
  using assms by (simp add: click_dequeue_def click_empty_iff click_inv_def click_content_def)

lemma click_dequeue_cons:
  assumes "click_inv q" "click_content q = x # xs"
  shows "\<exists>q'. click_dequeue q = Inr (Some x, q') \<and> click_inv q' \<and>
    click_content q' = xs \<and> click_cap q' = click_cap q"
proof -
  have ind: "click_indices q" using assms(1) by (simp add: click_inv_def)
  have ne: "q_head q \<noteq> q_tail q"
    using assms(2) by (auto simp: click_empty_iff [OF ind] click_content_def)
  note deq = click_pending_dequeue [OF ind ne]
  have "q_slots q ! unat (q_head q) = Some x"
    using deq(2) assms by (cases "q_slots q ! unat (q_head q)") (auto simp: click_inv_def click_content_def)
  then show ?thesis
    using assms deq ne click_indices_less [OF ind]
    by (auto simp: click_dequeue_def Let_def click_inv_def click_content_def click_cap_def)
qed

lemma click_create_OK:
  assumes "unat capacity < 2 ^ 31 - 1"
  shows "\<exists>q. click_create True True capacity = Some q \<and> click_inv q \<and> click_content q = [] \<and>
    click_cap q = unat capacity"
proof -
  have "unat (capacity + 1) = unat capacity + 1"
    using assms by (simp add: unat_word_ariths)
  with assms have "size_of_int (capacity + 1) = Suc (unat capacity)"
    by (simp add: size_of_int_nonneg)
  then show ?thesis
    by (simp add: click_create_def click_inv_def click_indices_def click_content_def
        click_pending_def click_cap_def)
qed

lemma click_content_le: "click_inv q \<Longrightarrow> length (click_content q) \<le> click_cap q"
  using click_pending_le [of q] by (simp add: click_inv_def click_content_def)

interpretation click: bounded_fifo click_enqueue click_dequeue click_inv click_content click_cap
  by unfold_locales
    (rule click_content_le click_enqueue_room click_enqueue_full click_dequeue_empty
      click_dequeue_cons; assumption)+

interpretation stream_q: bounded_fifo StreamEnqueue StreamDequeue click_inv click_content click_cap
  unfolding StreamEnqueue_def StreamDequeue_def by (rule click.bounded_fifo_axioms)

interpretation frag_q: bounded_fifo RBFragEnqueue RBFragDequeue click_inv click_content click_cap
  unfolding RBFragEnqueue_def RBFragDequeue_def by (rule click.bounded_fifo_axioms)

interpretation sb_q: bounded_fifo SBEnqueue SBDequeue click_inv click_content click_cap
  unfolding SBEnqueue_def SBDequeue_def by (rule click.bounded_fifo_axioms)

section \<open>The counting queue meets the contract\<close>

definition sqi_cap :: "'a stream_queue_int \<Rightarrow> nat" where
  "sqi_cap sq = unat (sqi_size sq)"

definition sqi_pending :: "'a stream_queue_int \<Rightarrow> 'a option list" where
  "sqi_pending sq = map (\<lambda>i. sqi_array sq ! ring_idx (length (sqi_array sq)) (unat (sqi_first sq)) i)
     [0..<unat (sqi_count sq)]"

definition sqi_inv :: "'a stream_queue_int \<Rightarrow> bool" where
  "sqi_inv sq \<longleftrightarrow>
    0 < unat (sqi_size sq) \<and> unat (sqi_size sq) < 2 ^ 31 \<and>
    length (sqi_array sq) = unat (sqi_size sq) \<and>
    unat (sqi_first sq) < unat (sqi_size sq) \<and>
    unat (sqi_count sq) \<le> unat (sqi_size sq) \<and>
    unat (sqi_last sq) = ring_idx (unat (sqi_size sq)) (unat (sqi_first sq)) (unat (sqi_count sq)) \<and>
    None \<notin> set (sqi_pending sq)"

definition sqi_content :: "'a stream_queue_int \<Rightarrow> 'a list" where
  "sqi_content sq = map the (sqi_pending sq)"


lemma sqi_enqueue_room:
  assumes inv: "sqi_inv sq" and room: "length (sqi_content sq) < sqi_cap sq"
  shows "\<exists>sq'. StreamInternalEnqueue sq (Some x) = Inr (0, sq') \<and> sqi_inv sq' \<and>
    sqi_content sq' = sqi_content sq @ [x] \<and> sqi_cap sq' = sqi_cap sq"
proof -
  let ?n = "unat (sqi_size sq)" and ?f = "unat (sqi_first sq)" and ?c = "unat (sqi_count sq)"
  have c: "?c < ?n" using room by (simp add: sqi_content_def sqi_pending_def sqi_cap_def)
  have n: "?n < 2 ^ 31" "?f < ?n" "length (sqi_array sq) = ?n"
    and l: "unat (sqi_last sq) = ring_idx ?n ?f ?c" using inv by (auto simp: sqi_inv_def)
  have l_less: "unat (sqi_last sq) < ?n" using l n c by (simp add: ring_idx_less)
  have l31: "unat (sqi_last sq) < 2 ^ 31" and c31: "?c < 2 ^ 31" using l_less c n by simp_all
  have l1: "unat (sqi_last sq + 1) = unat (sqi_last sq) + 1"
    and c1: "unat (sqi_count sq + 1) = ?c + 1" using l31 c31 by (simp_all only: unat_plus_1)
  have l1_31: "unat (sqi_last sq + 1) < 2 ^ 31" and c1_31: "unat (sqi_count sq + 1) < 2 ^ 31"
    using l1 c1 l_less c n by linarith+
  define last' where "last' = (if ?n \<le> unat (sqi_last sq + 1) then 0 else sqi_last sq + 1)"
  define sq' where "sq' = sq \<lparr> sqi_array := (sqi_array sq)[unat (sqi_last sq) := Some x],
    sqi_last := last', sqi_count := sqi_count sq + 1 \<rparr>"
  have enq: "StreamInternalEnqueue sq (Some x) = Inr (0, sq')"
    using c n l_less l31 c31 l1 c1 l1_31 c1_31
    by (simp add: StreamInternalEnqueue_def Let_def int_conv sq'_def last'_def)
  have last': "unat last' = ring_idx ?n ?f (Suc ?c)"
    using l l1 l_less n c by (auto simp: last'_def ring_idx_def)
  have ne: "ring_idx ?n ?f ?c \<noteq> ring_idx ?n ?f i" if "i < ?c" for i
    using that c n by (auto simp: ring_idx_def)
  have "sqi_pending sq' = sqi_pending sq @ [Some x]"
    using ne c1 n l l_less by (simp add: sqi_pending_def sq'_def)
  then show ?thesis
    using enq inv last' c1 c n by (auto simp: sqi_inv_def sqi_content_def sqi_cap_def sq'_def)
qed

lemma sqi_enqueue_full:
  assumes "sqi_inv sq" "length (sqi_content sq) = sqi_cap sq"
  shows "StreamInternalEnqueue sq p = Inr (- 1, sq)"
  using assms by (simp add: StreamInternalEnqueue_def sqi_content_def sqi_pending_def sqi_cap_def
      sqi_inv_def int_conv)

lemma sqi_dequeue_empty:
  assumes "sqi_inv sq" "sqi_content sq = []"
  shows "StreamInternalDequeue sq = Inr (None, sq)"
  using assms by (simp add: StreamInternalDequeue_def sqi_content_def sqi_pending_def int_conv)

lemma sqi_pending_pop:
  assumes inv: "sqi_inv sq" and c: "0 < unat (sqi_count sq)"
  defines "f' \<equiv> ring_idx (unat (sqi_size sq)) (unat (sqi_first sq)) (Suc 0)"
  shows "sqi_pending sq = sqi_array sq ! unat (sqi_first sq) #
    map (\<lambda>i. sqi_array sq ! ring_idx (length (sqi_array sq)) f' i) [0..<unat (sqi_count sq) - 1]"
proof (rule nth_equalityI)
  fix i assume "i < length (sqi_pending sq)"
  then have i: "i < unat (sqi_count sq)" by (simp add: sqi_pending_def)
  have "ring_idx (unat (sqi_size sq)) (unat (sqi_first sq)) (Suc j) = ring_idx (unat (sqi_size sq)) f' j"
    if "Suc j < unat (sqi_size sq)" for j
    using inv that unfolding f'_def by (intro ring_idx_Suc) (simp_all add: sqi_inv_def)
  with i inv show "sqi_pending sq ! i = (sqi_array sq ! unat (sqi_first sq) #
      map (\<lambda>i. sqi_array sq ! ring_idx (length (sqi_array sq)) f' i) [0..<unat (sqi_count sq) - 1]) ! i"
    by (cases i) (auto simp: sqi_pending_def sqi_inv_def)
qed (use c in \<open>simp add: sqi_pending_def\<close>)

lemma sqi_dequeue_cons:
  assumes inv: "sqi_inv sq" and ne: "sqi_content sq = x # xs"
  shows "\<exists>sq'. StreamInternalDequeue sq = Inr (Some x, sq') \<and> sqi_inv sq' \<and>
    sqi_content sq' = xs \<and> sqi_cap sq' = sqi_cap sq"
proof -
  let ?n = "unat (sqi_size sq)" and ?f = "unat (sqi_first sq)" and ?c = "unat (sqi_count sq)"
  have c: "0 < ?c" using ne by (cases "?c = 0") (auto simp: sqi_content_def sqi_pending_def)
  have n: "?n < 2 ^ 31" "?f < ?n" "?c \<le> ?n" "length (sqi_array sq) = ?n"
    using inv by (auto simp: sqi_inv_def)
  have f31: "?f < 2 ^ 31" and c31: "?c < 2 ^ 31" using n by linarith+
  have f1: "unat (sqi_first sq + 1) = ?f + 1" and c1: "unat (sqi_count sq - 1) = ?c - 1"
    using f31 c by (simp_all only: unat_plus_1 unat_minus_1)
  have f1_31: "unat (sqi_first sq + 1) < 2 ^ 31" and c1_31: "unat (sqi_count sq - 1) < 2 ^ 31"
    using f1 c1 n by linarith+
  define first' where "first' = (if ?n \<le> unat (sqi_first sq + 1) then 0 else sqi_first sq + 1)"
  define sq' where "sq' = sq \<lparr> sqi_first := first', sqi_count := sqi_count sq - 1 \<rparr>"
  have first': "unat first' = ring_idx ?n ?f (Suc 0)"
    using n f1 by (auto simp: first'_def ring_idx_def)
  have pend: "sqi_pending sq = sqi_array sq ! ?f # sqi_pending sq'"
    using sqi_pending_pop [OF inv c] by (simp add: sqi_pending_def sq'_def first' c1)
  with inv ne have hd: "sqi_array sq ! ?f = Some x"
    by (cases "sqi_array sq ! ?f") (auto simp: sqi_inv_def sqi_content_def)
  have "StreamInternalDequeue sq = Inr (Some x, sq')"
    using c n hd f31 c31 f1_31 c1_31
    by (simp add: StreamInternalDequeue_def Let_def int_conv sq'_def first'_def)
  moreover have "sqi_inv sq'"
    using inv pend first' c1 c n
    by (auto simp: sqi_inv_def sq'_def ring_idx_def split: if_splits)
  ultimately show ?thesis
    using ne pend by (auto simp: sqi_content_def sqi_cap_def sq'_def)
qed

lemma sqi_content_le: "sqi_inv sq \<Longrightarrow> length (sqi_content sq) \<le> sqi_cap sq"
  by (simp add: sqi_inv_def sqi_content_def sqi_pending_def sqi_cap_def)

lemma CreateInternalStreamQueue_OK:
  assumes "0 < unat sz" "unat sz < 2 ^ 31"
  shows "\<exists>sq. CreateInternalStreamQueue True True sz = Some sq \<and> sqi_inv sq \<and>
    sqi_content sq = [] \<and> sqi_cap sq = unat sz"
  using assms by (simp add: CreateInternalStreamQueue_def sqi_inv_def sqi_content_def
      sqi_pending_def sqi_cap_def ring_idx_def size_of_int_nonneg)

interpretation sqi: bounded_fifo StreamInternalEnqueue StreamInternalDequeue sqi_inv sqi_content sqi_cap
  by unfold_locales
    (rule sqi_content_le sqi_enqueue_room sqi_enqueue_full sqi_dequeue_empty sqi_dequeue_cons;
      assumption)+


section \<open>One producer and one consumer\<close>

text \<open>
  The stack's threads share these queues without a lock (\<^verbatim>\<open>LOCK_STREAM_QUEUE\<close> is
  \<^verbatim>\<open>FALSE\<close>): the application thread enqueues, the stack thread dequeues. Each load and
  store of \<^verbatim>\<open>_head\<close>, \<^verbatim>\<open>_tail\<close> and a slot is a step of its own, in program order (the
  barrier of the enqueue keeps the slot's store before the store of \<^verbatim>\<open>_tail\<close>), so a
  loaded index can be stale when it is used. \<open>sp_in\<close> and \<open>sp_out\<close> record the completed
  calls.
\<close>

datatype 'a producer =
  PIdle
| PHead 'a u32           \<comment> \<open>\<^verbatim>\<open>h\<close> loaded\<close>
| PTail 'a u32 u32       \<comment> \<open>\<^verbatim>\<open>h\<close> and \<^verbatim>\<open>t\<close> loaded\<close>
| PStored 'a u32         \<comment> \<open>the slot written, \<^verbatim>\<open>nt\<close> to be published\<close>

datatype 'a consumer =
  CIdle
| CHead u32
| CTail u32 u32
| CRead 'a u32           \<comment> \<open>the slot read, \<^verbatim>\<open>_head\<close> to be advanced\<close>

record 'a spsc =
  sp_q :: "'a click_queue"
  sp_prod :: "'a producer"
  sp_cons :: "'a consumer"
  sp_in :: "'a list"
  sp_out :: "'a list"

inductive spsc_step :: "'a spsc \<Rightarrow> 'a spsc \<Rightarrow> bool" where
  enq_load_head: "sp_prod s = PIdle \<Longrightarrow> spsc_step s (s \<lparr> sp_prod := PHead x (q_head (sp_q s)) \<rparr>)"
| enq_load_tail: "sp_prod s = PHead x h \<Longrightarrow>
    spsc_step s (s \<lparr> sp_prod := PTail x h (q_tail (sp_q s)) \<rparr>)"
| enq_full: "sp_prod s = PTail x h t \<Longrightarrow> NextIndex (sp_q s) t = h \<Longrightarrow>
    spsc_step s (s \<lparr> sp_prod := PIdle \<rparr>)"
| enq_store: "sp_prod s = PTail x h t \<Longrightarrow> NextIndex (sp_q s) t \<noteq> h \<Longrightarrow>
    spsc_step s (s \<lparr> sp_prod := PStored x (NextIndex (sp_q s) t),
      sp_q := (sp_q s) \<lparr> q_slots := (q_slots (sp_q s))[unat t := Some x] \<rparr> \<rparr>)"
| enq_publish: "sp_prod s = PStored x nt \<Longrightarrow>
    spsc_step s (s \<lparr> sp_prod := PIdle, sp_q := (sp_q s) \<lparr> q_tail := nt \<rparr>, sp_in := sp_in s @ [x] \<rparr>)"
| deq_load_head: "sp_cons s = CIdle \<Longrightarrow> spsc_step s (s \<lparr> sp_cons := CHead (q_head (sp_q s)) \<rparr>)"
| deq_load_tail: "sp_cons s = CHead h \<Longrightarrow>
    spsc_step s (s \<lparr> sp_cons := CTail h (q_tail (sp_q s)) \<rparr>)"
| deq_empty: "sp_cons s = CTail h t \<Longrightarrow> h = t \<Longrightarrow> spsc_step s (s \<lparr> sp_cons := CIdle \<rparr>)"
| deq_read: "sp_cons s = CTail h t \<Longrightarrow> h \<noteq> t \<Longrightarrow> q_slots (sp_q s) ! unat h = Some x \<Longrightarrow>
    spsc_step s (s \<lparr> sp_cons := CRead x h \<rparr>)"
| deq_advance: "sp_cons s = CRead x h \<Longrightarrow>
    spsc_step s (s \<lparr> sp_cons := CIdle, sp_q := (sp_q s) \<lparr> q_head := NextIndex (sp_q s) h \<rparr>,
      sp_out := sp_out s @ [x] \<rparr>)"

definition spsc_start :: "'a click_queue \<Rightarrow> 'a spsc" where
  "spsc_start q = \<lparr> sp_q = q, sp_prod = PIdle, sp_cons = CIdle, sp_in = click_content q, sp_out = [] \<rparr>"

text \<open>The next access of a thread stays inside the slot array and finds the slot filled.\<close>

definition spsc_safe :: "'a spsc \<Rightarrow> bool" where
  "spsc_safe s \<longleftrightarrow>
    (case sp_prod s of PTail x h t \<Rightarrow> unat t < length (q_slots (sp_q s)) | _ \<Rightarrow> True) \<and>
    (case sp_cons s of CTail h t \<Rightarrow> h \<noteq> t \<longrightarrow>
       unat h < length (q_slots (sp_q s)) \<and> q_slots (sp_q s) ! unat h \<noteq> None | _ \<Rightarrow> True)"

definition dist_to_tail :: "'a click_queue \<Rightarrow> u32 \<Rightarrow> nat" where
  "dist_to_tail q h = ring_dist (length (q_slots q)) (unat h) (unat (q_tail q))"

definition prod_ok :: "'a click_queue \<Rightarrow> 'a producer \<Rightarrow> bool" where
  "prod_ok q p = (case p of
     PIdle \<Rightarrow> True
   | PHead x h \<Rightarrow> unat h < length (q_slots q) \<and> dist_to_tail q (q_head q) \<le> dist_to_tail q h
   | PTail x h t \<Rightarrow> t = q_tail q \<and>
       unat h < length (q_slots q) \<and> dist_to_tail q (q_head q) \<le> dist_to_tail q h
   | PStored x nt \<Rightarrow> nt = NextIndex q (q_tail q) \<and> nt \<noteq> q_head q \<and>
       q_slots q ! unat (q_tail q) = Some x)"

definition cons_ok :: "'a click_queue \<Rightarrow> 'a consumer \<Rightarrow> bool" where
  "cons_ok q c = (case c of
     CIdle \<Rightarrow> True
   | CHead h \<Rightarrow> h = q_head q
   | CTail h t \<Rightarrow> h = q_head q \<and> (h \<noteq> t \<longrightarrow> q_head q \<noteq> q_tail q)
   | CRead x h \<Rightarrow> h = q_head q \<and> q_head q \<noteq> q_tail q \<and> q_slots q ! unat h = Some x)"

definition spsc_inv :: "'a spsc \<Rightarrow> bool" where
  "spsc_inv s \<longleftrightarrow> click_inv (sp_q s) \<and> sp_in s = sp_out s @ click_content (sp_q s) \<and>
    prod_ok (sp_q s) (sp_prod s) \<and> cons_ok (sp_q s) (sp_cons s)"

lemma stale_head_not_full:
  assumes "click_indices q" "unat h < length (q_slots q)"
    and "dist_to_tail q (q_head q) \<le> dist_to_tail q h" "NextIndex q (q_tail q) \<noteq> h"
  shows "NextIndex q (q_tail q) \<noteq> q_head q"
proof
  let ?n = "length (q_slots q)" and ?t = "unat (q_tail q)"
  note less = click_indices_less [OF assms(1)]
  have nt: "unat (NextIndex q (q_tail q)) = ring_idx ?n ?t (Suc 0)"
    using assms(1) by (intro unat_NextIndex) (simp_all add: click_indices_def)
  assume "NextIndex q (q_tail q) = q_head q"
  then have "Suc (dist_to_tail q (q_head q)) = ?n"
    using less nt by (simp add: dist_to_tail_def ring_dist_full [symmetric])
  moreover have "dist_to_tail q h < ?n"
    using assms(2) less by (simp add: dist_to_tail_def ring_dist_less)
  ultimately have "Suc (dist_to_tail q h) = ?n" using assms(3) by linarith
  then have "ring_idx ?n ?t (Suc 0) = unat h"
    using assms(2) less by (simp add: dist_to_tail_def ring_dist_full)
  with nt assms(4) show False by (metis word_unat_eq_iff)
qed

lemma click_store_outside:
  assumes "click_indices q" "NextIndex q (q_tail q) \<noteq> q_head q"
  shows "click_pending (q \<lparr> q_slots := (q_slots q)[unat (q_tail q) := p] \<rparr>) = click_pending q"
  using ring_idx_ne_tail [of "unat (q_head q)" "length (q_slots q)" "unat (q_tail q)"]
    click_indices_less [OF assms(1)]
  by (auto simp: click_pending_def intro!: ring_slots_write_outside)


lemma NextIndex_inject:
  assumes "click_indices q" "unat i \<le> unat (q_capacity q)" "unat j \<le> unat (q_capacity q)"
    and "NextIndex q i = NextIndex q j"
  shows "i = j"
proof -
  have "ring_idx (length (q_slots q)) (unat i) (Suc 0) = ring_idx (length (q_slots q)) (unat j) (Suc 0)"
    using assms by (metis unat_NextIndex)
  then have "unat i = unat j"
    using assms by (auto simp: ring_idx_def click_indices_def split: if_splits)
  then show ?thesis by (simp add: word_unat_eq_iff)
qed

lemma dist_to_tail_next:
  assumes "click_indices q" "q_head q \<noteq> q_tail q"
  shows "dist_to_tail q (q_head q) = Suc (dist_to_tail q (NextIndex q (q_head q)))"
proof -
  have "unat (NextIndex q (q_head q)) = ring_idx (length (q_slots q)) (unat (q_head q)) (Suc 0)"
    using assms(1) by (intro unat_NextIndex) (simp_all add: click_indices_def)
  then show ?thesis
    using assms click_indices_less [OF assms(1)]
    by (simp add: dist_to_tail_def ring_dist_next_head word_unat_eq_iff)
qed

lemma spsc_store:
  assumes inv: "spsc_inv s" and p: "sp_prod s = PTail x h t" and ne: "NextIndex (sp_q s) t \<noteq> h"
  shows "spsc_inv (s \<lparr> sp_prod := PStored x (NextIndex (sp_q s) t),
      sp_q := (sp_q s) \<lparr> q_slots := (q_slots (sp_q s))[unat t := Some x] \<rparr> \<rparr>)"
proof -
  let ?q = "sp_q s"
  let ?q' = "?q \<lparr> q_slots := (q_slots ?q)[unat t := Some x] \<rparr>"
  have ind: "click_indices ?q" and prod: "prod_ok ?q (PTail x h t)"
    using inv p by (simp_all add: spsc_inv_def click_inv_def)
  then have t: "t = q_tail ?q" by (simp add: prod_ok_def)
  have nf: "NextIndex ?q (q_tail ?q) \<noteq> q_head ?q"
    using stale_head_not_full [OF ind, of h] prod ne by (simp add: prod_ok_def)
  have pend: "click_pending ?q' = click_pending ?q"
    using click_store_outside [OF ind nf] t by simp
  have ind': "click_indices ?q'" using ind by (simp add: click_indices_def)
  have "prod_ok ?q' (PStored x (NextIndex ?q t))"
    using nf t click_indices_less [OF ind] by (simp add: prod_ok_def NextIndex_def)
  moreover have "cons_ok ?q' (sp_cons s)"
    using inv t by (auto simp: spsc_inv_def cons_ok_def word_unat_eq_iff split: consumer.splits)
  ultimately show ?thesis
    using inv pend ind' by (simp add: spsc_inv_def click_inv_def click_content_def)
qed

lemma spsc_publish:
  assumes inv: "spsc_inv s" and p: "sp_prod s = PStored x nt"
  shows "spsc_inv (s \<lparr> sp_prod := PIdle, sp_q := (sp_q s) \<lparr> q_tail := nt \<rparr>, sp_in := sp_in s @ [x] \<rparr>)"
proof -
  let ?q = "sp_q s"
  have ind: "click_indices ?q" and nt: "nt = NextIndex ?q (q_tail ?q)" "NextIndex ?q (q_tail ?q) \<noteq> q_head ?q"
    and slot: "q_slots ?q ! unat (q_tail ?q) = Some x"
    using inv p by (auto simp: spsc_inv_def click_inv_def prod_ok_def)
  have "?q \<lparr> q_slots := (q_slots ?q)[unat (q_tail ?q) := Some x], q_tail := NextIndex ?q (q_tail ?q) \<rparr> =
      ?q \<lparr> q_tail := nt \<rparr>" using list_update_id [of "q_slots ?q" "unat (q_tail ?q)"] slot nt by simp
  with click_pending_enqueue [OF ind nt(2), of "Some x"]
  have "click_indices (?q \<lparr> q_tail := nt \<rparr>)" and "click_pending (?q \<lparr> q_tail := nt \<rparr>) = click_pending ?q @ [Some x]"
    by simp_all
  moreover have "cons_ok (?q \<lparr> q_tail := nt \<rparr>) (sp_cons s)"
    using inv nt by (auto simp: spsc_inv_def cons_ok_def split: consumer.splits)
  ultimately show ?thesis
    using inv by (simp add: spsc_inv_def click_inv_def click_content_def prod_ok_def)
qed

lemma spsc_advance:
  assumes inv: "spsc_inv s" and c: "sp_cons s = CRead x h"
  shows "spsc_inv (s \<lparr> sp_cons := CIdle, sp_q := (sp_q s) \<lparr> q_head := NextIndex (sp_q s) h \<rparr>,
      sp_out := sp_out s @ [x] \<rparr>)"
proof -
  let ?q = "sp_q s" and ?q' = "sp_q s \<lparr> q_head := NextIndex (sp_q s) h \<rparr>"
  have ind: "click_indices ?q" and h: "h = q_head ?q" and ne: "q_head ?q \<noteq> q_tail ?q"
    and slot: "q_slots ?q ! unat h = Some x"
    using inv c by (auto simp: spsc_inv_def click_inv_def cons_ok_def)
  note deq = click_pending_dequeue [OF ind ne]
  have "NextIndex ?q (q_tail ?q) \<noteq> NextIndex ?q (q_head ?q)"
    using NextIndex_inject [OF ind, of "q_tail ?q" "q_head ?q"] ind ne by (auto simp: click_indices_def)
  then have "prod_ok ?q' (sp_prod s)"
    using inv h dist_to_tail_next [OF ind ne]
    by (auto simp: spsc_inv_def prod_ok_def dist_to_tail_def NextIndex_def split: producer.splits)
  then show ?thesis
    using inv deq slot h by (simp add: spsc_inv_def click_inv_def click_content_def cons_ok_def)
qed

lemma spsc_step_inv:
  assumes "spsc_step s s'" "spsc_inv s"
  shows "spsc_inv s'"
  using assms
proof (cases rule: spsc_step.cases)
  case (enq_store x h t)
  with assms(2) show ?thesis by (simp add: spsc_store)
next
  case (enq_publish x nt)
  with assms(2) show ?thesis by (simp add: spsc_publish)
next
  case (deq_advance x h)
  with assms(2) show ?thesis by (simp add: spsc_advance)
qed (auto simp: spsc_inv_def prod_ok_def cons_ok_def click_inv_def dest: click_indices_less)

lemma spsc_reachable_inv:
  assumes "spsc_step\<^sup>*\<^sup>* (spsc_start q) s" "click_inv q"
  shows "spsc_inv s"
  using assms(1)
proof (induction rule: rtranclp_induct)
  case base
  show ?case using assms(2) by (simp add: spsc_inv_def spsc_start_def prod_ok_def cons_ok_def)
qed (rule spsc_step_inv)

lemma spsc_inv_safe:
  assumes "spsc_inv s"
  shows "spsc_safe s"
proof -
  let ?q = "sp_q s"
  have ind: "click_indices ?q" and filled: "None \<notin> set (click_pending ?q)"
    using assms by (simp_all add: spsc_inv_def click_inv_def)
  have "q_slots ?q ! unat (q_head ?q) \<noteq> None" if "q_head ?q \<noteq> q_tail ?q"
    using click_pending_dequeue(2) [OF ind that] filled by (metis list.set_intros(1))
  then show ?thesis
    using assms click_indices_less [OF ind]
    by (auto simp: spsc_safe_def spsc_inv_def prod_ok_def cons_ok_def
        split: producer.splits consumer.splits)
qed


section \<open>Properties\<close>

text \<open>C13. Every sequence of calls to the stream queue that \<^verbatim>\<open>CreateStreamQueue\<close> returned
  for a capacity below \<open>INT_MAX\<close> returns exactly what a first-in first-out list bounded by that
  capacity returns: an enqueue fails with \<open>-1\<close> exactly when the list is full, a dequeue returns
  \<^verbatim>\<open>NULL\<close> exactly when it is empty, and no call reads or writes outside the array or fails
  the assertion.\<close>

theorem stream_queue_is_bounded_fifo:
  assumes "unat capacity < 2 ^ 31 - 1" and "CreateStreamQueue True True capacity = Some q"
  shows "\<exists>q'. fifo_run StreamEnqueue StreamDequeue ops q =
      Inr (fst (fifo_spec (unat capacity) ops []), q') \<and>
    click_content q' = snd (fifo_spec (unat capacity) ops [])"
proof -
  have "click_inv q \<and> click_content q = [] \<and> click_cap q = unat capacity"
    using click_create_OK [OF assms(1), where 'a = addr] assms(2) by (auto simp: CreateStreamQueue_def)
  then show ?thesis using stream_q.run_refines [of q ops] by metis
qed

theorem stream_queue_is_bounded_fifo_witness:
  "\<exists>q'. fifo_run StreamEnqueue StreamDequeue [Enq 7, Enq 8, Enq 9, Deq, Deq, Deq]
      (the (CreateStreamQueue True True 2)) =
      Inr ([EnqRes 0, EnqRes 0, EnqRes (- 1), DeqRes (Some 7), DeqRes (Some 8), DeqRes None], q') \<and>
    click_content q' = []"
  using stream_queue_is_bounded_fifo [of 2 "the (CreateStreamQueue True True 2)"
      "[Enq 7, Enq 8, Enq 9, Deq, Deq, Deq]"]
  by (simp add: CreateStreamQueue_def click_create_def)

text \<open>C14. The counting queue \<^verbatim>\<open>stream_queue_int\<close> created with a positive size answers every
  sequence of calls as the same bounded first-in first-out list does, and none of its assertions
  fails.\<close>

theorem internal_queue_is_bounded_fifo:
  assumes "0 < sint sz" and "CreateInternalStreamQueue True True sz = Some sq"
  shows "\<exists>sq' :: 'a stream_queue_int. fifo_run StreamInternalEnqueue StreamInternalDequeue ops sq =
      Inr (fst (fifo_spec (unat sz) ops []), sq') \<and>
    sqi_content sq' = snd (fifo_spec (unat sz) ops [])"
proof -
  have "0 < unat sz" "unat sz < 2 ^ 31"
    using assms(1) unat_lt_2p32 [of sz] by (auto simp: sint_eq_unat simp del: of_nat_unat split: if_splits)
  then have "sqi_inv sq \<and> sqi_content sq = [] \<and> sqi_cap sq = unat sz"
    using CreateInternalStreamQueue_OK [of sz, where 'a = 'a] assms(2) by auto
  then show ?thesis using sqi.run_refines [of sq ops] by metis
qed

theorem internal_queue_is_bounded_fifo_witness:
  "\<exists>sq'. fifo_run StreamInternalEnqueue StreamInternalDequeue [Enq (5 :: nat), Enq 6, Deq, Enq 7, Deq, Deq]
      (the (CreateInternalStreamQueue True True 2)) =
      Inr ([EnqRes 0, EnqRes 0, DeqRes (Some 5), EnqRes 0, DeqRes (Some 6), DeqRes (Some 7)], sq') \<and>
    sqi_content sq' = []"
  using internal_queue_is_bounded_fifo [of 2 "the (CreateInternalStreamQueue True True 2)"
      "[Enq (5 :: nat), Enq 6, Deq, Enq 7, Deq, Deq]"]
  by (simp add: CreateInternalStreamQueue_def)

text \<open>C9. With one enqueuing thread and one dequeuing thread interleaved at every load and store,
  and no lock, the queue loses, repeats and reorders nothing: the completed enqueues are the
  completed dequeues followed by what is in the queue. No access goes outside the slot array and a
  dequeue never reads an empty slot.\<close>

theorem spsc_exactly_once_in_order:
  assumes "click_inv q" and "spsc_step\<^sup>*\<^sup>* (spsc_start q) s"
  shows "sp_in s = sp_out s @ click_content (sp_q s) \<and> spsc_safe s"
  using spsc_reachable_inv [OF assms(2,1)] spsc_inv_safe [of s] by (auto simp: spsc_inv_def)

theorem spsc_exactly_once_in_order_witness:
  "let q = the (CreateStreamQueue True True 1);
       s = \<lparr> sp_q = \<lparr> q_capacity = 1, q_head = 0, q_tail = 1, q_slots = [Some 7, None] \<rparr>,
             sp_prod = PIdle, sp_cons = CTail 0 1, sp_in = [7], sp_out = [] \<rparr> in
   spsc_step\<^sup>*\<^sup>* (spsc_start q) s \<and> sp_in s = sp_out s @ click_content (sp_q s) \<and> spsc_safe s"
proof -
  define q :: "addr click_queue" where "q = the (CreateStreamQueue True True 1)"
  have q: "q = \<lparr> q_capacity = 1, q_head = 0, q_tail = 0, q_slots = [None, None] \<rparr>"
    by (simp add: q_def CreateStreamQueue_def click_create_def size_of_int_def numeral_2_eq_2)
  have inv: "click_inv q" by (simp add: q click_inv_def click_indices_def click_pending_def)
  define s where "s = \<lparr> sp_q = \<lparr> q_capacity = 1, q_head = 0, q_tail = 1, q_slots = [Some 7, None] \<rparr>,
             sp_prod = PIdle, sp_cons = CTail 0 1, sp_in = [7 :: addr], sp_out = [] \<rparr>"
  note load = enq_load_head [of _ 7] and lt = enq_load_tail [of _ 7 0] and st = enq_store [of _ 7 0 0]
    and pb = enq_publish [of _ 7 1]
  have "spsc_step\<^sup>*\<^sup>* (spsc_start q) (spsc_start q \<lparr> sp_prod := PStored 7 1,
      sp_q := q \<lparr> q_slots := [Some 7, None] \<rparr> \<rparr>)"
    using load [of "spsc_start q"] lt [of "spsc_start q \<lparr> sp_prod := PHead 7 0 \<rparr>"]
      st [of "spsc_start q \<lparr> sp_prod := PTail 7 0 0 \<rparr>"]
    by (simp add: spsc_start_def q NextIndex_def)
  also have "spsc_step\<^sup>*\<^sup>* \<dots> s"
    using pb [of "spsc_start q \<lparr> sp_prod := PStored 7 1, sp_q := q \<lparr> q_slots := [Some 7, None] \<rparr> \<rparr>"]
      deq_load_head [of "s \<lparr> sp_cons := CIdle \<rparr>"] deq_load_tail [of "s \<lparr> sp_cons := CHead 0 \<rparr>" 0]
    by (simp add: spsc_start_def q s_def click_content_def click_pending_def)
  finally have reach: "spsc_step\<^sup>*\<^sup>* (spsc_start q) s" .
  show ?thesis
    unfolding Let_def q_def [symmetric] s_def [symmetric]
    using spsc_exactly_once_in_order [OF inv reach] reach by blast
qed

end
