(* ===== verification/ResourcePool.thy ===== *)
theory ResourcePool
  imports Prelude
begin

text \<open>
  The contract shared by the chunk pool and the address pool: a fixed set of items, some free and
  the others held by clients. The locale's client theorem runs any sequence of allocations and
  frees: what is held and what is free stay disjoint and together are all items.
\<close>

section \<open>The contract\<close>

datatype pool_op = Alloc | Free nat

text \<open>A client holds items: \<^verbatim>\<open>Alloc\<close> adds the item it gets, \<open>Free i\<close> gives back
  the \<open>i\<close>-th item it holds.\<close>

fun pool_run :: "('p \<Rightarrow> ('a option \<times> 'p) c_result) \<Rightarrow> ('p \<Rightarrow> 'a \<Rightarrow> 'p c_result) \<Rightarrow>
    pool_op list \<Rightarrow> 'p \<Rightarrow> 'a list \<Rightarrow> ('p \<times> 'a list) c_result" where
  "pool_run alloc free [] p held = Inr (p, held)"
| "pool_run alloc free (Alloc # ops) p held =
    (case alloc p of Inl e \<Rightarrow> Inl e
     | Inr (None, p') \<Rightarrow> pool_run alloc free ops p' held
     | Inr (Some a, p') \<Rightarrow> pool_run alloc free ops p' (a # held))"
| "pool_run alloc free (Free i # ops) p held =
    (if i < length held
     then (case free p (held ! i) of Inl e \<Rightarrow> Inl e
           | Inr p' \<Rightarrow> pool_run alloc free ops p' (remove1 (held ! i) held))
     else pool_run alloc free ops p held)"

locale resource_pool =
  fixes alloc :: "'p \<Rightarrow> ('a option \<times> 'p) c_result"
    and free :: "'p \<Rightarrow> 'a \<Rightarrow> 'p c_result"
    and rel :: "'p \<Rightarrow> 'a list \<Rightarrow> bool"
    and items :: "'p \<Rightarrow> 'a set"
  assumes rel_distinct: "rel p xs \<Longrightarrow> distinct xs \<and> set xs \<subseteq> items p"
    and finite_items: "finite (items p)"
    and alloc_none: "rel p [] \<Longrightarrow> alloc p = Inr (None, p)"
    and alloc_some: "rel p (a # xs) \<Longrightarrow> \<exists>p'. alloc p = Inr (Some a, p') \<and> rel p' xs \<and> items p' = items p"
    and free_ok: "rel p xs \<Longrightarrow> a \<in> items p \<Longrightarrow> a \<notin> set xs \<Longrightarrow>
      \<exists>p' ys. free p a = Inr p' \<and> rel p' ys \<and> set ys = insert a (set xs) \<and> items p' = items p"
begin

definition owns :: "'p \<Rightarrow> 'a list \<Rightarrow> bool" where
  "owns p held \<longleftrightarrow> (\<exists>xs. rel p xs \<and> distinct held \<and> set held \<inter> set xs = {} \<and> set held \<union> set xs = items p)"

lemma owns_alloc:
  assumes "owns p held"
  shows "(\<exists>a p'. alloc p = Inr (Some a, p') \<and> a \<notin> set held \<and> owns p' (a # held) \<and> items p' = items p) \<or>
    (alloc p = Inr (None, p) \<and> set held = items p)"
proof -
  obtain xs where xs: "rel p xs" "distinct held" "set held \<inter> set xs = {}" "set held \<union> set xs = items p"
    using assms by (auto simp: owns_def)
  show ?thesis
  proof (cases xs)
    case Nil
    with xs alloc_none show ?thesis by auto
  next
    case (Cons a ys)
    with xs alloc_some [of p a ys] obtain p' where
      p': "alloc p = Inr (Some a, p')" "rel p' ys" "items p' = items p" by auto
    moreover have "a \<notin> set ys" using rel_distinct [OF xs(1)] Cons by auto
    moreover have "owns p' (a # held)" unfolding owns_def
      using xs Cons p' \<open>a \<notin> set ys\<close> by (intro exI [of _ ys]) auto
    ultimately show ?thesis using xs Cons by auto
  qed
qed

lemma owns_free:
  assumes "owns p held" "a \<in> set held"
  shows "\<exists>p'. free p a = Inr p' \<and> owns p' (remove1 a held) \<and> items p' = items p"
proof -
  obtain xs where xs: "rel p xs" "distinct held" "set held \<inter> set xs = {}" "set held \<union> set xs = items p"
    using assms by (auto simp: owns_def)
  then obtain p' ys where p': "free p a = Inr p'" "rel p' ys" "set ys = insert a (set xs)" "items p' = items p"
    using free_ok [of p xs a] assms(2) by auto
  then have "owns p' (remove1 a held)" unfolding owns_def
    using xs assms(2) by (intro exI [of _ ys]) auto
  with p' show ?thesis by auto
qed

lemma pool_run_owns:
  assumes "owns p held"
  shows "\<exists>p' held'. pool_run alloc free ops p held = Inr (p', held') \<and> owns p' held' \<and> items p' = items p"
  using assms
proof (induction ops arbitrary: p held)
  case Nil
  then show ?case by simp
next
  case (Cons op ops)
  show ?case
  proof (cases op)
    case Alloc
    from owns_alloc [OF Cons.prems] show ?thesis
    proof (elim disjE exE conjE)
      fix a p1 assume a: "alloc p = Inr (Some a, p1)" "owns p1 (a # held)" "items p1 = items p"
      with Cons.IH [OF a(2)] Alloc show ?thesis by auto
    qed (use Cons.IH [OF Cons.prems] Alloc in auto)
  next
    case (Free i)
    show ?thesis
    proof (cases "i < length held")
      case True
      then have "held ! i \<in> set held" by simp
      from owns_free [OF Cons.prems this] obtain p1 where
        p1: "free p (held ! i) = Inr p1" "owns p1 (remove1 (held ! i) held)" "items p1 = items p" by auto
      with Cons.IH [OF p1(2)] Free True show ?thesis by auto
    qed (use Cons.IH [OF Cons.prems] Free in auto)
  qed
qed

end

end
