(* ===== verification/MemPool.thy ===== *)
theory MemPool
  imports ResourcePool
begin

text \<open>
  The fixed-size chunk pool of \<^verbatim>\<open>memory_mgt.c\<close> (the build without DPDK pools). The free
  chunks are runs of adjacent chunks; the header at the start of a run holds its length and the
  next run. The abstraction is the list of free chunk addresses in the order in which
  \<^verbatim>\<open>MPAllocateChunk\<close> hands them out, and the pool is an interpretation of the locale
  \<open>resource_pool\<close>: no chunk is ever handed out twice.
\<close>

section \<open>The pool\<close>

record mem_chunk =
  mc_free_chunks :: u32
  mc_next :: "addr option"

text \<open>\<open>mp_mem a\<close> is what the first bytes of the chunk at \<open>a\<close> hold, read as a header. A chunk is
  at least as big as a header, so headers at different chunk starts do not overlap.\<close>

record mem_pool =
  mp_startptr :: addr
  mp_freeptr :: "addr option"
  mp_free_chunks :: u32
  mp_total_chunks :: u32
  mp_chunk_size :: u32
  mp_mem :: "addr \<Rightarrow> mem_chunk"

definition sizeof_mem_chunk :: nat where
  "sizeof_mem_chunk = 16"

definition put_header :: "mem_pool \<Rightarrow> addr \<Rightarrow> mem_chunk \<Rightarrow> mem_pool" where
  "put_header mp a h = mp \<lparr> mp_mem := (mp_mem mp)(a := h) \<rparr>"

text \<open>\<open>start\<close> is the block that \<^verbatim>\<open>posix_memalign\<close> returned, \<open>None\<close> when it failed;
  \<open>mem\<close> is what the block holds then. A negative \<^verbatim>\<open>chunk_size\<close> is converted to
  \<^verbatim>\<open>size_t\<close> in the first comparison and passes it.\<close>

definition MPCreate :: "bool \<Rightarrow> addr option \<Rightarrow> (addr \<Rightarrow> mem_chunk) \<Rightarrow> u32 \<Rightarrow> u64 \<Rightarrow> mem_pool option c_result" where
  "MPCreate calloc_ok start mem chunk_size total_size =
    (if size_of_int chunk_size < sizeof_mem_chunk then Inr None
     else if sint chunk_size mod 4 \<noteq> 0 then Inr None
     else if \<not> calloc_ok then Inl ProcessExit
     else
       let n = ucast ((total_size + scast (chunk_size - 1)) div scast chunk_size) in
       case start of
         None \<Rightarrow> Inl AssertFail
       | Some a \<Rightarrow> Inr (Some (put_header
           \<lparr> mp_startptr = a, mp_freeptr = Some a, mp_free_chunks = n, mp_total_chunks = n,
             mp_chunk_size = chunk_size, mp_mem = mem \<rparr>
           a \<lparr> mc_free_chunks = n, mc_next = None \<rparr>)))"

definition MPAllocateChunk :: "mem_pool \<Rightarrow> (addr option \<times> mem_pool) c_result" where
  "MPAllocateChunk mp =
    (if mp_free_chunks mp = 0 then Inr (None, mp)
     else case mp_freeptr mp of
       None \<Rightarrow> Inl NullDeref
     | Some p \<Rightarrow>
         let h = mp_mem mp p in
         if \<not> 0 < sint (mc_free_chunks h) then Inl AssertFail
         else
           let h' = h \<lparr> mc_free_chunks := mc_free_chunks h - 1 \<rparr>;
               mp' = (put_header mp p h') \<lparr> mp_free_chunks := mp_free_chunks mp - 1 \<rparr>;
               right = nat (int p + sint (mp_chunk_size mp)) in
           Inr (Some p,
             if mc_free_chunks h' \<noteq> 0
             then (put_header mp' right \<lparr> mc_free_chunks = mc_free_chunks h', mc_next = mc_next h' \<rparr>)
                    \<lparr> mp_freeptr := Some right \<rparr>
             else mp' \<lparr> mp_freeptr := mc_next h' \<rparr>))"

definition MPFreeChunk :: "mem_pool \<Rightarrow> addr \<Rightarrow> mem_pool c_result" where
  "MPFreeChunk mp p =
    (if (int p - int (mp_startptr mp)) mod sint (mp_chunk_size mp) \<noteq> 0 then Inl AssertFail
     else Inr ((put_header mp p \<lparr> mc_free_chunks = 1, mc_next = mp_freeptr mp \<rparr>)
       \<lparr> mp_freeptr := Some p, mp_free_chunks := mp_free_chunks mp + 1 \<rparr>))"

definition MPGetFreeChunks :: "mem_pool \<Rightarrow> int" where
  "MPGetFreeChunks mp = sint (mp_free_chunks mp)"

section \<open>The runs of free chunks\<close>

fun chain :: "(addr \<Rightarrow> mem_chunk) \<Rightarrow> addr option \<Rightarrow> (addr \<times> nat) list \<Rightarrow> bool" where
  "chain mem p [] \<longleftrightarrow> p = None"
| "chain mem p ((a, n) # rs) \<longleftrightarrow>
    p = Some a \<and> 0 < n \<and> unat (mc_free_chunks (mem a)) = n \<and> chain mem (mc_next (mem a)) rs"

definition run_chunks :: "nat \<Rightarrow> addr \<times> nat \<Rightarrow> addr list" where
  "run_chunks cs r = map (\<lambda>i. fst r + i * cs) [0..<snd r]"

definition free_chunks :: "nat \<Rightarrow> (addr \<times> nat) list \<Rightarrow> addr list" where
  "free_chunks cs rs = concat (map (run_chunks cs) rs)"

definition pool_chunks :: "mem_pool \<Rightarrow> addr set" where
  "pool_chunks mp = (\<lambda>i. mp_startptr mp + i * unat (mp_chunk_size mp)) ` {..<unat (mp_total_chunks mp)}"

definition pool_wf :: "mem_pool \<Rightarrow> bool" where
  "pool_wf mp \<longleftrightarrow> sizeof_mem_chunk \<le> unat (mp_chunk_size mp) \<and> unat (mp_chunk_size mp) < 2 ^ 31 \<and>
    unat (mp_total_chunks mp) < 2 ^ 31"

definition pool_rel :: "mem_pool \<Rightarrow> addr list \<Rightarrow> bool" where
  "pool_rel mp xs \<longleftrightarrow> pool_wf mp \<and> distinct xs \<and> set xs \<subseteq> pool_chunks mp \<and>
    unat (mp_free_chunks mp) = length xs \<and>
    (\<exists>rs. chain (mp_mem mp) (mp_freeptr mp) rs \<and> xs = free_chunks (unat (mp_chunk_size mp)) rs)"

lemma run_chunks_Suc: "run_chunks cs (a, Suc n) = a # run_chunks cs (a + cs, n)"
proof -
  have "[0..<Suc n] = 0 # map Suc [0..<n]" by (simp add: map_Suc_upt upt_conv_Cons del: upt_Suc)
  then show ?thesis by (simp add: run_chunks_def algebra_simps del: upt_Suc)
qed

lemma hd_run_in: "0 < n \<Longrightarrow> a \<in> set (run_chunks cs (a, n))"
  by (cases n) (simp_all add: run_chunks_Suc)

lemma chain_cong:
  assumes "chain mem p rs" "\<forall>r\<in>set rs. mem' (fst r) = mem (fst r)"
  shows "chain mem' p rs"
  using assms by (induction mem p rs rule: chain.induct) auto

lemma chain_starts_in: "chain mem p rs \<Longrightarrow> r \<in> set rs \<Longrightarrow> fst r \<in> set (free_chunks cs rs)"
  by (induction mem p rs rule: chain.induct) (auto simp: free_chunks_def hd_run_in)

lemma chain_write_other:
  assumes "chain mem p rs" "a \<notin> set (free_chunks cs rs)"
  shows "chain (mem(a := h)) p rs"
proof -
  have "\<forall>r\<in>set rs. (mem(a := h)) (fst r) = mem (fst r)"
    using chain_starts_in [OF assms(1), of _ cs] assms(2) by auto
  with assms(1) show ?thesis by (rule chain_cong)
qed

lemma card_pool_chunks:
  assumes "pool_wf mp"
  shows "card (pool_chunks mp) = unat (mp_total_chunks mp)"
proof -
  have "inj_on (\<lambda>i. mp_startptr mp + i * unat (mp_chunk_size mp)) {..<unat (mp_total_chunks mp)}"
    using assms by (auto simp: inj_on_def pool_wf_def sizeof_mem_chunk_def)
  then show ?thesis by (simp add: pool_chunks_def card_image)
qed

lemma pool_rel_le:
  assumes "pool_rel mp xs"
  shows "length xs < 2 ^ 31"
proof -
  have "length xs = card (set xs)" using assms by (simp add: pool_rel_def distinct_card)
  also have "\<dots> \<le> card (pool_chunks mp)"
    using assms by (intro card_mono) (auto simp: pool_rel_def pool_chunks_def)
  finally show ?thesis using assms by (simp add: pool_rel_def card_pool_chunks pool_wf_def)
qed

lemma pool_alloc_none: "pool_rel mp [] \<Longrightarrow> MPAllocateChunk mp = Inr (None, mp)"
  by (simp add: pool_rel_def MPAllocateChunk_def unat_eq_zero)

lemma pool_alloc_some:
  assumes rel: "pool_rel mp (a # xs)"
  shows "\<exists>mp'. MPAllocateChunk mp = Inr (Some a, mp') \<and> pool_rel mp' xs \<and> pool_chunks mp' = pool_chunks mp"
proof -
  let ?cs = "unat (mp_chunk_size mp)"
  obtain rs where rs: "chain (mp_mem mp) (mp_freeptr mp) rs" "a # xs = free_chunks ?cs rs"
    using rel by (auto simp: pool_rel_def)
  obtain b n rs' where rs': "rs = (b, n) # rs'" "0 < n"
    using rs by (cases rs) (auto simp: free_chunks_def)
  then obtain m where m: "n = Suc m" by (cases n) auto
  with rs rs' have b: "b = a" and xs: "xs = run_chunks ?cs (a + ?cs, m) @ free_chunks ?cs rs'"
    by (auto simp: free_chunks_def run_chunks_Suc)
  have head: "mp_freeptr mp = Some a" "unat (mc_free_chunks (mp_mem mp a)) = Suc m"
    and tail: "chain (mp_mem mp) (mc_next (mp_mem mp a)) rs'"
    using rs(1) rs' m b by auto
  have small: "Suc (length xs) < 2 ^ 31" using pool_rel_le [OF rel] by simp
  have m_le: "Suc m \<le> Suc (length xs)" using xs by (simp add: run_chunks_def)
  have pos: "0 < sint (mc_free_chunks (mp_mem mp a))"
    using head(2) small m_le sint_nonneg_eq [of "mc_free_chunks (mp_mem mp a)"] by linarith
  have cnt: "unat (mc_free_chunks (mp_mem mp a) - 1) = m"
    using head(2) by (simp add: unat_minus_1)
  have fr: "unat (mp_free_chunks mp) = Suc (length xs)" "mp_free_chunks mp \<noteq> 0"
    using rel by (auto simp: pool_rel_def)
  have fr': "unat (mp_free_chunks mp - 1) = length xs" using fr by (simp add: unat_minus_1)
  have right: "nat (int a + sint (mp_chunk_size mp)) = a + ?cs"
    using rel sint_nonneg_eq [of "mp_chunk_size mp"]
    by (simp add: pool_rel_def pool_wf_def nat_int_add del: of_nat_unat)
  have a_xs: "a \<notin> set xs" using rel by (simp add: pool_rel_def)
  have wf: "pool_wf mp" and dist: "distinct xs" and sub: "set xs \<subseteq> pool_chunks mp"
    using rel by (auto simp: pool_rel_def)
  show ?thesis
  proof (cases m)
    case 0
    have z: "mc_free_chunks (mp_mem mp a) - 1 = 0" using cnt 0 by (simp add: unat_eq_zero)
    have "xs = free_chunks ?cs rs'" using xs 0 by (simp add: run_chunks_def)
    moreover have "chain ((mp_mem mp)(a := h)) (mc_next (mp_mem mp a)) rs'" for h
      using tail a_xs calculation by (auto intro: chain_write_other)
    ultimately show ?thesis
      using head fr fr' pos z wf dist sub
      by (auto simp: MPAllocateChunk_def Let_def pool_rel_def put_header_def pool_wf_def pool_chunks_def)
  next
    case (Suc k)
    have nz: "mc_free_chunks (mp_mem mp a) - 1 \<noteq> 0" using cnt Suc by auto
    define mem' where "mem' = (mp_mem mp)(a := (mp_mem mp a) \<lparr> mc_free_chunks := mc_free_chunks (mp_mem mp a) - 1 \<rparr>,
      a + ?cs := \<lparr> mc_free_chunks = mc_free_chunks (mp_mem mp a) - 1, mc_next = mc_next (mp_mem mp a) \<rparr>)"
    have "a + ?cs \<in> set (run_chunks ?cs (a + ?cs, m))" using Suc by (simp add: hd_run_in)
    then have "a + ?cs \<notin> set (free_chunks ?cs rs')" using dist xs by auto
    then have "chain mem' (mc_next (mp_mem mp a)) rs'"
      unfolding mem'_def using tail a_xs xs by (intro chain_write_other [where cs = ?cs]) auto
    then have ch: "chain mem' (Some (a + ?cs)) ((a + ?cs, m) # rs')"
      using cnt Suc by (simp add: mem'_def)
    have "xs = free_chunks ?cs ((a + ?cs, m) # rs')" using xs by (simp add: free_chunks_def)
    with ch have ex: "\<exists>rs. chain mem' (Some (a + ?cs)) rs \<and> xs = free_chunks ?cs rs" by blast
    have alloc: "MPAllocateChunk mp = Inr (Some a, mp \<lparr> mp_mem := mem', mp_free_chunks := mp_free_chunks mp - 1,
        mp_freeptr := Some (a + ?cs) \<rparr>)"
      using head fr pos nz right by (simp add: MPAllocateChunk_def Let_def put_header_def mem'_def)
    show ?thesis
      unfolding alloc using ex fr' wf dist sub by (auto simp: pool_rel_def pool_wf_def pool_chunks_def)
  qed
qed


lemma pool_free_ok:
  assumes rel: "pool_rel mp xs" and a: "a \<in> pool_chunks mp" "a \<notin> set xs"
  shows "\<exists>mp'. MPFreeChunk mp a = Inr mp' \<and> pool_rel mp' (a # xs) \<and> pool_chunks mp' = pool_chunks mp"
proof -
  let ?cs = "unat (mp_chunk_size mp)"
  obtain i where i: "a = mp_startptr mp + i * ?cs" using a(1) by (auto simp: pool_chunks_def)
  have "sint (mp_chunk_size mp) = int ?cs"
    using rel by (simp only: pool_rel_def pool_wf_def sint_nonneg_eq)
  then have ok: "(int a - int (mp_startptr mp)) mod sint (mp_chunk_size mp) = 0"
    using i by (simp del: of_nat_unat)
  obtain rs where rs: "chain (mp_mem mp) (mp_freeptr mp) rs" "xs = free_chunks ?cs rs"
    using rel by (auto simp: pool_rel_def)
  define mem' where "mem' = (mp_mem mp)(a := \<lparr> mc_free_chunks = 1, mc_next = mp_freeptr mp \<rparr>)"
  have "chain mem' (mp_freeptr mp) rs"
    unfolding mem'_def using rs a(2) by (intro chain_write_other) auto
  then have "chain mem' (Some a) ((a, 1) # rs)" by (simp add: mem'_def)
  moreover have "a # xs = free_chunks ?cs ((a, 1) # rs)"
    using rs(2) by (simp add: free_chunks_def run_chunks_def)
  ultimately have ex: "\<exists>rs. chain mem' (Some a) rs \<and> a # xs = free_chunks ?cs rs" by blast
  have "unat (mp_free_chunks mp + 1) = Suc (length xs)"
    using pool_rel_le [OF rel] rel by (simp add: pool_rel_def unat_plus_1)
  then show ?thesis
    using ok ex rel a
    by (auto simp: MPFreeChunk_def pool_rel_def put_header_def pool_wf_def pool_chunks_def mem'_def)
qed

lemma pool_chunks_finite: "finite (pool_chunks mp)"
  by (simp add: pool_chunks_def)

interpretation mp: resource_pool MPAllocateChunk MPFreeChunk pool_rel pool_chunks
proof
  show "distinct xs \<and> set xs \<subseteq> pool_chunks p" if "pool_rel p xs" for p xs
    using that by (simp add: pool_rel_def)
  show "\<exists>p' ys. MPFreeChunk p a = Inr p' \<and> pool_rel p' ys \<and> set ys = insert a (set xs) \<and>
      pool_chunks p' = pool_chunks p"
    if "pool_rel p xs" "a \<in> pool_chunks p" "a \<notin> set xs" for p xs a
    using pool_free_ok [OF that] by (metis list.simps(15))
qed (rule pool_chunks_finite pool_alloc_none pool_alloc_some; assumption)+

text \<open>What a client writes into a chunk it holds does not disturb the pool.\<close>

lemma pool_rel_scribble:
  assumes "pool_rel mp xs" "a \<notin> set xs"
  shows "pool_rel (put_header mp a h) xs"
  using assms
  by (auto simp: pool_rel_def put_header_def pool_wf_def pool_chunks_def intro: chain_write_other)


section \<open>Creation\<close>

lemma unat_scast_nonneg:
  assumes "unat (w :: u32) < 2 ^ 31"
  shows "unat (scast w :: u64) = unat w"
proof -
  have "(scast w :: u64) = of_nat (unat w)"
    unfolding scast_eq sint_nonneg_eq [OF assms] by (rule of_int_of_nat_eq)
  then show ?thesis using assms by (simp only: unat_of_nat) simp
qed

definition pool_slots :: "nat \<Rightarrow> nat \<Rightarrow> nat" where
  "pool_slots chunk_size total_size = (total_size + (chunk_size - 1)) div chunk_size"

lemma MPCreate_count:
  fixes cs :: u32 and tsize :: u64
  assumes "16 \<le> unat cs" "unat cs < 2 ^ 31" "unat tsize < 2 ^ 63"
    and "pool_slots (unat cs) (unat tsize) < 2 ^ 31"
  shows "unat (ucast ((tsize + scast (cs - 1)) div (scast cs :: u64)) :: u32) = pool_slots (unat cs) (unat tsize)"
proof -
  have c1: "unat (cs - 1) = unat cs - 1" using assms(1) by (intro unat_minus_1) simp
  have s: "unat (scast (cs - 1) :: u64) = unat cs - 1" "unat (scast cs :: u64) = unat cs"
    using assms(1,2) c1 by (simp_all add: unat_scast_nonneg)
  have "unat (tsize + scast (cs - 1)) = unat tsize + (unat cs - 1)"
    using assms s by (simp add: unat_word_ariths)
  then have "unat ((tsize + scast (cs - 1)) div (scast cs :: u64)) = pool_slots (unat cs) (unat tsize)"
    using s by (simp add: unat_div_distrib pool_slots_def)
  then show ?thesis using assms(4) by (simp add: unsigned_ucast_eq unsigned_take_bit_eq take_bit_eq_mod)
qed

lemma MPCreate_OK:
  assumes cs: "16 \<le> unat cs" "unat cs < 2 ^ 31" "sint cs mod 4 = 0"
    and total: "0 < unat tsize" "unat tsize < 2 ^ 63" "pool_slots (unat cs) (unat tsize) < 2 ^ 31"
  shows "\<exists>mp xs. MPCreate True (Some start) mem cs tsize = Inr (Some mp) \<and> pool_rel mp xs \<and>
    set xs = pool_chunks mp \<and> length xs = pool_slots (unat cs) (unat tsize)"
proof -
  let ?n = "pool_slots (unat cs) (unat tsize)"
  let ?w = "ucast ((tsize + scast (cs - 1)) div (scast cs :: u64)) :: u32"
  have n: "unat ?w = ?n" using cs total by (intro MPCreate_count) simp_all
  have pos: "0 < ?n" using cs(1) total(1) by (simp add: pool_slots_def div_greater_zero_iff)
  define mp where "mp = put_header
           \<lparr> mp_startptr = start, mp_freeptr = Some start, mp_free_chunks = ?w, mp_total_chunks = ?w,
             mp_chunk_size = cs, mp_mem = mem \<rparr>
           start \<lparr> mc_free_chunks = ?w, mc_next = None \<rparr>"
  have create: "MPCreate True (Some start) mem cs tsize = Inr (Some mp)"
    using cs by (simp add: MPCreate_def mp_def Let_def size_of_int_nonneg sizeof_mem_chunk_def)
  let ?xs = "free_chunks (unat cs) [(start, ?n)]"
  have xs: "?xs = map (\<lambda>i. start + i * unat cs) [0..<?n]"
    by (simp add: free_chunks_def run_chunks_def)
  have "distinct ?xs" using cs(1) by (auto simp: xs distinct_map inj_on_def)
  moreover have "set ?xs = pool_chunks mp"
    using n by (auto simp: xs pool_chunks_def mp_def put_header_def atLeast0LessThan)
  moreover have "chain (mp_mem mp) (mp_freeptr mp) [(start, ?n)]"
    using n pos by (simp add: mp_def put_header_def)
  moreover have "mp_chunk_size mp = cs" "unat (mp_total_chunks mp) = ?n" "unat (mp_free_chunks mp) = length ?xs"
    using n by (simp_all add: mp_def put_header_def xs)
  ultimately have "pool_rel mp ?xs"
    unfolding pool_rel_def pool_wf_def sizeof_mem_chunk_def
    using cs total by (intro conjI exI [of _ "[(start, ?n)]"]) simp_all
  with create \<open>set ?xs = pool_chunks mp\<close> show ?thesis by (auto simp: xs)
qed

section \<open>Properties\<close>

text \<open>C7. From a freshly created pool, after any sequence of allocations and of frees of chunks the
  client holds, the chunks held are pairwise different chunks of the pool, and the next allocation
  fails exactly when the client holds all of them; otherwise it returns a chunk nobody holds. No
  assertion fails and no null pointer is followed on the way.\<close>

theorem pool_never_hands_out_twice:
  assumes cs: "16 \<le> unat cs" "unat cs < 2 ^ 31" "sint cs mod 4 = 0"
    and total: "0 < unat tsize" "unat tsize < 2 ^ 63" "pool_slots (unat cs) (unat tsize) < 2 ^ 31"
    and create: "MPCreate True (Some start) mem cs tsize = Inr (Some mp)"
  shows "\<exists>mp' held. pool_run MPAllocateChunk MPFreeChunk ops mp [] = Inr (mp', held) \<and>
    distinct held \<and> set held \<subseteq> pool_chunks mp \<and>
    (\<exists>r mp''. MPAllocateChunk mp' = Inr (r, mp'') \<and>
      (r = None \<longleftrightarrow> length held = pool_slots (unat cs) (unat tsize)) \<and>
      (\<forall>a. r = Some a \<longrightarrow> a \<in> pool_chunks mp \<and> a \<notin> set held))"
proof -
  obtain xs where xs: "pool_rel mp xs" "set xs = pool_chunks mp"
      "length xs = pool_slots (unat cs) (unat tsize)"
    using MPCreate_OK [OF cs total, of start mem] create by auto
  then have "mp.owns mp []" by (auto simp: mp.owns_def)
  from mp.pool_run_owns [OF this, of ops] obtain mp' held where
    run: "pool_run MPAllocateChunk MPFreeChunk ops mp [] = Inr (mp', held)"
    and owns: "mp.owns mp' held" and ch: "pool_chunks mp' = pool_chunks mp" by auto
  have held: "distinct held" "set held \<subseteq> pool_chunks mp"
    using owns ch by (auto simp: mp.owns_def)
  have card: "card (pool_chunks mp) = pool_slots (unat cs) (unat tsize)"
    using xs by (metis distinct_card pool_rel_def)
  have full: "set held = pool_chunks mp \<longleftrightarrow> length held = pool_slots (unat cs) (unat tsize)"
    using held card card_subset_eq [OF pool_chunks_finite held(2)] by (metis distinct_card)
  from mp.owns_alloc [OF owns] show ?thesis
  proof (elim disjE exE conjE)
    fix a p' assume a: "MPAllocateChunk mp' = Inr (Some a, p')" "a \<notin> set held"
      "mp.owns p' (a # held)" "pool_chunks p' = pool_chunks mp'"
    then have "a \<in> pool_chunks mp" using ch by (auto simp: mp.owns_def)
    with a(2) full have "length held \<noteq> pool_slots (unat cs) (unat tsize)" by auto
    with a run held \<open>a \<in> pool_chunks mp\<close> show ?thesis by auto
  qed (use run held full ch in auto)
qed

theorem pool_never_hands_out_twice_witness:
  "\<exists>mp mp' held. MPCreate True (Some 4096) (\<lambda>_. \<lparr> mc_free_chunks = 0, mc_next = None \<rparr>) 16 32 = Inr (Some mp) \<and>
    pool_run MPAllocateChunk MPFreeChunk [Alloc, Alloc, Free 0, Alloc] mp [] = Inr (mp', held) \<and>
    distinct held \<and> set held \<subseteq> pool_chunks mp"
proof -
  let ?mem = "\<lambda>_. \<lparr> mc_free_chunks = 0, mc_next = None \<rparr>"
  obtain mp where mp: "MPCreate True (Some 4096) ?mem 16 32 = Inr (Some mp)"
    using MPCreate_OK [of 16 32 4096 ?mem] by (auto simp: pool_slots_def)
  show ?thesis
    using pool_never_hands_out_twice [OF _ _ _ _ _ _ mp, of "[Alloc, Alloc, Free 0, Alloc]"] mp
    by (simp add: pool_slots_def) blast
qed

end
