(* ===== verification/Spans.thy ===== *)
theory Spans
  imports Main
begin

text \<open>
  Sets of byte positions as sorted lists of disjoint, non-adjacent, non-empty intervals: what the
  fragment list of the receive buffer stands for. \<open>span_add\<close> is the reference insertion of an
  interval; the lemmas show that it keeps the list normal and adds exactly the interval's
  positions.
\<close>

type_synonym span = "nat \<times> nat"   \<comment> \<open>first position, first position after\<close>

fun span_wf :: "nat \<Rightarrow> nat \<Rightarrow> span list \<Rightarrow> bool" where
  "span_wf lo hi [] \<longleftrightarrow> True"
| "span_wf lo hi ((s, e) # xs) \<longleftrightarrow> lo \<le> s \<and> s < e \<and> e \<le> hi \<and> span_wf (Suc e) hi xs"

fun covered :: "span list \<Rightarrow> nat set" where
  "covered [] = {}"
| "covered ((s, e) # xs) = {s..<e} \<union> covered xs"

fun span_add :: "nat \<Rightarrow> nat \<Rightarrow> span list \<Rightarrow> span list" where
  "span_add p q [] = [(p, q)]"
| "span_add p q ((s, e) # xs) =
    (if e < p then (s, e) # span_add p q xs
     else if q < s then (p, q) # (s, e) # xs
     else span_add (min p s) (max q e) xs)"

lemma span_wf_mono: "span_wf lo hi xs \<Longrightarrow> lo' \<le> lo \<Longrightarrow> hi \<le> hi' \<Longrightarrow> span_wf lo' hi' xs"
  by (induction lo hi xs arbitrary: lo' rule: span_wf.induct) auto

lemma span_wf_add:
  "span_wf lo hi xs \<Longrightarrow> lo \<le> p \<Longrightarrow> p < q \<Longrightarrow> q \<le> hi \<Longrightarrow> span_wf lo hi (span_add p q xs)"
proof (induction p q xs arbitrary: lo rule: span_add.induct)
  case (2 p q s e xs)
  show ?case
  proof (cases "e < p")
    case True
    with "2.prems" "2.IH"(1) [OF True, of "Suc e"] show ?thesis by auto
  next
    case False
    have wf: "span_wf lo hi xs" using "2.prems"(1) span_wf_mono [of "Suc e" hi xs lo hi] by simp
    show ?thesis
    proof (cases "q < s")
      case True
      with False "2.prems" show ?thesis by auto
    next
      case not_before: False
      have "span_wf lo hi (span_add (min p s) (max q e) xs)"
        using "2.prems" wf by (intro "2.IH"(2) False not_before) auto
      with False not_before show ?thesis by simp
    qed
  qed
qed auto

lemma covered_add: "span_wf lo hi xs \<Longrightarrow> p < q \<Longrightarrow> covered (span_add p q xs) = {p..<q} \<union> covered xs"
proof (induction p q xs arbitrary: lo rule: span_add.induct)
  case (2 p q s e xs)
  show ?case
  proof (cases "e < p")
    case True
    with "2.prems" "2.IH"(1) [OF True, of "Suc e"] show ?thesis by auto
  next
    case no: False
    show ?thesis
    proof (cases "q < s")
      case False
      have "covered (span_add (min p s) (max q e) xs) = {min p s..<max q e} \<union> covered xs"
        using "2.prems" by (intro "2.IH"(2) [OF no False, of "Suc e"]) auto
      moreover have "{min p s..<max q e} = {p..<q} \<union> {s..<e}"
        using no False "2.prems" by (auto simp: min_def max_def)
      ultimately show ?thesis using no False by auto
    qed (use no in auto)
  qed
qed auto

lemma covered_bounds: "span_wf lo hi xs \<Longrightarrow> i \<in> covered xs \<Longrightarrow> lo \<le> i \<and> i < hi"
  by (induction lo hi xs rule: span_wf.induct) force+

lemma span_wf_append:
  "span_wf lo hi (xs @ ys) \<longleftrightarrow>
    span_wf lo hi xs \<and> span_wf (if xs = [] then lo else Suc (snd (last xs))) hi ys"
  by (induction lo hi xs rule: span_wf.induct) auto

lemma covered_append [simp]: "covered (xs @ ys) = covered xs \<union> covered ys"
  by (induction xs rule: covered.induct) auto

text \<open>The length of the run of received positions from 0 on.\<close>

fun prefix_len :: "span list \<Rightarrow> nat" where
  "prefix_len [] = 0"
| "prefix_len ((s, e) # xs) = (if s = 0 then e else 0)"

lemma prefix_len_least_missing:
  "span_wf lo hi xs \<Longrightarrow> {..<prefix_len xs} \<subseteq> covered xs \<and> prefix_len xs \<notin> covered xs"
proof (cases xs)
  case (Cons x ys)
  assume wf: "span_wf lo hi xs"
  obtain s e where x: "x = (s, e)" by (cases x)
  have "span_wf (Suc e) hi ys" using wf Cons x by simp
  then have "e \<notin> covered ys" and "0 \<notin> covered ys" by (auto dest: covered_bounds)
  then show ?thesis using wf Cons x by auto
qed simp

text \<open>Dropping the first \<open>n\<close> positions, all received, and counting from there on.\<close>

fun span_drop :: "nat \<Rightarrow> span list \<Rightarrow> span list" where
  "span_drop n [] = []"
| "span_drop n ((s, e) # xs) =
    map (\<lambda>(s, e). (s - n, e - n)) (if n < e then (max s n, e) # xs else xs)"

lemma span_wf_shift: "span_wf lo hi xs \<Longrightarrow> n \<le> lo \<Longrightarrow> span_wf (lo - n) (hi - n) (map (\<lambda>(s, e). (s - n, e - n)) xs)"
proof (induction lo hi xs rule: span_wf.induct)
  case (2 lo hi s e xs)
  then have "span_wf (Suc e - n) (hi - n) (map (\<lambda>(s, e). (s - n, e - n)) xs)" by auto
  moreover have "Suc e - n = Suc (e - n)" using 2(2,3) by auto
  ultimately show ?case using 2(2,3) by auto
qed simp

lemma covered_shift: "span_wf lo hi xs \<Longrightarrow> n \<le> lo \<Longrightarrow>
    covered (map (\<lambda>(s, e). (s - n, e - n)) xs) = {i. i + n \<in> covered xs}"
proof (induction lo hi xs rule: span_wf.induct)
  case (2 lo hi s e xs)
  then have "n \<le> s" by simp
  then have "{s - n..<e - n} = {i. i + n \<in> {s..<e}}" by auto
  moreover have "covered (map (\<lambda>(s, e). (s - n, e - n)) xs) = {i. i + n \<in> covered xs}"
    using 2 by simp
  ultimately show ?case by (simp add: set_eq_iff)
qed simp

lemma span_add_not_Nil [simp]: "span_add p q xs \<noteq> []"
  by (induction p q xs rule: span_add.induct) auto

lemma prefix_len_mono:
  assumes "span_wf lo hi xs" "span_wf lo' hi' ys" "covered xs \<subseteq> covered ys"
  shows "prefix_len xs \<le> prefix_len ys"
proof (rule ccontr)
  assume "\<not> prefix_len xs \<le> prefix_len ys"
  then have "prefix_len ys \<in> covered xs"
    using prefix_len_least_missing [OF assms(1)] by auto
  with assms(3) prefix_len_least_missing [OF assms(2)] show False by auto
qed

lemma span_drop_props:
  assumes wf: "span_wf 0 hi xs" and n: "0 < n" "n \<le> prefix_len xs"
  shows "span_wf 0 (hi - n) (span_drop n xs)" and "covered (span_drop n xs) = {i. i + n \<in> covered xs}"
    and "prefix_len (span_drop n xs) = prefix_len xs - n"
proof -
  obtain e ys where xs: "xs = (0, e) # ys" and e: "n \<le> e" "prefix_len xs = e" "e \<le> hi"
    using wf n by (cases xs rule: prefix_len.cases) (auto split: if_splits)
  have ys: "span_wf (Suc e) hi ys" using wf xs by simp
  have sh: "span_wf (Suc e - n) (hi - n) (map (\<lambda>(s, e). (s - n, e - n)) ys)"
    using ys e by (intro span_wf_shift) auto
  have cov: "covered (map (\<lambda>(s, e). (s - n, e - n)) ys) = {i. i + n \<in> covered ys}"
    using covered_shift [OF ys, of n] e by simp
  have gap: "i + n \<notin> covered ys" if "i < Suc e - n" for i
    using that e covered_bounds [OF ys, of "i + n"] by auto
  show "span_wf 0 (hi - n) (span_drop n xs)"
    using sh xs e span_wf_mono [OF sh, of 0 "hi - n"] by (auto simp: Suc_diff_le)
  show "covered (span_drop n xs) = {i. i + n \<in> covered xs}"
    using cov gap xs e by (auto simp: set_eq_iff)
  have "prefix_len (map (\<lambda>(s, e). (s - n, e - n)) ys) = 0"
    using ys e by (cases ys rule: prefix_len.cases) auto
  then show "prefix_len (span_drop n xs) = prefix_len xs - n"
    using xs e n by auto
qed

end
