(* ===== verification/RingBuffer.thy ===== *)
theory RingBuffer
  imports SeqNum ClickQueue MemPool Spans
begin

text \<open>
  The receive buffer of \<^verbatim>\<open>tcp_ring_buffer.c\<close>: out-of-order segments are copied into a byte
  array at their distance from \<^verbatim>\<open>head_seq\<close>, a sorted list of fragments records what has
  arrived, and the application removes bytes from the front. The record and the operations follow
  the source field by field, with C's integer conversions; the list \<open>rb_fctx\<close> is the chain of
  \<^verbatim>\<open>fragment_ctx\<close> nodes from \<^verbatim>\<open>buff->fctx\<close> along \<^verbatim>\<open>next\<close>, each
  with its address. The main results: the operations never fail or leave the array, a put adds
  exactly the segment's range to the set of received positions, and the bytes handed to the
  application are a prefix of the sender's stream.
\<close>

section \<open>State\<close>

record fragment_ctx =
  fc_ptr :: addr
  fc_seq :: u32
  fc_len :: u32
  fc_is_calloc :: bool

record tcp_ring_buffer =
  rb_data_ptr :: addr
  rb_data :: "u8 list"
  rb_head :: nat
  rb_head_offset :: u32
  rb_tail_offset :: u32
  rb_merged_len :: u32
  rb_cum_len :: u64
  rb_last_len :: u32
  rb_size :: u32
  rb_head_seq :: u32
  rb_init_seq :: u32
  rb_fctx :: "fragment_ctx list"

record rb_manager =
  rbm_chunk_size :: u64
  rbm_cur_num :: u32
  rbm_cnum :: u32
  rbm_mp :: mem_pool
  rbm_frag_mp :: mem_pool
  rbm_free_fragq :: "addr click_queue"
  rbm_free_fragq_int :: "addr click_queue"

datatype rb_caller = AT_APP | AT_MTCP

definition RBGetCurnum :: "rb_manager \<Rightarrow> u32" where
  "RBGetCurnum rbm = rbm_cur_num rbm"

section \<open>Managers and fragments\<close>

definition sizeof_fragment_ctx :: nat where
  "sizeof_fragment_ctx = 16"

text \<open>The allocations of \<^verbatim>\<open>RBManagerCreate\<close>: its own, those of the two pools (the pool's
  \<^verbatim>\<open>calloc\<close>, its block and what the block holds) and of the two queues.\<close>

record rbm_env =
  env_rbm_ok :: bool
  env_mp :: "bool \<times> addr option \<times> (addr \<Rightarrow> mem_chunk)"
  env_frag_mp :: "bool \<times> addr option \<times> (addr \<Rightarrow> mem_chunk)"
  env_fragq :: "bool \<times> bool"
  env_fragq_int :: "bool \<times> bool"

definition RBManagerCreate :: "rbm_env \<Rightarrow> u64 \<Rightarrow> u32 \<Rightarrow> rb_manager option c_result" where
  "RBManagerCreate env chunk_size cnum =
    (let pool = (\<lambda>(ok, start, mem). MPCreate ok start mem) in
     if \<not> env_rbm_ok env then Inr None
     else case pool (env_mp env) (ucast chunk_size) (chunk_size * ucast cnum) of
       Inl e \<Rightarrow> Inl e | Inr None \<Rightarrow> Inr None
     | Inr (Some mp) \<Rightarrow>
       (case pool (env_frag_mp env) (of_nat sizeof_fragment_ctx)
               (of_nat sizeof_fragment_ctx * ucast cnum) of
          Inl e \<Rightarrow> Inl e | Inr None \<Rightarrow> Inr None
        | Inr (Some frag_mp) \<Rightarrow>
          (case CreateRBFragQueue (fst (env_fragq env)) (snd (env_fragq env)) cnum of
             None \<Rightarrow> Inr None
           | Some q \<Rightarrow>
             (case CreateRBFragQueue (fst (env_fragq_int env)) (snd (env_fragq_int env)) cnum of
                None \<Rightarrow> Inr None
              | Some q_int \<Rightarrow>
                Inr (Some \<lparr> rbm_chunk_size = chunk_size, rbm_cur_num = 0, rbm_cnum = cnum,
                  rbm_mp = mp, rbm_frag_mp = frag_mp,
                  rbm_free_fragq = q, rbm_free_fragq_int = q_int \<rparr>)))))"

text \<open>\<^verbatim>\<open>free\<close> of a \<^verbatim>\<open>calloc\<close>ed node changes nothing that is modelled.\<close>

definition FreeFragmentContextSingle :: "rb_manager \<Rightarrow> fragment_ctx \<Rightarrow> rb_manager c_result" where
  "FreeFragmentContextSingle rbm frag =
    (if fc_is_calloc frag then Inr rbm
     else case MPFreeChunk (rbm_frag_mp rbm) (fc_ptr frag) of
       Inl e \<Rightarrow> Inl e
     | Inr mp \<Rightarrow> Inr (rbm \<lparr> rbm_frag_mp := mp \<rparr>))"

fun free_fragments :: "rb_manager \<Rightarrow> fragment_ctx list \<Rightarrow> rb_manager c_result" where
  "free_fragments rbm [] = Inr rbm"
| "free_fragments rbm (f # fs) =
    (case FreeFragmentContextSingle rbm f of Inl e \<Rightarrow> Inl e | Inr rbm' \<Rightarrow> free_fragments rbm' fs)"

definition FreeFragmentContext :: "rb_manager \<Rightarrow> fragment_ctx list \<Rightarrow> rb_manager c_result" where
  "FreeFragmentContext rbm fctx = (if fctx = [] then Inl AssertFail else free_fragments rbm fctx)"

text \<open>\<open>calloc\<close> is the node \<^verbatim>\<open>calloc\<close> returns if it is called. The \<^verbatim>\<open>memset\<close> at the end
  clears every field, \<^verbatim>\<open>is_calloc\<close> included.\<close>

definition AllocateFragmentContext ::
    "addr option \<Rightarrow> rb_manager \<Rightarrow> (fragment_ctx \<times> rb_manager) c_result" where
  "AllocateFragmentContext calloc rbm =
    (let zeroed = (\<lambda>p. \<lparr> fc_ptr = p, fc_seq = 0, fc_len = 0, fc_is_calloc = False \<rparr>) in
     case RBFragDequeue (rbm_free_fragq rbm) of Inl e \<Rightarrow> Inl e
     | Inr (Some p, q) \<Rightarrow> Inr (zeroed p, rbm \<lparr> rbm_free_fragq := q \<rparr>)
     | Inr (None, q) \<Rightarrow>
       (case RBFragDequeue (rbm_free_fragq_int rbm) of Inl e \<Rightarrow> Inl e
        | Inr (Some p, q_int) \<Rightarrow> Inr (zeroed p, rbm \<lparr> rbm_free_fragq := q, rbm_free_fragq_int := q_int \<rparr>)
        | Inr (None, q_int) \<Rightarrow>
          (case MPAllocateChunk (rbm_frag_mp rbm) of Inl e \<Rightarrow> Inl e
           | Inr (Some p, mp) \<Rightarrow> Inr (zeroed p,
               rbm \<lparr> rbm_free_fragq := q, rbm_free_fragq_int := q_int, rbm_frag_mp := mp \<rparr>)
           | Inr (None, mp) \<Rightarrow>
             (case calloc of None \<Rightarrow> Inl ProcessExit
              | Some p \<Rightarrow> Inr (zeroed p,
                  rbm \<lparr> rbm_free_fragq := q, rbm_free_fragq_int := q_int, rbm_frag_mp := mp \<rparr>)))))"

section \<open>Buffers\<close>

text \<open>\<open>mem p\<close> is what the chunk at \<open>p\<close> holds when the pool hands it out.\<close>

definition RBInit :: "bool \<Rightarrow> (addr \<Rightarrow> u8 list) \<Rightarrow> rb_manager \<Rightarrow> u32 \<Rightarrow>
    (tcp_ring_buffer option \<times> rb_manager) c_result" where
  "RBInit calloc_ok mem rbm init_seq =
    (if \<not> calloc_ok then Inr (None, rbm)
     else case MPAllocateChunk (rbm_mp rbm) of Inl e \<Rightarrow> Inl e
     | Inr (None, mp) \<Rightarrow> Inr (None, rbm \<lparr> rbm_mp := mp \<rparr>)
     | Inr (Some p, mp) \<Rightarrow>
         Inr (Some \<lparr> rb_data_ptr = p, rb_data = mem p, rb_head = 0, rb_head_offset = 0,
                rb_tail_offset = 0, rb_merged_len = 0, rb_cum_len = 0, rb_last_len = 0,
                rb_size = ucast (rbm_chunk_size rbm), rb_head_seq = init_seq,
                rb_init_seq = init_seq, rb_fctx = [] \<rparr>,
              rbm \<lparr> rbm_mp := mp, rbm_cur_num := rbm_cur_num rbm + 1 \<rparr>))"

definition RBFree :: "rb_manager \<Rightarrow> tcp_ring_buffer \<Rightarrow> rb_manager c_result" where
  "RBFree rbm buff =
    (case (if rb_fctx buff \<noteq> [] then FreeFragmentContext rbm (rb_fctx buff) else Inr rbm) of
       Inl e \<Rightarrow> Inl e
     | Inr rbm1 \<Rightarrow>
       (case MPFreeChunk (rbm_mp rbm1) (rb_data_ptr buff) of
          Inl e \<Rightarrow> Inl e
        | Inr mp \<Rightarrow> Inr (rbm1 \<lparr> rbm_mp := mp, rbm_cur_num := rbm_cur_num rbm1 - 1 \<rparr>)))"

section \<open>Putting a segment\<close>

definition CanMerge :: "fragment_ctx \<Rightarrow> fragment_ctx \<Rightarrow> bool" where
  "CanMerge a b =
    (let a_end = fc_seq a + fc_len a + 1; b_end = fc_seq b + fc_len b + 1 in
     \<not> (GetMinSeq a_end (fc_seq b) = a_end \<or> GetMinSeq b_end (fc_seq a) = b_end))"

definition MergeFragments :: "fragment_ctx \<Rightarrow> fragment_ctx \<Rightarrow> fragment_ctx" where
  "MergeFragments a b =
    (let min_seq = GetMinSeq (fc_seq a) (fc_seq b);
         max_seq = GetMaxSeq (fc_seq a + fc_len a) (fc_seq b + fc_len b) in
     b \<lparr> fc_seq := min_seq, fc_len := bf31 (max_seq - min_seq) \<rparr>)"

text \<open>
  The loop over the fragments. \<open>seen\<close> is the chain before \<^verbatim>\<open>iter\<close>, so \<^verbatim>\<open>prev\<close> is its
  last element and \<^verbatim>\<open>pprev\<close> the one before; \<open>rest\<close> is the chain from \<^verbatim>\<open>iter\<close> on.
  Unlinking \<^verbatim>\<open>new_ctx\<close> when it is \<^verbatim>\<open>prev\<close> is \<open>butlast\<close>.
\<close>

fun rb_merge :: "rb_manager \<Rightarrow> u32 \<Rightarrow> u32 \<Rightarrow> fragment_ctx list \<Rightarrow> fragment_ctx \<Rightarrow> bool \<Rightarrow>
    fragment_ctx list \<Rightarrow> (rb_manager \<times> fragment_ctx list \<times> fragment_ctx \<times> bool \<times> fragment_ctx list) c_result" where
  "rb_merge rbm cur_seq len seen new_ctx merged [] = Inr (rbm, seen, new_ctx, merged, [])"
| "rb_merge rbm cur_seq len seen new_ctx merged (iter # rest) =
    (if CanMerge new_ctx iter then
       let iter' = MergeFragments new_ctx iter;
           seen' = (if seen \<noteq> [] \<and> fc_ptr (last seen) = fc_ptr new_ctx then butlast seen else seen) in
       (case FreeFragmentContextSingle rbm new_ctx of Inl e \<Rightarrow> Inl e
        | Inr rbm' \<Rightarrow> rb_merge rbm' cur_seq len (seen' @ [iter']) iter' True rest)
     else if merged \<or> GetMaxSeq (cur_seq + len) (fc_seq iter) = fc_seq iter
     then Inr (rbm, seen, new_ctx, merged, iter # rest)
     else rb_merge rbm cur_seq len (seen @ [iter]) new_ctx merged rest)"

text \<open>Linking a fragment that merged with none.\<close>

definition rb_link :: "u32 \<Rightarrow> fragment_ctx list \<Rightarrow> fragment_ctx \<Rightarrow> fragment_ctx list \<Rightarrow>
    fragment_ctx list c_result" where
  "rb_link cur_seq seen new_ctx rest =
    (case seen @ rest of
       [] \<Rightarrow> Inr [new_ctx]
     | first # _ \<Rightarrow>
       if GetMinSeq cur_seq (fc_seq first) = cur_seq then Inr (new_ctx # seen @ rest)
       else if seen = [] then Inl NullDeref
       else if GetMinSeq cur_seq (fc_seq (last seen) + fc_len (last seen)) =
               fc_seq (last seen) + fc_len (last seen)
       then Inr (seen @ new_ctx # rest)
       else Inl AssertFail)"

definition rb_add_fragment :: "addr option \<Rightarrow> rb_manager \<Rightarrow> u32 \<Rightarrow> u32 \<Rightarrow> fragment_ctx list \<Rightarrow>
    (rb_manager \<times> fragment_ctx list) c_result" where
  "rb_add_fragment calloc rbm cur_seq len fctx =
    (case AllocateFragmentContext calloc rbm of Inl e \<Rightarrow> Inl e
     | Inr (frag, rbm1) \<Rightarrow>
       let new_ctx = frag \<lparr> fc_seq := cur_seq, fc_len := bf31 len \<rparr> in
       case rb_merge rbm1 cur_seq len [] new_ctx False fctx of Inl e \<Rightarrow> Inl e
       | Inr (rbm2, seen, new', merged, rest) \<Rightarrow>
         (if merged then Inr (rbm2, seen @ rest)
          else case rb_link cur_seq seen new' rest of Inl e \<Rightarrow> Inl e
            | Inr fctx' \<Rightarrow> Inr (rbm2, fctx')))"

text \<open>A pointer plus a signed offset; below the array is an error.\<close>

definition copy_in :: "u8 list \<Rightarrow> nat \<Rightarrow> u32 \<Rightarrow> u8 list \<Rightarrow> u32 \<Rightarrow> u8 list c_result" where
  "copy_in buf head putx src len =
    (if int head + sint putx < 0 then Inl OutOfBounds
     else memcpy buf (nat (int head + sint putx)) src (unat len))"

text \<open>If the segment would reach the end of the array, the data moves to its start.\<close>

definition rb_make_room :: "tcp_ring_buffer \<Rightarrow> u32 \<Rightarrow> tcp_ring_buffer c_result" where
  "rb_make_room buff end_off =
    (if rb_size buff \<le> rb_head_offset buff + end_off
     then (case memmove (rb_data buff) 0 (rb_head buff) (size_of_int (rb_last_len buff)) of
             Inl e \<Rightarrow> Inl e
           | Inr d \<Rightarrow> Inr (buff \<lparr> rb_data := d,
               rb_tail_offset := rb_tail_offset buff - rb_head_offset buff,
               rb_head_offset := 0, rb_head := 0 \<rparr>))
     else Inr buff)"

text \<open>The segment's bytes go to their place and the tail follows.\<close>

definition rb_store :: "tcp_ring_buffer \<Rightarrow> u8 list \<Rightarrow> u32 \<Rightarrow> u32 \<Rightarrow> u32 \<Rightarrow> tcp_ring_buffer c_result" where
  "rb_store buff data len putx end_off =
    (case copy_in (rb_data buff) (rb_head buff) putx data len of Inl e \<Rightarrow> Inl e
     | Inr d \<Rightarrow>
       let tail = (if rb_tail_offset buff < rb_head_offset buff + end_off
                   then rb_head_offset buff + end_off else rb_tail_offset buff) in
       Inr (buff \<lparr> rb_data := d, rb_tail_offset := tail,
                   rb_last_len := tail - rb_head_offset buff \<rparr>))"

definition RBPut :: "addr option \<Rightarrow> rb_manager \<Rightarrow> tcp_ring_buffer \<Rightarrow> u8 list \<Rightarrow> u32 \<Rightarrow> u32 \<Rightarrow>
    (int \<times> rb_manager \<times> tcp_ring_buffer) c_result" where
  "RBPut calloc rbm buff data len cur_seq =
    (if len = 0 then Inr (0, rbm, buff)
     else if GetMinSeq (rb_head_seq buff) cur_seq \<noteq> rb_head_seq buff then Inr (0, rbm, buff)
     else
       let putx = cur_seq - rb_head_seq buff; end_off = putx + len in
       if sint (rb_size buff) < sint end_off then Inr (- 2, rbm, buff)
       else
       case rb_make_room buff end_off of Inl e \<Rightarrow> Inl e
       | Inr b1 \<Rightarrow>
       (case rb_store b1 data len putx end_off of Inl e \<Rightarrow> Inl e
        | Inr b2 \<Rightarrow>
          (case rb_add_fragment calloc rbm cur_seq len (rb_fctx b2) of Inl e \<Rightarrow> Inl e
           | Inr (rbm', fctx') \<Rightarrow>
             (case fctx' of [] \<Rightarrow> Inl NullDeref
              | first # _ \<Rightarrow>
                let b3 = b2 \<lparr> rb_fctx := fctx' \<rparr> in
                Inr (sint len, rbm',
                  if rb_head_seq b3 = fc_seq first
                  then b3 \<lparr> rb_cum_len := rb_cum_len b3 + scast (fc_len first - rb_merged_len b3),
                            rb_merged_len := fc_len first \<rparr>
                  else b3)))))"

section \<open>Removing bytes\<close>

definition RBRemove :: "rb_manager \<Rightarrow> tcp_ring_buffer \<Rightarrow> nat \<Rightarrow> rb_caller \<Rightarrow>
    (nat \<times> rb_manager \<times> tcp_ring_buffer) c_result" where
  "RBRemove rbm buff len0 option =
    (let len = (if size_of_int (rb_merged_len buff) < len0 then size_of_int (rb_merged_len buff) else len0) in
     if len = 0 then Inr (0, rbm, buff)
     else
       let b1 = buff \<lparr> rb_head_offset := rb_head_offset buff + of_nat len,
                       rb_head := unat (rb_head_offset buff + of_nat len),
                       rb_head_seq := rb_head_seq buff + of_nat len,
                       rb_merged_len := rb_merged_len buff - of_nat len,
                       rb_last_len := rb_last_len buff - of_nat len \<rparr> in
       case rb_fctx b1 of [] \<Rightarrow> Inl NullDeref
       | first # rest \<Rightarrow>
         if len = unat (fc_len first) then
           let b2 = b1 \<lparr> rb_fctx := rest \<rparr> in
           (case option of
              AT_APP \<Rightarrow>
                (case RBFragEnqueue (rbm_free_fragq rbm) (Some (fc_ptr first)) of Inl e \<Rightarrow> Inl e
                 | Inr (_, q) \<Rightarrow> Inr (len, rbm \<lparr> rbm_free_fragq := q \<rparr>, b2))
            | AT_MTCP \<Rightarrow>
                (case RBFragEnqueue (rbm_free_fragq_int rbm) (Some (fc_ptr first)) of Inl e \<Rightarrow> Inl e
                 | Inr (_, q) \<Rightarrow> Inr (len, rbm \<lparr> rbm_free_fragq_int := q \<rparr>, b2)))
         else if len < unat (fc_len first) then
           Inr (len, rbm, b1 \<lparr> rb_fctx := first \<lparr> fc_seq := fc_seq first + of_nat len,
                                   fc_len := bf31 (fc_len first - of_nat len) \<rparr> # rest \<rparr>)
         else Inl AssertFail)"

section \<open>Fragments as intervals\<close>

text \<open>Positions are distances from \<^verbatim>\<open>head_seq\<close>.\<close>

definition frag_span :: "u32 \<Rightarrow> fragment_ctx \<Rightarrow> span" where
  "frag_span h f = (unat (fc_seq f - h), unat (fc_seq f - h) + unat (fc_len f))"

definition frag_ok :: "u32 \<Rightarrow> nat \<Rightarrow> fragment_ctx \<Rightarrow> bool" where
  "frag_ok h n f \<longleftrightarrow> 0 < unat (fc_len f) \<and> snd (frag_span h f) \<le> n"

lemma CanMerge_iff:
  assumes "n < 2 ^ 31 - 1" "frag_ok h n a" "frag_ok h n b"
  shows "CanMerge a b \<longleftrightarrow>
    \<not> (snd (frag_span h a) < fst (frag_span h b) \<or> snd (frag_span h b) < fst (frag_span h a))"
proof -
  have end_dist: "unat (fc_seq f + fc_len f + 1 - h) = snd (frag_span h f) + 1" if "frag_ok h n f" for f
  proof -
    have le: "unat (fc_seq f - h) + unat (fc_len f) \<le> n" using that by (simp add: frag_ok_def frag_span_def)
    then have "unat (fc_seq f + fc_len f - h) = unat (fc_seq f - h) + unat (fc_len f)"
      using assms(1) by (intro dist_add) simp
    then show ?thesis using le assms(1) dist_add [of "fc_seq f + fc_len f" h 1] by (simp add: frag_span_def)
  qed
  have win: "snd (frag_span h f) + 1 < 2 ^ 31" "unat (fc_seq f - h) < 2 ^ 31" if "frag_ok h n f" for f
    using that assms(1) by (auto simp: frag_ok_def frag_span_def)
  have "GetMinSeq (fc_seq x + fc_len x + 1) (fc_seq y) = fc_seq x + fc_len x + 1 \<longleftrightarrow>
      snd (frag_span h x) < fst (frag_span h y)" if "frag_ok h n x" "frag_ok h n y" for x y
    using GetMinSeq_eq_left [of "fc_seq x + fc_len x + 1" h "fc_seq y"] win [OF that(1)] win [OF that(2)]
    by (simp only: end_dist [OF that(1)]) (simp add: frag_span_def less_eq_Suc_le)
  then show ?thesis using assms(2,3) by (simp add: CanMerge_def)
qed

lemma MergeFragments_span:
  assumes n: "n < 2 ^ 31 - 1" and a: "frag_ok h n a" and b: "frag_ok h n b"
  shows "frag_span h (MergeFragments a b) =
      (min (fst (frag_span h a)) (fst (frag_span h b)), max (snd (frag_span h a)) (snd (frag_span h b)))"
    and "frag_ok h n (MergeFragments a b)" and "fc_ptr (MergeFragments a b) = fc_ptr b"
    and "fc_is_calloc (MergeFragments a b) = fc_is_calloc b"
proof -
  let ?min = "GetMinSeq (fc_seq a) (fc_seq b)" and ?max = "GetMaxSeq (fc_seq a + fc_len a) (fc_seq b + fc_len b)"
  have ends: "unat (fc_seq f + fc_len f - h) = snd (frag_span h f)" if "frag_ok h n f" for f
    using that n by (simp add: frag_span_def frag_ok_def dist_add)
  have win: "snd (frag_span h f) < 2 ^ 31" "unat (fc_seq f - h) < 2 ^ 31" "snd (frag_span h f) \<le> n"
    if "frag_ok h n f" for f
    using that n by (auto simp: frag_ok_def frag_span_def)
  have mn: "unat (?min - h) = min (fst (frag_span h a)) (fst (frag_span h b))"
    using win(2) [OF a] win(2) [OF b] by (simp add: GetMinSeq_window [of _ h] frag_span_def min_def)
  have mx: "unat (?max - h) = max (snd (frag_span h a)) (snd (frag_span h b))"
    using win(1) [OF a] win(1) [OF b] ends [OF a] ends [OF b]
    by (simp add: GetMaxSeq_window [of _ h] max_def)
  have lt: "unat (?min - h) < unat (?max - h)"
    using a mn mx by (auto simp: frag_ok_def frag_span_def)
  have le: "unat (?max - h) \<le> n" using mx win(3) [OF a] win(3) [OF b] by simp
  have len: "unat (?max - ?min) = unat (?max - h) - unat (?min - h)"
    using lt by (intro unat_dist_shift) simp
  then have "unat (?max - ?min) < 2 ^ 31" using le n by linarith
  then have "bf31 (?max - ?min) = ?max - ?min" by (rule bf31_id)
  then have eq: "MergeFragments a b = b \<lparr> fc_seq := ?min, fc_len := ?max - ?min \<rparr>"
    by (simp add: MergeFragments_def Let_def)
  show span: "frag_span h (MergeFragments a b) =
      (min (fst (frag_span h a)) (fst (frag_span h b)), max (snd (frag_span h a)) (snd (frag_span h b)))"
    unfolding eq frag_span_def [of h "b \<lparr> fc_seq := ?min, fc_len := ?max - ?min \<rparr>"]
    using mn mx len lt by simp
  show "frag_ok h n (MergeFragments a b)"
    using span le mx len lt unfolding frag_ok_def by (simp add: eq)
  show "fc_ptr (MergeFragments a b) = fc_ptr b" "fc_is_calloc (MergeFragments a b) = fc_is_calloc b"
    by (simp_all add: eq)
qed


section \<open>Ownership of fragment nodes\<close>

text \<open>Every node of the pool is in one place: free in the pool, in one of the two free queues, or
  held in a buffer's list (\<open>held\<close>, over all buffers).\<close>

definition frag_own :: "rb_manager \<Rightarrow> addr set \<Rightarrow> bool" where
  "frag_own rbm held \<longleftrightarrow> (\<exists>xs. pool_rel (rbm_frag_mp rbm) xs \<and>
    click_inv (rbm_free_fragq rbm) \<and> click_inv (rbm_free_fragq_int rbm) \<and>
    distinct (xs @ click_content (rbm_free_fragq rbm) @ click_content (rbm_free_fragq_int rbm)) \<and>
    (set xs \<union> set (click_content (rbm_free_fragq rbm)) \<union> set (click_content (rbm_free_fragq_int rbm))) \<inter> held = {} \<and>
    set (click_content (rbm_free_fragq rbm)) \<union> set (click_content (rbm_free_fragq_int rbm)) \<union> held
      \<subseteq> pool_chunks (rbm_frag_mp rbm))"

text \<open>What an operation of the buffer may change in the manager.\<close>

definition rbm_frame :: "rb_manager \<Rightarrow> rb_manager \<Rightarrow> bool" where
  "rbm_frame rbm rbm' \<longleftrightarrow> rbm_mp rbm' = rbm_mp rbm \<and> rbm_chunk_size rbm' = rbm_chunk_size rbm \<and>
    rbm_cur_num rbm' = rbm_cur_num rbm \<and> rbm_cnum rbm' = rbm_cnum rbm"

lemma rbm_frame_refl [simp]: "rbm_frame rbm rbm"
  by (simp add: rbm_frame_def)

lemma rbm_frame_trans: "rbm_frame a b \<Longrightarrow> rbm_frame b c \<Longrightarrow> rbm_frame a c"
  by (simp add: rbm_frame_def)

definition frag_available :: "rb_manager \<Rightarrow> bool" where
  "frag_available rbm \<longleftrightarrow> click_content (rbm_free_fragq rbm) \<noteq> [] \<or>
    click_content (rbm_free_fragq_int rbm) \<noteq> [] \<or> mp_free_chunks (rbm_frag_mp rbm) \<noteq> 0"

lemma FreeFragmentContextSingle_OK:
  assumes own: "frag_own rbm held" and f: "fc_ptr f \<in> held" "\<not> fc_is_calloc f"
  shows "\<exists>rbm'. FreeFragmentContextSingle rbm f = Inr rbm' \<and> frag_own rbm' (held - {fc_ptr f}) \<and> rbm_frame rbm rbm'"
proof -
  obtain xs where xs: "pool_rel (rbm_frag_mp rbm) xs" "fc_ptr f \<notin> set xs" "fc_ptr f \<in> pool_chunks (rbm_frag_mp rbm)"
    and q: "fc_ptr f \<notin> set (click_content (rbm_free_fragq rbm))" "fc_ptr f \<notin> set (click_content (rbm_free_fragq_int rbm))"
    and own': "click_inv (rbm_free_fragq rbm)" "click_inv (rbm_free_fragq_int rbm)"
      "distinct (xs @ click_content (rbm_free_fragq rbm) @ click_content (rbm_free_fragq_int rbm))"
      "(set xs \<union> set (click_content (rbm_free_fragq rbm)) \<union> set (click_content (rbm_free_fragq_int rbm))) \<inter> held = {}"
      "set (click_content (rbm_free_fragq rbm)) \<union> set (click_content (rbm_free_fragq_int rbm)) \<union> held
      \<subseteq> pool_chunks (rbm_frag_mp rbm)"
    using own f unfolding frag_own_def by blast
  obtain mp' where mp': "MPFreeChunk (rbm_frag_mp rbm) (fc_ptr f) = Inr mp'" "pool_rel mp' (fc_ptr f # xs)"
      "pool_chunks mp' = pool_chunks (rbm_frag_mp rbm)"
    using pool_free_ok [OF xs(1,3,2)] by blast
  have "frag_own (rbm \<lparr> rbm_frag_mp := mp' \<rparr>) (held - {fc_ptr f})"
    unfolding frag_own_def using mp' own' q xs by (intro exI [of _ "fc_ptr f # xs"]) auto
  with mp' f show ?thesis by (simp add: FreeFragmentContextSingle_def rbm_frame_def)
qed

definition zeroed_at :: "addr \<Rightarrow> fragment_ctx" where
  "zeroed_at p = \<lparr> fc_ptr = p, fc_seq = 0, fc_len = 0, fc_is_calloc = False \<rparr>"

lemma AllocateFragmentContext_OK:
  assumes own: "frag_own rbm held" and av: "frag_available rbm"
  shows "\<exists>p rbm'. AllocateFragmentContext calloc rbm = Inr (zeroed_at p, rbm') \<and> p \<notin> held \<and>
    frag_own rbm' (insert p held) \<and> rbm_frame rbm rbm'"
proof -
  let ?q = "rbm_free_fragq rbm" and ?i = "rbm_free_fragq_int rbm" and ?mp = "rbm_frag_mp rbm"
  obtain xs where xs: "pool_rel ?mp xs" and inv: "click_inv ?q" "click_inv ?i"
    and d: "distinct (xs @ click_content ?q @ click_content ?i)"
    and disj: "(set xs \<union> set (click_content ?q) \<union> set (click_content ?i)) \<inter> held = {}"
    and sub: "set (click_content ?q) \<union> set (click_content ?i) \<union> held \<subseteq> pool_chunks ?mp"
    using own unfolding frag_own_def by blast
  have sub_xs: "set xs \<subseteq> pool_chunks ?mp" using xs by (simp add: pool_rel_def)
  show ?thesis
  proof (cases "click_content ?q")
    case (Cons p ys)
    then obtain q' where q': "RBFragDequeue ?q = Inr (Some p, q')" "click_inv q'" "click_content q' = ys"
      using click_dequeue_cons [OF inv(1) Cons] by (auto simp: RBFragDequeue_def)
    have "frag_own (rbm \<lparr> rbm_free_fragq := q' \<rparr>) (insert p held)"
      unfolding frag_own_def using xs inv d disj sub q' Cons by (intro exI [of _ xs]) auto
    then show ?thesis
      using q' disj Cons by (auto simp: AllocateFragmentContext_def Let_def rbm_frame_def zeroed_at_def)
  next
    case Nil
    then have dq: "RBFragDequeue ?q = Inr (None, ?q)"
      using click_dequeue_empty [OF inv(1) Nil] by (simp add: RBFragDequeue_def)
    show ?thesis
    proof (cases "click_content ?i")
      case (Cons p ys)
      then obtain q' where q': "RBFragDequeue ?i = Inr (Some p, q')" "click_inv q'" "click_content q' = ys"
        using click_dequeue_cons [OF inv(2) Cons] by (auto simp: RBFragDequeue_def)
      have "frag_own (rbm \<lparr> rbm_free_fragq := ?q, rbm_free_fragq_int := q' \<rparr>) (insert p held)"
        unfolding frag_own_def using xs inv d disj sub q' Cons Nil by (intro exI [of _ xs]) auto
      then show ?thesis
        using q' dq disj Cons by (auto simp: AllocateFragmentContext_def Let_def rbm_frame_def zeroed_at_def)
    next
      case nil_i: Nil
      then have di: "RBFragDequeue ?i = Inr (None, ?i)"
        using click_dequeue_empty [OF inv(2) nil_i] by (simp add: RBFragDequeue_def)
      obtain p ys where ys: "xs = p # ys"
        using av Nil nil_i xs by (cases xs) (auto simp: frag_available_def pool_rel_def unat_eq_zero)
      then obtain mp' where mp': "MPAllocateChunk ?mp = Inr (Some p, mp')" "pool_rel mp' ys"
          "pool_chunks mp' = pool_chunks ?mp"
        using pool_alloc_some xs by blast
      have "frag_own (rbm \<lparr> rbm_free_fragq := ?q, rbm_free_fragq_int := ?i, rbm_frag_mp := mp' \<rparr>) (insert p held)"
        unfolding frag_own_def using mp' inv d disj sub sub_xs Nil nil_i ys by (intro exI [of _ ys]) auto
      then show ?thesis
        using mp' dq di disj ys by (auto simp: AllocateFragmentContext_def Let_def rbm_frame_def zeroed_at_def)
    qed
  qed
qed


section \<open>The merge loop\<close>

definition frags_ok :: "u32 \<Rightarrow> nat \<Rightarrow> fragment_ctx list \<Rightarrow> bool" where
  "frags_ok h n fs \<longleftrightarrow> (\<forall>f\<in>set fs. frag_ok h n f \<and> \<not> fc_is_calloc f) \<and> distinct (map fc_ptr fs)"

lemma frags_ok_Cons:
  "frags_ok h n (f # fs) \<longleftrightarrow>
    frag_ok h n f \<and> \<not> fc_is_calloc f \<and> fc_ptr f \<notin> fc_ptr ` set fs \<and> frags_ok h n fs"
  by (auto simp: frags_ok_def)

lemma frags_ok_append:
  "frags_ok h n (xs @ ys) \<longleftrightarrow>
    frags_ok h n xs \<and> frags_ok h n ys \<and> fc_ptr ` set xs \<inter> fc_ptr ` set ys = {}"
  by (auto simp: frags_ok_def)

text \<open>What the loop must deliver: no failure, the list of intervals \<open>spans\<close>, and the nodes that
  are still linked (with \<open>others\<close>) as the held ones.\<close>

definition merge_post :: "u32 \<Rightarrow> nat \<Rightarrow> addr set \<Rightarrow> span list \<Rightarrow> rb_manager \<Rightarrow> fragment_ctx list \<Rightarrow> rb_manager \<Rightarrow> bool" where
  "merge_post h n others spans rbm fs rbm' \<longleftrightarrow>
    frags_ok h n fs \<and> map (frag_span h) fs = spans \<and> others \<inter> fc_ptr ` set fs = {} \<and>
    frag_own rbm' (others \<union> fc_ptr ` set fs) \<and> rbm_frame rbm rbm'"

lemma merge_step:
  assumes n: "n < 2 ^ 31 - 1" and ok: "frags_ok h n (seen @ new # iter # rest)"
    and disj: "others \<inter> fc_ptr ` set (seen @ new # iter # rest) = {}"
    and own: "frag_own rbm (others \<union> fc_ptr ` set (seen @ new # iter # rest))"
  shows "\<exists>rbm'. FreeFragmentContextSingle rbm new = Inr rbm' \<and> rbm_frame rbm rbm' \<and>
    frags_ok h n (seen @ MergeFragments new iter # rest) \<and>
    others \<inter> fc_ptr ` set (seen @ MergeFragments new iter # rest) = {} \<and>
    frag_own rbm' (others \<union> fc_ptr ` set (seen @ MergeFragments new iter # rest))"
proof -
  have new: "frag_ok h n new" and it: "frag_ok h n iter"
    and c: "\<not> fc_is_calloc new" "\<not> fc_is_calloc iter"
    using ok by (simp_all add: frags_ok_append frags_ok_Cons)
  note m = MergeFragments_span [OF n new it]
  have "frags_ok h n (seen @ MergeFragments new iter # rest)"
    using ok c m by (auto simp: frags_ok_append frags_ok_Cons)
  moreover have "others \<inter> fc_ptr ` set (seen @ MergeFragments new iter # rest) = {}"
    using disj m by auto
  moreover obtain rbm' where "FreeFragmentContextSingle rbm new = Inr rbm'"
      "frag_own rbm' ((others \<union> fc_ptr ` set (seen @ new # iter # rest)) - {fc_ptr new})" "rbm_frame rbm rbm'"
    using FreeFragmentContextSingle_OK [OF own, of new] c by auto
  moreover have "(others \<union> fc_ptr ` set (seen @ new # iter # rest)) - {fc_ptr new} =
      others \<union> fc_ptr ` set (seen @ MergeFragments new iter # rest)"
    using ok disj m(3) by (auto simp: frags_ok_append frags_ok_Cons)
  ultimately show ?thesis by auto
qed

lemma rb_merge_merged:
  assumes n: "n < 2 ^ 31 - 1"
  shows "frags_ok h n (seen @ new # rest) \<Longrightarrow> others \<inter> fc_ptr ` set (seen @ new # rest) = {} \<Longrightarrow>
    frag_own rbm (others \<union> fc_ptr ` set (seen @ new # rest)) \<Longrightarrow>
    span_wf lo n (map (frag_span h) rest) \<Longrightarrow> fst (frag_span h new) \<le> lo \<Longrightarrow>
    \<exists>rbm' seen' new' rest'. rb_merge rbm cur_seq len (seen @ [new]) new True rest = Inr (rbm', seen', new', True, rest') \<and>
      merge_post h n others
        (map (frag_span h) seen @ span_add (fst (frag_span h new)) (snd (frag_span h new)) (map (frag_span h) rest))
        rbm (seen' @ rest') rbm'"
proof (induction rest arbitrary: rbm new lo)
  case Nil
  then show ?case by (auto simp: merge_post_def)
next
  case (Cons iter rest)
  obtain s e where iter: "frag_span h iter = (s, e)" by (cases "frag_span h iter")
  obtain p q where new: "frag_span h new = (p, q)" by (cases "frag_span h new")
  have ok: "frag_ok h n new" "frag_ok h n iter" using Cons.prems(1) by (simp_all add: frags_ok_append frags_ok_Cons)
  have merge: "CanMerge new iter \<longleftrightarrow> \<not> q < s"
    using CanMerge_iff [OF n ok] Cons.prems(4,5) iter new by auto
  have not_before: "\<not> e < p" using Cons.prems(4,5) iter new by simp
  show ?case
  proof (cases "CanMerge new iter")
    case False
    with Cons.prems merge not_before iter new show ?thesis by (auto simp: merge_post_def insert_commute)
  next
    case True
    let ?m = "MergeFragments new iter"
    obtain rbm1 where free: "FreeFragmentContextSingle rbm new = Inr rbm1" "rbm_frame rbm rbm1"
      and nxt: "frags_ok h n (seen @ ?m # rest)" "others \<inter> fc_ptr ` set (seen @ ?m # rest) = {}"
        "frag_own rbm1 (others \<union> fc_ptr ` set (seen @ ?m # rest))"
      using merge_step [OF n Cons.prems(1,2,3)] by blast
    have span: "frag_span h ?m = (min p s, max q e)"
      using MergeFragments_span(1) [OF n ok] iter new by simp
    have wf: "span_wf (Suc e) n (map (frag_span h) rest)" "s < e" using Cons.prems(4) iter by simp_all
    have "fst (frag_span h ?m) \<le> Suc e" using span wf(2) by simp
    from Cons.IH [OF nxt wf(1) this] obtain rbm' seen' new' rest' where
      run: "rb_merge rbm1 cur_seq len (seen @ [?m]) ?m True rest = Inr (rbm', seen', new', True, rest')"
      and post: "merge_post h n others (map (frag_span h) seen @ span_add (min p s) (max q e) (map (frag_span h) rest))
        rbm1 (seen' @ rest') rbm'" unfolding span fst_conv snd_conv by blast
    have "rb_merge rbm cur_seq len (seen @ [new]) new True (iter # rest) = Inr (rbm', seen', new', True, rest')"
      using True free(1) run by simp
    moreover have "span_add p q (map (frag_span h) (iter # rest)) = span_add (min p s) (max q e) (map (frag_span h) rest)"
      using True merge not_before iter by simp
    ultimately show ?thesis
      using post free(2) new by (auto simp: merge_post_def intro: rbm_frame_trans)
  qed
qed

lemma rb_merge_unmerged:
  assumes n: "n < 2 ^ 31 - 1" and e_new: "unat (cur_seq + len - h) = snd (frag_span h new)"
  shows "frags_ok h n (seen @ new # rest) \<Longrightarrow> others \<inter> fc_ptr ` set (seen @ new # rest) = {} \<Longrightarrow>
    frag_own rbm (others \<union> fc_ptr ` set (seen @ new # rest)) \<Longrightarrow>
    span_wf lo n (map (frag_span h) rest) \<Longrightarrow>
    \<forall>f\<in>set seen. snd (frag_span h f) < fst (frag_span h new) \<Longrightarrow>
    \<exists>rbm' seen' new' merged rest'. rb_merge rbm cur_seq len seen new False rest = Inr (rbm', seen', new', merged, rest') \<and>
      (if merged then
        merge_post h n others
          (map (frag_span h) seen @ span_add (fst (frag_span h new)) (snd (frag_span h new)) (map (frag_span h) rest))
          rbm (seen' @ rest') rbm'
       else new' = new \<and>
        merge_post h n others
          (map (frag_span h) seen @ span_add (fst (frag_span h new)) (snd (frag_span h new)) (map (frag_span h) rest))
          rbm (seen' @ new # rest') rbm' \<and>
        (\<forall>f\<in>set seen'. snd (frag_span h f) < fst (frag_span h new)) \<and>
        (rest' \<noteq> [] \<longrightarrow> snd (frag_span h new) < fst (frag_span h (hd rest'))))"
proof (induction rest arbitrary: rbm seen lo)
  case Nil
  then show ?case by (auto simp: merge_post_def)
next
  case (Cons iter rest)
  obtain s e where iter: "frag_span h iter = (s, e)" by (cases "frag_span h iter")
  obtain p q where new: "frag_span h new = (p, q)" by (cases "frag_span h new")
  have ok: "frag_ok h n new" "frag_ok h n iter" using Cons.prems(1) by (simp_all add: frags_ok_append frags_ok_Cons)
  have pq: "p < q" "q \<le> n" "s < e" "e \<le> n" using ok iter new by (auto simp: frag_ok_def frag_span_def)
  have s: "unat (fc_seq iter - h) = s" using iter by (simp add: frag_span_def)
  have merge: "CanMerge new iter \<longleftrightarrow> \<not> (q < s \<or> e < p)"
    using CanMerge_iff [OF n ok] iter new by simp
  have stop: "GetMaxSeq (cur_seq + len) (fc_seq iter) = fc_seq iter \<longleftrightarrow> q \<le> s"
    using GetMaxSeq_eq_right [of "cur_seq + len" h "fc_seq iter"] e_new new s pq n by simp
  have wf: "span_wf (Suc e) n (map (frag_span h) rest)" using Cons.prems(4) iter by simp
  consider "q < s" | "e < p" | "CanMerge new iter" using merge by blast
  then show ?case
  proof cases
    case 1
    with Cons.prems merge stop iter new show ?thesis
      by (intro exI [of _ rbm] exI [of _ seen] exI [of _ new] exI [of _ False] exI [of _ "iter # rest"])
        (use pq in \<open>auto simp: merge_post_def\<close>)
  next
    case 2
    have run: "rb_merge rbm cur_seq len seen new False (iter # rest) = rb_merge rbm cur_seq len (seen @ [iter]) new False rest"
      using 2 merge stop pq by simp
    have lst: "map (frag_span h) (seen @ [iter]) @
        span_add (fst (frag_span h new)) (snd (frag_span h new)) (map (frag_span h) rest) =
      map (frag_span h) seen @
        span_add (fst (frag_span h new)) (snd (frag_span h new)) (map (frag_span h) (iter # rest))"
      using 2 iter new by simp
    have same: "set ((seen @ [iter]) @ new # rest) = set (seen @ new # iter # rest)" by auto
    have "frags_ok h n ((seen @ [iter]) @ new # rest)"
      using Cons.prems(1) by (auto simp: frags_ok_append frags_ok_Cons)
    from Cons.IH [OF this Cons.prems(2,3) [folded same] wf]
    show ?thesis unfolding run lst using Cons.prems(5) 2 iter new by simp
  next
    case 3
    let ?m = "MergeFragments new iter"
    obtain rbm1 where free: "FreeFragmentContextSingle rbm new = Inr rbm1" "rbm_frame rbm rbm1"
      and nxt: "frags_ok h n (seen @ ?m # rest)" "others \<inter> fc_ptr ` set (seen @ ?m # rest) = {}"
        "frag_own rbm1 (others \<union> fc_ptr ` set (seen @ ?m # rest))"
      using merge_step [OF n Cons.prems(1,2,3)] by blast
    have span: "frag_span h ?m = (min p s, max q e)"
      using MergeFragments_span(1) [OF n ok] iter new by simp
    have "fst (frag_span h ?m) \<le> Suc e" using span pq by simp
    from rb_merge_merged [OF n nxt wf this, of cur_seq len] obtain rbm' seen' new' rest' where
      run: "rb_merge rbm1 cur_seq len (seen @ [?m]) ?m True rest = Inr (rbm', seen', new', True, rest')"
      and post: "merge_post h n others (map (frag_span h) seen @ span_add (min p s) (max q e) (map (frag_span h) rest))
        rbm1 (seen' @ rest') rbm'" unfolding span fst_conv snd_conv by blast
    have "fc_ptr new \<notin> fc_ptr ` set seen" using Cons.prems(1) by (simp add: frags_ok_append)
    then have "seen \<noteq> [] \<Longrightarrow> fc_ptr (last seen) \<noteq> fc_ptr new" by (metis imageI last_in_set)
    then have "rb_merge rbm cur_seq len seen new False (iter # rest) = Inr (rbm', seen', new', True, rest')"
      using 3 free(1) run by auto
    moreover have "span_add p q (map (frag_span h) (iter # rest)) = span_add (min p s) (max q e) (map (frag_span h) rest)"
      using 3 merge iter by simp
    ultimately show ?thesis
      using post free(2) new by (auto simp: merge_post_def intro: rbm_frame_trans)
  qed
qed


lemma frag_ok_window:
  assumes "n < 2 ^ 31 - 1" "frag_ok h n f"
  shows "unat (fc_seq f - h) < 2 ^ 31" and "fst (frag_span h f) = unat (fc_seq f - h)"
    and "unat (fc_seq f + fc_len f - h) = snd (frag_span h f)" and "snd (frag_span h f) < 2 ^ 31"
    and "fst (frag_span h f) < snd (frag_span h f)"
  using assms by (auto simp: frag_ok_def frag_span_def dist_add)

lemma rb_link_OK:
  assumes n: "n < 2 ^ 31 - 1" and ok: "frags_ok h n (seen @ new # rest)" and cur: "fc_seq new = cur_seq"
    and before: "\<forall>f\<in>set seen. snd (frag_span h f) < fst (frag_span h new)"
    and after: "rest \<noteq> [] \<longrightarrow> snd (frag_span h new) < fst (frag_span h (hd rest))"
  shows "rb_link cur_seq seen new rest = Inr (seen @ new # rest)"
proof -
  have "frag_ok h n f" if "f \<in> set (seen @ new # rest)" for f
    using that ok by (simp only: frags_ok_def)
  note win = frag_ok_window [OF n this]
  have cur_win: "unat (cur_seq - h) < 2 ^ 31" "fst (frag_span h new) = unat (cur_seq - h)"
    using win [of new] cur by auto
  show ?thesis
  proof (cases seen)
    case Nil
    show ?thesis
    proof (cases rest)
      case (Cons r rs)
      with after win [of new] win [of r] cur cur_win have "GetMinSeq cur_seq (fc_seq r) = cur_seq"
        by (subst GetMinSeq_eq_left [where base = h]) auto
      with Nil Cons show ?thesis by (simp add: rb_link_def)
    qed (use Nil in \<open>simp add: rb_link_def\<close>)
  next
    case (Cons f fs)
    have l: "last seen \<in> set (seen @ new # rest)" "last seen \<in> set seen" using Cons by simp_all
    have "GetMinSeq cur_seq (fc_seq f) \<noteq> cur_seq"
      using before Cons win [of f] cur_win by (subst GetMinSeq_eq_left [where base = h]) auto
    moreover have "GetMinSeq cur_seq (fc_seq (last seen) + fc_len (last seen)) = fc_seq (last seen) + fc_len (last seen)"
      using win [OF l(1)] bspec [OF before l(2)] cur_win by (subst GetMinSeq_eq_right [where base = h]) auto
    ultimately show ?thesis using Cons by (simp add: rb_link_def)
  qed
qed

lemma rb_add_fragment_OK:
  assumes n: "n < 2 ^ 31 - 1" and len: "0 < unat len" "unat (cur_seq - h) + unat len \<le> n"
    and ok: "frags_ok h n fs" "span_wf 0 n (map (frag_span h) fs)" "others \<inter> fc_ptr ` set fs = {}"
    and own: "frag_own rbm (others \<union> fc_ptr ` set fs)" and av: "frag_available rbm"
  shows "\<exists>rbm' fs'. rb_add_fragment calloc rbm cur_seq len fs = Inr (rbm', fs') \<and>
    merge_post h n others (span_add (unat (cur_seq - h)) (unat (cur_seq - h) + unat len) (map (frag_span h) fs))
      rbm fs' rbm'"
proof -
  obtain p rbm1 where alloc: "AllocateFragmentContext calloc rbm = Inr (zeroed_at p, rbm1)"
    and p: "p \<notin> others \<union> fc_ptr ` set fs" and own1: "frag_own rbm1 (insert p (others \<union> fc_ptr ` set fs))"
    and fr: "rbm_frame rbm rbm1"
    using AllocateFragmentContext_OK [OF own av] by blast
  let ?new = "(zeroed_at p) \<lparr> fc_seq := cur_seq, fc_len := bf31 len \<rparr>"
  have l: "bf31 len = len" using len n by (intro bf31_id) simp
  have span: "frag_span h ?new = (unat (cur_seq - h), unat (cur_seq - h) + unat len)"
    by (simp add: frag_span_def l)
  have e: "unat (cur_seq + len - h) = snd (frag_span h ?new)"
    unfolding span snd_conv using len n by (intro dist_add) simp
  have ok': "frags_ok h n ([] @ ?new # fs)"
    using ok(1) p len by (auto simp: frags_ok_Cons frag_ok_def frag_span_def l zeroed_at_def)
  have ptrs: "fc_ptr ` set ([] @ ?new # fs) = insert p (fc_ptr ` set fs)" by (simp add: zeroed_at_def)
  have d: "others \<inter> fc_ptr ` set ([] @ ?new # fs) = {}" using ok(3) p unfolding ptrs by auto
  have o: "frag_own rbm1 (others \<union> fc_ptr ` set ([] @ ?new # fs))" using own1 unfolding ptrs by simp
  obtain rbm' seen' new' merged rest' where
    run: "rb_merge rbm1 cur_seq len [] ?new False fs = Inr (rbm', seen', new', merged, rest')"
    and post: "if merged then merge_post h n others (span_add (unat (cur_seq - h)) (unat (cur_seq - h) + unat len) (map (frag_span h) fs))
          rbm1 (seen' @ rest') rbm'
       else new' = ?new \<and> merge_post h n others (span_add (unat (cur_seq - h)) (unat (cur_seq - h) + unat len) (map (frag_span h) fs))
          rbm1 (seen' @ ?new # rest') rbm' \<and>
        (\<forall>f\<in>set seen'. snd (frag_span h f) < fst (frag_span h ?new)) \<and>
        (rest' \<noteq> [] \<longrightarrow> snd (frag_span h ?new) < fst (frag_span h (hd rest')))"
    using rb_merge_unmerged [OF n e ok' d o ok(2)] unfolding span fst_conv snd_conv list.map(1) append_Nil
    by auto
  show ?thesis
  proof (cases merged)
    case True
    with post fr have "merge_post h n others (span_add (unat (cur_seq - h)) (unat (cur_seq - h) + unat len) (map (frag_span h) fs))
        rbm (seen' @ rest') rbm'" by (auto simp: merge_post_def intro: rbm_frame_trans)
    with True alloc run show ?thesis by (simp add: rb_add_fragment_def Let_def)
  next
    case False
    then have post': "new' = ?new" "merge_post h n others (span_add (unat (cur_seq - h)) (unat (cur_seq - h) + unat len) (map (frag_span h) fs))
          rbm1 (seen' @ ?new # rest') rbm'"
      "\<forall>f\<in>set seen'. snd (frag_span h f) < fst (frag_span h ?new)"
      "rest' \<noteq> [] \<longrightarrow> snd (frag_span h ?new) < fst (frag_span h (hd rest'))"
      using post by simp_all
    then have "rb_link cur_seq seen' ?new rest' = Inr (seen' @ ?new # rest')"
      by (intro rb_link_OK [OF n]) (auto simp: merge_post_def)
    moreover have "merge_post h n others (span_add (unat (cur_seq - h)) (unat (cur_seq - h) + unat len) (map (frag_span h) fs))
        rbm (seen' @ ?new # rest') rbm'"
      using post'(2) fr by (auto simp: merge_post_def intro: rbm_frame_trans)
    ultimately show ?thesis using False post'(1) alloc run by (simp add: rb_add_fragment_def Let_def)
  qed
qed


section \<open>The buffer's invariant\<close>

definition rb_spans :: "tcp_ring_buffer \<Rightarrow> span list" where
  "rb_spans b = map (frag_span (rb_head_seq b)) (rb_fctx b)"

definition rb_inv :: "tcp_ring_buffer \<Rightarrow> bool" where
  "rb_inv b \<longleftrightarrow>
    unat (rb_size b) < 2 ^ 31 - 1 \<and> length (rb_data b) = unat (rb_size b) \<and>
    rb_head b = unat (rb_head_offset b) \<and>
    unat (rb_tail_offset b) = unat (rb_head_offset b) + unat (rb_last_len b) \<and>
    unat (rb_tail_offset b) \<le> unat (rb_size b) \<and>
    frags_ok (rb_head_seq b) (unat (rb_last_len b)) (rb_fctx b) \<and>
    span_wf 0 (unat (rb_last_len b)) (rb_spans b) \<and>
    unat (rb_merged_len b) = prefix_len (rb_spans b)"

text \<open>The positions received and the byte at a position.\<close>

definition rb_covered :: "tcp_ring_buffer \<Rightarrow> nat set" where
  "rb_covered b = covered (rb_spans b)"

definition rb_byte :: "tcp_ring_buffer \<Rightarrow> nat \<Rightarrow> u8" where
  "rb_byte b i = rb_data b ! (rb_head b + i)"

lemma frags_ok_mono: "frags_ok h n fs \<Longrightarrow> n \<le> m \<Longrightarrow> frags_ok h m fs"
  by (auto simp: frags_ok_def frag_ok_def)

lemma rb_make_room_OK:
  assumes inv: "rb_inv b" and e: "unat end_off \<le> unat (rb_size b)"
  shows "\<exists>d hd ho t. rb_make_room b end_off = Inr (b \<lparr> rb_data := d, rb_tail_offset := t, rb_head_offset := ho, rb_head := hd \<rparr>) \<and>
    length d = unat (rb_size b) \<and> hd = unat ho \<and> unat t = unat ho + unat (rb_last_len b) \<and>
    unat t \<le> unat (rb_size b) \<and> unat ho + unat end_off \<le> unat (rb_size b) \<and>
    (\<forall>i<unat (rb_last_len b). d ! (hd + i) = rb_byte b i)"
proof -
  have sz: "unat (rb_size b) < 2 ^ 31 - 1" "length (rb_data b) = unat (rb_size b)"
    and hd: "rb_head b = unat (rb_head_offset b)"
    and tl: "unat (rb_tail_offset b) = unat (rb_head_offset b) + unat (rb_last_len b)" "unat (rb_tail_offset b) \<le> unat (rb_size b)"
    using inv by (auto simp: rb_inv_def)
  have sum: "unat (rb_head_offset b + end_off) = unat (rb_head_offset b) + unat end_off"
    using e sz tl by (intro unat_add_small) simp
  show ?thesis
  proof (cases "rb_size b \<le> rb_head_offset b + end_off")
    case True
    have ll: "size_of_int (rb_last_len b) = unat (rb_last_len b)"
      using tl sz by (intro size_of_int_nonneg) linarith
    obtain d where d: "memmove (rb_data b) 0 (rb_head b) (unat (rb_last_len b)) = Inr d"
      using tl sz hd by (simp add: memmove_def)
    have "unat (rb_tail_offset b - rb_head_offset b) = unat (rb_last_len b)"
      using tl by (simp add: unat_sub word_le_nat_alt)
    moreover have "\<forall>i<unat (rb_last_len b). d ! i = rb_byte b i"
      using memmove_nth [OF d] tl sz by (simp add: rb_byte_def)
    ultimately show ?thesis
      using True d ll memmove_length [OF d] sz tl e
      by (intro exI [of _ d] exI [of _ 0] exI [of _ "rb_tail_offset b - rb_head_offset b"]) (simp add: rb_make_room_def)
  next
    case False
    then have "unat (rb_head_offset b) + unat end_off < unat (rb_size b)"
      using sum by (simp add: word_le_nat_alt)
    with False sz hd tl show ?thesis
      by (intro exI [of _ "rb_data b"] exI [of _ "rb_head b"] exI [of _ "rb_head_offset b"] exI [of _ "rb_tail_offset b"])
        (simp add: rb_make_room_def rb_byte_def)
  qed
qed

lemma rb_store_OK:
  assumes d: "length (rb_data b) = unat (rb_size b)" "unat (rb_size b) < 2 ^ 31 - 1" "rb_head b = unat (rb_head_offset b)"
      "unat (rb_tail_offset b) = unat (rb_head_offset b) + unat (rb_last_len b)" "unat (rb_tail_offset b) \<le> unat (rb_size b)"
    and e: "unat end_off = unat putx + unat len" "unat (rb_head_offset b) + unat end_off \<le> unat (rb_size b)"
    and src: "unat len \<le> length data"
  shows "\<exists>dat t ll. rb_store b data len putx end_off = Inr (b \<lparr> rb_data := dat, rb_tail_offset := t, rb_last_len := ll \<rparr>) \<and>
    length dat = unat (rb_size b) \<and> unat ll = max (unat (rb_last_len b)) (unat end_off) \<and>
    unat t = unat (rb_head_offset b) + unat ll \<and> unat t \<le> unat (rb_size b) \<and>
    (\<forall>i. i < unat ll \<longrightarrow> dat ! (rb_head b + i) =
      (if unat putx \<le> i \<and> i < unat end_off then data ! (i - unat putx) else rb_byte b i))"
proof -
  have px: "unat putx < 2 ^ 31" using e d(2) by linarith
  have off: "nat (int (rb_head b) + sint putx) = rb_head b + unat putx" "\<not> int (rb_head b) + sint putx < 0"
    unfolding sint_nonneg_eq [OF px] by (simp_all add: nat_int_add del: of_nat_unat)
  obtain dat where dat: "memcpy (rb_data b) (rb_head b + unat putx) data (unat len) = Inr dat"
    using e d src by (simp add: memcpy_def)
  have sum: "unat (rb_head_offset b + end_off) = unat (rb_head_offset b) + unat end_off"
    using e d by (intro unat_add_small) simp
  define t where "t = (if rb_tail_offset b < rb_head_offset b + end_off then rb_head_offset b + end_off else rb_tail_offset b)"
  have t: "unat t = unat (rb_head_offset b) + max (unat (rb_last_len b)) (unat end_off)"
    using sum d(4) by (auto simp: t_def word_less_nat_alt max_def)
  then have ll: "unat (t - rb_head_offset b) = max (unat (rb_last_len b)) (unat end_off)"
    by (simp add: unat_sub word_le_nat_alt)
  have nth: "dat ! (rb_head b + i) = (if unat putx \<le> i \<and> i < unat end_off then data ! (i - unat putx) else rb_byte b i)"
    if "i < max (unat (rb_last_len b)) (unat end_off)" for i
    using memcpy_nth [OF dat, of "rb_head b + i"] that e d by (auto simp: rb_byte_def max_def split: if_splits)
  have "rb_store b data len putx end_off = Inr (b \<lparr> rb_data := dat, rb_tail_offset := t, rb_last_len := t - rb_head_offset b \<rparr>)"
    unfolding rb_store_def copy_in_def using off dat by (simp add: Let_def t_def)
  with memcpy_length [OF dat] d t ll nth e show ?thesis
    by (intro exI [of _ dat] exI [of _ t] exI [of _ "t - rb_head_offset b"]) auto
qed


section \<open>Putting a segment\<close>

lemma fc_seq_at_head:
  "rb_head_seq b = fc_seq f \<longleftrightarrow> fst (frag_span (rb_head_seq b) f) = 0"
  by (auto simp: frag_span_def unat_eq_zero)

text \<open>The last step of the put, given the new list.\<close>

lemma rb_update_merged:
  assumes wf: "span_wf 0 n (map (frag_span h) fs)" "span_wf 0 n (map (frag_span h) (first # rest))" "n < 2 ^ 31"
    and sub: "covered (map (frag_span h) fs) \<subseteq> covered (map (frag_span h) (first # rest))"
    and old: "unat ml = prefix_len (map (frag_span h) fs)"
  defines "pl \<equiv> prefix_len (map (frag_span h) (first # rest))"
  shows "h = fc_seq first \<Longrightarrow> unat (fc_len first) = pl"
    and "h = fc_seq first \<Longrightarrow> (scast (fc_len first - ml) :: u64) = of_nat (pl - unat ml)"
    and "h \<noteq> fc_seq first \<Longrightarrow> pl = 0 \<and> unat ml = 0"
    and "unat ml \<le> pl" and "pl < 2 ^ 31"
proof -
  obtain s e where fs: "frag_span h first = (s, e)" by (cases "frag_span h first")
  have e: "e = s + unat (fc_len first)" "s = unat (fc_seq first - h)" "e \<le> n"
    using fs wf(2) by (auto simp: frag_span_def)
  have pl: "pl = (if s = 0 then e else 0)" using fs by (simp add: pl_def)
  show le: "unat ml \<le> pl" unfolding pl_def old using wf(1,2) sub by (rule prefix_len_mono)
  show "pl < 2 ^ 31" using pl e wf(3) by auto
  { assume "h = fc_seq first"
    then show l: "unat (fc_len first) = pl" using pl e by simp
    have "unat (fc_len first - ml) = pl - unat ml"
      using l le by (simp add: unat_sub word_le_nat_alt)
    moreover have "unat (fc_len first - ml) < 2 ^ 31" using calculation pl e wf(3) by auto
    ultimately show "(scast (fc_len first - ml) :: u64) = of_nat (pl - unat ml)"
      by (metis unat_scast_nonneg of_nat_unat ucast_id) }
  { assume "h \<noteq> fc_seq first"
    then have "s \<noteq> 0" using e by (auto simp: unat_eq_zero)
    with pl le show "pl = 0 \<and> unat ml = 0" by simp }
qed

lemma RBPut_accept:
  assumes inv: "rb_inv b" and len: "0 < unat len" and room: "unat (cur_seq - rb_head_seq b) + unat len \<le> unat (rb_size b)"
    and src: "unat len \<le> length data"
    and others: "others \<inter> fc_ptr ` set (rb_fctx b) = {}"
    and own: "frag_own rbm (others \<union> fc_ptr ` set (rb_fctx b))" and av: "frag_available rbm"
  defines "d \<equiv> unat (cur_seq - rb_head_seq b)"
  shows "\<exists>rbm' b'. RBPut calloc rbm b data len cur_seq = Inr (int (unat len), rbm', b') \<and> rb_inv b' \<and>
    rb_spans b' = span_add d (d + unat len) (rb_spans b) \<and>
    rb_head_seq b' = rb_head_seq b \<and> rb_init_seq b' = rb_init_seq b \<and> rb_size b' = rb_size b \<and>
    rb_data_ptr b' = rb_data_ptr b \<and>
    unat (rb_merged_len b) \<le> unat (rb_merged_len b') \<and>
    rb_cum_len b' = rb_cum_len b + of_nat (unat (rb_merged_len b') - unat (rb_merged_len b)) \<and>
    (\<forall>i\<in>rb_covered b'. rb_byte b' i = (if d \<le> i \<and> i < d + unat len then data ! (i - d) else rb_byte b i)) \<and>
    others \<inter> fc_ptr ` set (rb_fctx b') = {} \<and>
    frag_own rbm' (others \<union> fc_ptr ` set (rb_fctx b')) \<and> rbm_frame rbm rbm'"
proof -
  let ?h = "rb_head_seq b" and ?px = "cur_seq - rb_head_seq b" and ?e = "cur_seq - rb_head_seq b + len"
  have sz: "unat (rb_size b) < 2 ^ 31 - 1" using inv by (simp add: rb_inv_def)
  have e: "unat ?e = d + unat len" unfolding d_def using room sz by (intro unat_add_small) simp
  have d31: "d < 2 ^ 31" "unat ?e < 2 ^ 31" "unat (rb_size b) < 2 ^ 31" "unat len < 2 ^ 31"
    using room sz e by (auto simp: d_def)
  have guard: "GetMinSeq ?h cur_seq = ?h" using d31(1) unfolding d_def by (rule GetMinSeq_dist)
  have size_ok: "\<not> sint (rb_size b) < sint ?e" using d31 e room by (simp only: sint_less_unat d_def)
  obtain dat1 hd ho t1 where room1: "rb_make_room b ?e = Inr (b \<lparr> rb_data := dat1, rb_tail_offset := t1, rb_head_offset := ho, rb_head := hd \<rparr>)"
    and r1: "length dat1 = unat (rb_size b)" "hd = unat ho" "unat t1 = unat ho + unat (rb_last_len b)"
      "unat t1 \<le> unat (rb_size b)" "unat ho + unat ?e \<le> unat (rb_size b)"
    and keep1: "\<forall>i<unat (rb_last_len b). dat1 ! (hd + i) = rb_byte b i"
    using rb_make_room_OK [OF inv, of ?e] e room unfolding d_def by auto
  define b1 where "b1 = b \<lparr> rb_data := dat1, rb_tail_offset := t1, rb_head_offset := ho, rb_head := hd \<rparr>"
  obtain dat2 t ll where store: "rb_store b1 data len ?px ?e = Inr (b1 \<lparr> rb_data := dat2, rb_tail_offset := t, rb_last_len := ll \<rparr>)"
    and s2: "length dat2 = unat (rb_size b)" "unat ll = max (unat (rb_last_len b)) (unat ?e)"
      "unat t = unat ho + unat ll" "unat t \<le> unat (rb_size b)"
    and keep2: "\<forall>i<unat ll. dat2 ! (hd + i) =
      (if unat ?px \<le> i \<and> i < unat ?e then data ! (i - unat ?px) else rb_byte b1 i)"
    using rb_store_OK [of b1 ?e ?px len data] r1 e sz src unfolding d_def by (auto simp: b1_def)
  define b2 where "b2 = b1 \<lparr> rb_data := dat2, rb_tail_offset := t, rb_last_len := ll \<rparr>"
  have n: "unat ll < 2 ^ 31 - 1" using s2 sz by linarith
  have old: "frags_ok ?h (unat ll) (rb_fctx b)" "span_wf 0 (unat ll) (map (frag_span ?h) (rb_fctx b))"
    using inv s2(2) by (auto simp: rb_inv_def rb_spans_def intro: frags_ok_mono span_wf_mono)
  have "unat ?px + unat len \<le> unat ll" using s2(2) e by (simp add: d_def)
  from rb_add_fragment_OK [OF n len this old others own av, of calloc] obtain rbm' fs' where
    add: "rb_add_fragment calloc rbm cur_seq len (rb_fctx b) = Inr (rbm', fs')"
    and post: "merge_post ?h (unat ll) others (span_add d (d + unat len) (rb_spans b)) rbm fs' rbm'"
    unfolding d_def rb_spans_def by blast
  have spans: "map (frag_span ?h) fs' = span_add d (d + unat len) (rb_spans b)" using post by (simp add: merge_post_def)
  then have "fs' \<noteq> []" by (metis list.simps(8) span_add_not_Nil)
  then obtain first rest where fs': "fs' = first # rest" by (cases fs') auto
  have wf': "span_wf 0 (unat ll) (map (frag_span ?h) fs')"
    unfolding spans using old(2) s2(2) e len by (intro span_wf_add) (auto simp: rb_spans_def)
  have cov: "covered (map (frag_span ?h) fs') = {d..<d + unat len} \<union> rb_covered b"
    unfolding spans rb_covered_def using old(2) len by (intro covered_add) (auto simp: rb_spans_def)
  have ml: "unat (rb_merged_len b) = prefix_len (map (frag_span ?h) (rb_fctx b))"
    using inv by (simp add: rb_inv_def rb_spans_def)
  have sub: "covered (map (frag_span ?h) (rb_fctx b)) \<subseteq> covered (map (frag_span ?h) (first # rest))"
    using cov unfolding fs' by (auto simp: rb_covered_def rb_spans_def)
  note m = rb_update_merged [OF old(2) wf' [unfolded fs'] _ sub ml]
  define b3 where "b3 = (if ?h = fc_seq first
    then b2 \<lparr> rb_fctx := fs', rb_cum_len := rb_cum_len b + scast (fc_len first - rb_merged_len b), rb_merged_len := fc_len first \<rparr>
    else b2 \<lparr> rb_fctx := fs' \<rparr>)"
  have f2: "rb_fctx b2 = rb_fctx b" "rb_head_seq b2 = ?h" "rb_cum_len b2 = rb_cum_len b" "rb_merged_len b2 = rb_merged_len b"
    by (simp_all add: b2_def b1_def)
  have put: "RBPut calloc rbm b data len cur_seq = Inr (int (unat len), rbm', b3)"
    using len guard size_ok room1 store add fs' f2 sint_nonneg_eq [OF d31(4)] unfolding b1_def [symmetric] b2_def [symmetric]
    by (auto simp: RBPut_def Let_def b3_def)
  have f3: "rb_data b3 = dat2" "rb_head b3 = hd" "rb_head_offset b3 = ho" "rb_tail_offset b3 = t" "rb_last_len b3 = ll"
    "rb_size b3 = rb_size b" "rb_head_seq b3 = ?h" "rb_fctx b3 = fs'" "rb_init_seq b3 = rb_init_seq b" "rb_data_ptr b3 = rb_data_ptr b"
    by (simp_all add: b3_def b2_def b1_def)
  have merged: "unat (rb_merged_len b3) = prefix_len (map (frag_span ?h) fs')"
    and cum: "rb_cum_len b3 = rb_cum_len b + of_nat (unat (rb_merged_len b3) - unat (rb_merged_len b))"
    using m n f2 by (auto simp: b3_def fs' simp del: prefix_len.simps)
  have "rb_inv b3"
    using merged s2 r1(2) sz post wf' by (auto simp: rb_inv_def f3 rb_spans_def merge_post_def)
  moreover have "\<forall>i\<in>rb_covered b3. rb_byte b3 i = (if d \<le> i \<and> i < d + unat len then data ! (i - d) else rb_byte b i)"
  proof
    fix i assume i: "i \<in> rb_covered b3"
    then have "i < unat ll" using covered_bounds [OF wf'] by (simp add: rb_covered_def rb_spans_def f3)
    moreover have "i < unat (rb_last_len b)" if "\<not> (d \<le> i \<and> i < d + unat len)"
      using i that cov inv covered_bounds [of 0 "unat (rb_last_len b)" "rb_spans b" i]
      by (auto simp: rb_covered_def rb_spans_def f3 rb_inv_def)
    ultimately show "rb_byte b3 i = (if d \<le> i \<and> i < d + unat len then data ! (i - d) else rb_byte b i)"
      using keep1 keep2 e by (auto simp: rb_byte_def f3 b1_def d_def)
  qed
  moreover have "unat (rb_merged_len b) \<le> unat (rb_merged_len b3)" using merged m(4) n by (simp add: fs' del: prefix_len.simps)
  ultimately show ?thesis using put spans f3 cum post by (auto simp: rb_spans_def merge_post_def)
qed


lemma RBPut_old:
  assumes "2 ^ 31 < unat (cur_seq - rb_head_seq b)"
  shows "RBPut calloc rbm b data len cur_seq = Inr (0, rbm, b)"
proof -
  have "cur_seq \<noteq> rb_head_seq b" using assms by auto
  with GetMinSeq_far [OF assms] show ?thesis by (simp add: RBPut_def)
qed

lemma RBPut_full:
  assumes inv: "rb_inv b" and len: "0 < unat len"
    and big: "unat (rb_size b) < unat (cur_seq - rb_head_seq b) + unat len"
    and half: "unat (cur_seq - rb_head_seq b) + unat len < 2 ^ 31"
  shows "RBPut calloc rbm b data len cur_seq = Inr (- 2, rbm, b)"
proof -
  have e: "unat (cur_seq - rb_head_seq b + len) = unat (cur_seq - rb_head_seq b) + unat len"
    using half by (intro unat_add_small) simp
  have "GetMinSeq (rb_head_seq b) cur_seq = rb_head_seq b" using half by (intro GetMinSeq_dist) simp
  moreover have "sint (rb_size b) < sint (cur_seq - rb_head_seq b + len)"
    using half e big inv by (subst sint_less_unat) (simp_all add: rb_inv_def)
  ultimately show ?thesis using len by (auto simp: RBPut_def Let_def)
qed

section \<open>Removing bytes\<close>

lemma frag_span_advance:
  assumes "m \<le> unat (fc_seq f - h)"
  shows "frag_span (h + of_nat m) f = (fst (frag_span h f) - m, snd (frag_span h f) - m)"
proof -
  have m: "unat (of_nat m :: u32) = m"
    using assms unat_lt_2p32 [of "fc_seq f - h"] by (simp add: unat_of_nat)
  have "fc_seq f - (h + of_nat m) = (fc_seq f - h) - of_nat m" by simp
  also have "unat \<dots> = unat (fc_seq f - h) - m"
    using assms m by (simp only: unat_sub word_le_nat_alt)
  finally show ?thesis using assms by (simp add: frag_span_def)
qed

lemma frags_ok_advance:
  assumes "frags_ok h n fs" "\<forall>f\<in>set fs. m \<le> unat (fc_seq f - h)"
  shows "frags_ok (h + of_nat m) (n - m) fs"
proof -
  have "frag_ok (h + of_nat m) (n - m) f" if "f \<in> set fs" for f
    using that assms frag_span_advance [of m f h] by (auto simp: frags_ok_def frag_ok_def)
  then show ?thesis using assms(1) by (auto simp: frags_ok_def)
qed

lemma frag_own_enqueue:
  assumes own: "frag_own rbm (insert p held)" "p \<notin> held"
  shows "\<exists>r q. RBFragEnqueue (rbm_free_fragq rbm) (Some p) = Inr (r, q) \<and>
      frag_own (rbm \<lparr> rbm_free_fragq := q \<rparr>) held"
    and "\<exists>r q. RBFragEnqueue (rbm_free_fragq_int rbm) (Some p) = Inr (r, q) \<and>
      frag_own (rbm \<lparr> rbm_free_fragq_int := q \<rparr>) held"
proof -
  let ?q = "rbm_free_fragq rbm" and ?i = "rbm_free_fragq_int rbm" and ?mp = "rbm_frag_mp rbm"
  obtain xs where xs: "pool_rel ?mp xs" and inv: "click_inv ?q" "click_inv ?i"
    and d: "distinct (xs @ click_content ?q @ click_content ?i)"
    and disj: "(set xs \<union> set (click_content ?q) \<union> set (click_content ?i)) \<inter> insert p held = {}"
    and sub: "set (click_content ?q) \<union> set (click_content ?i) \<union> insert p held \<subseteq> pool_chunks ?mp"
    using own unfolding frag_own_def by blast
  have enq: "\<exists>r q'. RBFragEnqueue q (Some p) = Inr (r, q') \<and> click_inv q' \<and>
      (click_content q' = click_content q @ [p] \<or> q' = q)" if "click_inv q" for q
  proof (cases "length (click_content q) < click_cap q")
    case True
    with that click_enqueue_room [of q p] show ?thesis by (auto simp: RBFragEnqueue_def)
  next
    case False
    with that click_content_le [OF that] click_enqueue_full [of q "Some p"] show ?thesis
      by (auto simp: RBFragEnqueue_def)
  qed
  show "\<exists>r q. RBFragEnqueue ?q (Some p) = Inr (r, q) \<and> frag_own (rbm \<lparr> rbm_free_fragq := q \<rparr>) held"
  proof -
    obtain r q where q: "RBFragEnqueue ?q (Some p) = Inr (r, q)" "click_inv q"
      "click_content q = click_content ?q @ [p] \<or> q = ?q" using enq [OF inv(1)] by blast
    have "frag_own (rbm \<lparr> rbm_free_fragq := q \<rparr>) held"
      unfolding frag_own_def using q(2,3) xs inv d disj sub own(2) by (intro exI [of _ xs]) auto
    with q(1) show ?thesis by blast
  qed
  show "\<exists>r q. RBFragEnqueue ?i (Some p) = Inr (r, q) \<and> frag_own (rbm \<lparr> rbm_free_fragq_int := q \<rparr>) held"
  proof -
    obtain r q where q: "RBFragEnqueue ?i (Some p) = Inr (r, q)" "click_inv q"
      "click_content q = click_content ?i @ [p] \<or> q = ?i" using enq [OF inv(2)] by blast
    have "frag_own (rbm \<lparr> rbm_free_fragq_int := q \<rparr>) held"
      unfolding frag_own_def using q(2,3) xs inv d disj sub own(2) by (intro exI [of _ xs]) auto
    with q(1) show ?thesis by blast
  qed
qed

definition rb_removed :: "tcp_ring_buffer \<Rightarrow> nat \<Rightarrow> fragment_ctx list \<Rightarrow> tcp_ring_buffer" where
  "rb_removed b m fs = b \<lparr> rb_head_offset := rb_head_offset b + of_nat m,
      rb_head := unat (rb_head_offset b + of_nat m), rb_head_seq := rb_head_seq b + of_nat m,
      rb_merged_len := rb_merged_len b - of_nat m, rb_last_len := rb_last_len b - of_nat m, rb_fctx := fs \<rparr>"

lemma rb_removed_OK:
  assumes inv: "rb_inv b" and m: "m \<le> unat (rb_merged_len b)"
    and ok: "frags_ok (rb_head_seq b + of_nat m) (unat (rb_last_len b) - m) fs"
    and wf: "span_wf 0 (unat (rb_last_len b) - m) (map (frag_span (rb_head_seq b + of_nat m)) fs)"
    and pl: "prefix_len (map (frag_span (rb_head_seq b + of_nat m)) fs) = unat (rb_merged_len b) - m"
  shows "rb_inv (rb_removed b m fs)"
    and "rb_byte (rb_removed b m fs) i = rb_byte b (m + i)"
    and "unat (rb_merged_len (rb_removed b m fs)) = unat (rb_merged_len b) - m"
proof -
  have "prefix_len (rb_spans b) \<le> unat (rb_last_len b)"
    using inv by (cases "rb_spans b" rule: prefix_len.cases) (auto simp: rb_inv_def)
  then have ml: "unat (rb_merged_len b) \<le> unat (rb_last_len b)" using inv by (simp add: rb_inv_def)
  have t: "unat (rb_tail_offset b) = unat (rb_head_offset b) + unat (rb_last_len b)" "unat (rb_tail_offset b) < 2 ^ 32"
    using inv unat_lt_2p32 by (auto simp: rb_inv_def)
  have w: "unat (of_nat m :: u32) = m" using m unat_lt_2p32 [of "rb_merged_len b"] by (simp add: unat_of_nat)
  have ho: "unat (rb_head_offset b + of_nat m) = unat (rb_head_offset b) + m"
    using t ml m w unat_add_small [of "rb_head_offset b" "of_nat m"] by simp
  have sub: "unat (rb_merged_len b - of_nat m) = unat (rb_merged_len b) - m"
      "unat (rb_last_len b - of_nat m) = unat (rb_last_len b) - m"
    using m ml w by (simp_all add: unat_sub word_le_nat_alt)
  show "rb_inv (rb_removed b m fs)"
    using inv ok wf pl ho sub m ml t by (simp add: rb_inv_def rb_removed_def rb_spans_def)
  show "rb_byte (rb_removed b m fs) i = rb_byte b (m + i)"
    using inv ho by (simp add: rb_byte_def rb_removed_def rb_inv_def add.assoc)
  show "unat (rb_merged_len (rb_removed b m fs)) = unat (rb_merged_len b) - m"
    using sub by (simp add: rb_removed_def)
qed


lemma RBRemove_OK:
  fixes k :: nat
  assumes inv: "rb_inv b" and others: "others \<inter> fc_ptr ` set (rb_fctx b) = {}"
    and own: "frag_own rbm (others \<union> fc_ptr ` set (rb_fctx b))"
  defines "m \<equiv> min (unat (rb_merged_len b)) k"
  shows "\<exists>rbm' b'. RBRemove rbm b k opt = Inr (m, rbm', b') \<and> rb_inv b' \<and>
    rb_head_seq b' = rb_head_seq b + of_nat m \<and> rb_init_seq b' = rb_init_seq b \<and> rb_size b' = rb_size b \<and>
    rb_data_ptr b' = rb_data_ptr b \<and> rb_cum_len b' = rb_cum_len b \<and>
    unat (rb_merged_len b') = unat (rb_merged_len b) - m \<and>
    rb_covered b' = {i. i + m \<in> rb_covered b} \<and>
    (\<forall>i. rb_byte b' i = rb_byte b (m + i)) \<and>
    others \<inter> fc_ptr ` set (rb_fctx b') = {} \<and>
    frag_own rbm' (others \<union> fc_ptr ` set (rb_fctx b')) \<and> rbm_frame rbm rbm'"
proof (cases "m = 0")
  case True
  have "size_of_int (rb_merged_len b) = 0 \<or> k = 0"
    using True size_of_int_nonneg [of "rb_merged_len b"] by (auto simp: m_def min_def split: if_splits)
  then have "RBRemove rbm b k opt = Inr (0, rbm, b)" by (auto simp: RBRemove_def Let_def)
  with True assms show ?thesis by simp
next
  case False
  let ?h = "rb_head_seq b"
  have wf: "span_wf 0 (unat (rb_last_len b)) (rb_spans b)" "unat (rb_merged_len b) = prefix_len (rb_spans b)"
    and fok: "frags_ok ?h (unat (rb_last_len b)) (rb_fctx b)" and sz: "unat (rb_last_len b) < 2 ^ 31 - 1"
    using inv by (auto simp: rb_inv_def)
  have m: "0 < m" "m \<le> prefix_len (rb_spans b)" "m \<le> unat (rb_merged_len b)" using False wf by (auto simp: m_def)
  then obtain e ss where spans: "rb_spans b = (0, e) # ss" and e: "prefix_len (rb_spans b) = e"
    by (cases "rb_spans b" rule: prefix_len.cases) (auto split: if_splits)
  then obtain first rest where fctx: "rb_fctx b = first # rest" and f: "frag_span ?h first = (0, e)"
    and rest: "map (frag_span ?h) rest = ss" by (auto simp: rb_spans_def)
  have len: "unat (fc_len first) = e" "fc_seq first = ?h" using f by (auto simp: frag_span_def unat_eq_zero)
  have ml31: "unat (rb_merged_len b) < 2 ^ 31" using spans wf e sz by auto
  have take: "(if size_of_int (rb_merged_len b) < k then size_of_int (rb_merged_len b) else k) = m"
    using size_of_int_nonneg [OF ml31] by (auto simp: m_def)
  have mw: "unat (of_nat m :: u32) = m" using m ml31 by (simp add: unat_of_nat)
  have far: "\<forall>f\<in>set rest. m \<le> unat (fc_seq f - ?h)"
  proof
    fix g assume g: "g \<in> set rest"
    have "span_wf (Suc e) (unat (rb_last_len b)) ss" using wf spans by simp
    moreover have "frag_span ?h g \<in> set ss" using g rest by auto
    ultimately have "Suc e \<le> fst (frag_span ?h g)"
      by (induction "Suc e" "unat (rb_last_len b)" ss arbitrary: e rule: span_wf.induct) fastforce+
    then show "m \<le> unat (fc_seq g - ?h)" using m e by (simp add: frag_span_def)
  qed
  then have sp_rest: "map (frag_span (?h + of_nat m)) rest = map (\<lambda>(s, e). (s - m, e - m)) ss"
    using frag_span_advance [of m _ ?h] by (auto simp: rest [symmetric] split_beta)
  have ok_rest: "frags_ok (?h + of_nat m) (unat (rb_last_len b) - m) rest"
    using fok far fctx by (intro frags_ok_advance) (auto simp: frags_ok_Cons)
  define keep where "keep = first \<lparr> fc_seq := fc_seq first + of_nat m, fc_len := fc_len first - of_nat m \<rparr>"
  have kl: "unat (fc_len first - of_nat m) = e - m" using len m e mw by (simp add: unat_sub word_le_nat_alt)
  have kb: "bf31 (fc_len first - of_nat m) = fc_len first - of_nat m"
    using kl ml31 e wf by (intro bf31_id) simp
  define fs where "fs = (if m = e then rest else keep # rest)"
  have "frag_span (?h + of_nat m) keep = (0, e - m)" using len kl by (simp add: frag_span_def keep_def)
  then have drop: "map (frag_span (?h + of_nat m)) fs = span_drop m (rb_spans b)"
    using sp_rest spans m e by (auto simp: fs_def)
  note sd = span_drop_props [OF wf(1) m(1,2), folded drop]
  have e_ll: "e \<le> unat (rb_last_len b)" using wf(1) spans by simp
  have ok: "frags_ok (?h + of_nat m) (unat (rb_last_len b) - m) fs"
    using ok_rest fok fctx kl len m e e_ll
    by (auto simp: fs_def frags_ok_Cons keep_def frag_ok_def frag_span_def)
  note rr = rb_removed_OK [OF inv m(3) ok sd(1)]
  have pl: "prefix_len (map (frag_span (?h + of_nat m)) fs) = unat (rb_merged_len b) - m" using sd(3) wf(2) by simp
  have cov: "rb_covered (rb_removed b m fs) = {i. i + m \<in> rb_covered b}"
    using sd(2) by (simp add: rb_covered_def rb_spans_def rb_removed_def)
  have fld: "rb_fctx (rb_removed b m fs) = fs" "rb_head_seq (rb_removed b m fs) = ?h + of_nat m"
      "rb_init_seq (rb_removed b m fs) = rb_init_seq b" "rb_size (rb_removed b m fs) = rb_size b"
      "rb_data_ptr (rb_removed b m fs) = rb_data_ptr b" "rb_cum_len (rb_removed b m fs) = rb_cum_len b"
    by (simp_all add: rb_removed_def)
  have "\<exists>rbm'. RBRemove rbm b k opt = Inr (m, rbm', rb_removed b m fs) \<and>
      frag_own rbm' (others \<union> fc_ptr ` set fs) \<and> rbm_frame rbm rbm'"
  proof (cases "m = e")
    case True
    have p: "fc_ptr first \<notin> others \<union> fc_ptr ` set rest" using fok others fctx by (auto simp: frags_ok_Cons)
    have o: "frag_own rbm (insert (fc_ptr first) (others \<union> fc_ptr ` set rest))" using own fctx by simp
    from frag_own_enqueue [OF o p] True m take len fctx show ?thesis
      by (cases opt) (auto simp: RBRemove_def Let_def rb_removed_def fs_def rbm_frame_def)
  next
    case ne: False
    have "fc_ptr ` set fs = fc_ptr ` set (rb_fctx b)" using ne by (simp add: fs_def fctx keep_def)
    moreover have "RBRemove rbm b k opt = Inr (m, rbm, rb_removed b m fs)"
      using ne m take len fctx e kb by (simp add: RBRemove_def Let_def rb_removed_def fs_def keep_def)
    ultimately show ?thesis using own by simp
  qed
  moreover have "others \<inter> fc_ptr ` set fs = {}" using others fctx by (auto simp: fs_def keep_def)
  ultimately show ?thesis using rr pl cov fld by auto
qed


section \<open>Reassembly of a stream\<close>

text \<open>
  \<open>S\<close> is the sender's byte stream, \<open>isn\<close> the sequence number of its first byte. A segment is any
  piece of it, with the sequence number that TCP gives it; a read is what the application does
  (\<^verbatim>\<open>CopyToUser\<close> of \<^verbatim>\<open>api.c\<close>): it copies the bytes at \<^verbatim>\<open>head\<close> and removes them.
  The last component of the state is everything read so far.
\<close>

datatype rb_op = Segment nat nat | ReadBytes nat rb_caller

type_synonym rb_state = "rb_manager \<times> tcp_ring_buffer \<times> u8 list"

fun rb_step :: "(nat \<Rightarrow> u8) \<Rightarrow> u32 \<Rightarrow> rb_op \<Rightarrow> rb_state \<Rightarrow> rb_state c_result" where
  "rb_step S isn (Segment a n) (rbm, b, out) =
    (case RBPut None rbm b (map S [a..<a + n]) (of_nat n) (isn + of_nat a) of Inl e \<Rightarrow> Inl e
     | Inr (_, rbm', b') \<Rightarrow> Inr (rbm', b', out))"
| "rb_step S isn (ReadBytes k opt) (rbm, b, out) =
    (let copylen = min (unat (rb_merged_len b)) k in
     case RBRemove rbm b copylen opt of Inl e \<Rightarrow> Inl e
     | Inr (_, rbm', b') \<Rightarrow> Inr (rbm', b', out @ slice (rb_head b) copylen (rb_data b)))"

text \<open>A segment may be anywhere within \<open>2 ^ 31\<close> of the read position (the receiver's window check
  allows far less), and a fragment node must be free.\<close>

fun rb_legal :: "rb_op \<Rightarrow> rb_state \<Rightarrow> bool" where
  "rb_legal (Segment a n) (rbm, b, out) \<longleftrightarrow> frag_available rbm \<and>
    (if length out \<le> a then a - length out + n < 2 ^ 31 else n < 2 ^ 32 \<and> length out - a < 2 ^ 31)"
| "rb_legal (ReadBytes k opt) (rbm, b, out) \<longleftrightarrow> True"

fun rb_run :: "(nat \<Rightarrow> u8) \<Rightarrow> u32 \<Rightarrow> rb_op list \<Rightarrow> rb_state \<Rightarrow> rb_state c_result" where
  "rb_run S isn [] st = Inr st"
| "rb_run S isn (op # ops) st =
    (case rb_step S isn op st of Inl e \<Rightarrow> Inl e | Inr st' \<Rightarrow> rb_run S isn ops st')"

fun rb_all_legal :: "(nat \<Rightarrow> u8) \<Rightarrow> u32 \<Rightarrow> rb_op list \<Rightarrow> rb_state \<Rightarrow> bool" where
  "rb_all_legal S isn [] st \<longleftrightarrow> True"
| "rb_all_legal S isn (op # ops) st \<longleftrightarrow> rb_legal op st \<and>
    (case rb_step S isn op st of Inl e \<Rightarrow> True | Inr st' \<Rightarrow> rb_all_legal S isn ops st')"

fun rb_stream :: "(nat \<Rightarrow> u8) \<Rightarrow> u32 \<Rightarrow> rb_state \<Rightarrow> bool" where
  "rb_stream S isn (rbm, b, out) \<longleftrightarrow> rb_inv b \<and> frag_own rbm (fc_ptr ` set (rb_fctx b)) \<and>
    rb_head_seq b = isn + of_nat (length out) \<and>
    (\<forall>i\<in>rb_covered b. rb_byte b i = S (length out + i)) \<and>
    out = map S [0..<length out] \<and>
    rb_cum_len b = of_nat (length out + unat (rb_merged_len b))"

lemma unat_offset:
  fixes x y :: nat
  assumes "x - y < 2 ^ 32" "y \<le> x"
  shows "unat ((isn :: u32) + of_nat x - (isn + of_nat y)) = x - y"
proof -
  have "isn + of_nat x - (isn + of_nat y) = (of_nat (x - y) :: u32)" using assms(2) by (simp add: of_nat_diff)
  then show ?thesis using assms(1) by (simp add: unat_of_nat)
qed

lemma unat_offset_before:
  fixes x y :: nat
  assumes "y - x < 2 ^ 31" "x < y"
  shows "2 ^ 31 < unat ((isn :: u32) + of_nat x - (isn + of_nat y))"
proof -
  have dist: "unat (isn + of_nat y - (isn + of_nat x)) = y - x" using assms by (intro unat_offset) auto
  then have "isn + of_nat x \<noteq> isn + of_nat y" using assms(2) by (metis diff_self unat_0 zero_less_diff less_irrefl)
  from unat_neg_diff [OF this] show ?thesis using dist assms by simp
qed

lemma prefix_covered: "rb_inv b \<Longrightarrow> i < unat (rb_merged_len b) \<Longrightarrow> i \<in> rb_covered b"
  using prefix_len_least_missing [of 0 "unat (rb_last_len b)" "rb_spans b"]
  by (auto simp: rb_inv_def rb_covered_def)

lemma rb_stream_read:
  assumes "rb_stream S isn (rbm, b, out)"
  shows "\<exists>st'. rb_step S isn (ReadBytes k opt) (rbm, b, out) = Inr st' \<and> rb_stream S isn st'"
proof -
  let ?P = "length out" and ?m = "min (unat (rb_merged_len b)) k"
  have inv: "rb_inv b" and bytes: "\<forall>i\<in>rb_covered b. rb_byte b i = S (?P + i)" using assms by auto
  obtain rbm' b' where rm: "RBRemove rbm b ?m opt = Inr (?m, rbm', b')" and b': "rb_inv b'"
      "rb_head_seq b' = rb_head_seq b + of_nat ?m" "rb_cum_len b' = rb_cum_len b"
      "unat (rb_merged_len b') = unat (rb_merged_len b) - ?m"
      "rb_covered b' = {i. i + ?m \<in> rb_covered b}" "\<forall>i. rb_byte b' i = rb_byte b (?m + i)"
      "frag_own rbm' (fc_ptr ` set (rb_fctx b'))"
    using RBRemove_OK [OF inv, of "{}" rbm "?m" opt] assms by auto
  have "unat (rb_merged_len b) \<le> unat (rb_last_len b)"
    using inv by (cases "rb_spans b" rule: prefix_len.cases) (auto simp: rb_inv_def)
  then have bound: "rb_head b + ?m \<le> length (rb_data b)" using inv by (auto simp: rb_inv_def)
  have "slice (rb_head b) ?m (rb_data b) = map S [?P..<?P + ?m]"
  proof (rule slice_eqI [OF bound])
    fix i assume i: "i < ?m"
    then have "rb_byte b i = S (?P + i)" using bytes prefix_covered [OF inv, of i] by auto
    with i show "rb_data b ! (rb_head b + i) = map S [?P..<?P + ?m] ! i" by (simp add: rb_byte_def)
  qed simp
  then have out': "out @ slice (rb_head b) ?m (rb_data b) = map S [0..<?P + ?m]"
    using assms upt_add_eq_append [of 0 ?P ?m] by (metis map_append rb_stream.simps le0)
  have len: "length (out @ slice (rb_head b) ?m (rb_data b)) = ?P + ?m" unfolding out' by simp
  have bytes': "\<forall>i\<in>rb_covered b'. rb_byte b' i = S (?P + ?m + i)"
    using b'(5,6) bytes by (auto simp: ac_simps)
  have cum: "rb_cum_len b' = of_nat (?P + ?m + unat (rb_merged_len b'))"
    using b'(3,4) assms by (simp add: of_nat_diff)
  have "rb_stream S isn (rbm', b', out @ slice (rb_head b) ?m (rb_data b))"
    unfolding rb_stream.simps len using b' bytes' cum out' assms by (simp add: add.assoc)
  then show ?thesis using rm by (auto simp: Let_def simp del: rb_stream.simps)
qed

lemma rb_stream_segment:
  assumes st: "rb_stream S isn (rbm, b, out)" and legal: "rb_legal (Segment a n) (rbm, b, out)"
  shows "\<exists>st'. rb_step S isn (Segment a n) (rbm, b, out) = Inr st' \<and> rb_stream S isn st'"
proof -
  let ?P = "length out"
  have inv: "rb_inv b" and head: "rb_head_seq b = isn + of_nat ?P"
    and bytes: "\<forall>i\<in>rb_covered b. rb_byte b i = S (?P + i)" using st by auto
  show ?thesis
  proof (cases "?P \<le> a")
    case False
    then have "2 ^ 31 < unat (isn + of_nat a - rb_head_seq b)"
      using legal unfolding head by (intro unat_offset_before) auto
    from RBPut_old [OF this] show ?thesis using st by simp
  next
    case True
    let ?d = "a - ?P"
    have d: "unat (isn + of_nat a - rb_head_seq b) = ?d"
      using legal True unfolding head by (intro unat_offset) auto
    have "n < 2 ^ 32" using legal True by auto
    then have n: "unat (of_nat n :: u32) = n" by (simp add: unat_of_nat)
    consider "n = 0" | "0 < n" "?d + n \<le> unat (rb_size b)" | "0 < n" "unat (rb_size b) < ?d + n" by linarith
    then show ?thesis
    proof cases
      case 1
      then show ?thesis using st by (simp add: RBPut_def)
    next
      case 3
      have "RBPut None rbm b (map S [a..<a + n]) (of_nat n) (isn + of_nat a) = Inr (- 2, rbm, b)"
        using 3 d n legal True by (intro RBPut_full inv) simp_all
      then show ?thesis using st by simp
    next
      case 2
      obtain rbm' b' where put: "RBPut None rbm b (map S [a..<a + n]) (of_nat n) (isn + of_nat a) = Inr (int n, rbm', b')"
        and b': "rb_inv b'" "rb_head_seq b' = rb_head_seq b" "unat (rb_merged_len b) \<le> unat (rb_merged_len b')"
          "rb_cum_len b' = rb_cum_len b + of_nat (unat (rb_merged_len b') - unat (rb_merged_len b))"
          "\<forall>i\<in>rb_covered b'. rb_byte b' i = (if ?d \<le> i \<and> i < ?d + n then map S [a..<a + n] ! (i - ?d) else rb_byte b i)"
          "frag_own rbm' (fc_ptr ` set (rb_fctx b'))" "rb_spans b' = span_add ?d (?d + n) (rb_spans b)"
        using RBPut_accept [OF inv, of "of_nat n" "isn + of_nat a" "map S [a..<a + n]" "{}" rbm None] 2 d n legal st by auto
      have cov: "rb_covered b' = {?d..<?d + n} \<union> rb_covered b"
        unfolding rb_covered_def b'(7) using inv 2 by (intro covered_add) (auto simp: rb_inv_def)
      have "rb_byte b' i = S (?P + i)" if "i \<in> rb_covered b'" for i
        using bspec [OF b'(5) that] that cov bytes True by (auto simp: add.commute)
      moreover have "rb_cum_len b' = of_nat (?P + unat (rb_merged_len b'))"
        using b'(3,4) st by (simp add: of_nat_diff)
      ultimately show ?thesis using put b' st by auto
    qed
  qed
qed

lemma rb_stream_run:
  "rb_stream S isn st \<Longrightarrow> rb_all_legal S isn ops st \<Longrightarrow>
    \<exists>st'. rb_run S isn ops st = Inr st' \<and> rb_stream S isn st'"
proof (induction ops arbitrary: st)
  case (Cons op ops)
  obtain rbm b out where st: "st = (rbm, b, out)" by (cases st)
  have "\<exists>st'. rb_step S isn op st = Inr st' \<and> rb_stream S isn st'"
  proof (cases op)
    case (Segment a n)
    with Cons.prems show ?thesis unfolding st rb_all_legal.simps by (blast intro: rb_stream_segment)
  next
    case (ReadBytes k opt)
    with Cons.prems show ?thesis unfolding st by (blast intro: rb_stream_read)
  qed
  then obtain st' where st': "rb_step S isn op st = Inr st'" "rb_stream S isn st'" by blast
  with Cons.IH [OF st'(2)] Cons.prems(2) show ?case by auto
qed auto


section \<open>Creation\<close>

lemma RBManagerCreate_OK:
  assumes ok: "env_rbm_ok env" "env_fragq env = (True, True)" "env_fragq_int env = (True, True)"
    and mp: "env_mp env = (True, Some a, mem)" and fmp: "env_frag_mp env = (True, Some fa, fmem)"
    and cs: "16 \<le> unat cs" "unat cs < 2 ^ 31" "unat cs mod 4 = 0" and cnum: "0 < unat cnum" "unat cnum < 2 ^ 31 - 1"
  shows "\<exists>rbm xs. RBManagerCreate env cs cnum = Inr (Some rbm) \<and> frag_own rbm {} \<and> frag_available rbm \<and>
    rbm_chunk_size rbm = cs \<and> pool_rel (rbm_mp rbm) xs \<and> length xs = unat cnum \<and>
    click_content (rbm_free_fragq rbm) = [] \<and> click_content (rbm_free_fragq_int rbm) = []"
proof -
  let ?cs32 = "ucast cs :: u32"
  have n64: "unat (ucast cnum :: u64) = unat cnum"
    using unat_lt_2p32 [of cnum] by (simp add: unsigned_ucast_eq unsigned_take_bit_eq take_bit_eq_mod)
  have c32: "unat ?cs32 = unat cs"
    using cs by (simp add: unsigned_ucast_eq unsigned_take_bit_eq take_bit_eq_mod)
  have le: "unat cs * unat cnum \<le> 2 ^ 31 * 2 ^ 31"
    using cs(2) cnum(2) by (intro mult_le_mono) simp_all
  then have prod: "unat (cs * ucast cnum) = unat cs * unat cnum"
    using n64 by (simp add: unat_word_ariths)
  have fprod: "unat (of_nat sizeof_fragment_ctx * ucast cnum :: u64) = 16 * unat cnum"
    using n64 cnum(2) by (simp add: unat_word_ariths sizeof_fragment_ctx_def)
  have slots: "pool_slots c (c * unat cnum) = unat cnum" if "0 < c" for c
    unfolding pool_slots_def using that by (intro div_nat_eqI) auto
  have "sint ?cs32 = int (unat cs)" using c32 cs(2) sint_nonneg_eq [of ?cs32] by simp
  then have "sint ?cs32 mod 4 = int (unat cs mod 4)" by (simp only: of_nat_mod of_nat_numeral)
  then have m4: "sint ?cs32 mod 4 = 0" using cs(3) by simp
  obtain p xs where p: "MPCreate True (Some a) mem ?cs32 (cs * ucast cnum) = Inr (Some p)" "pool_rel p xs" "length xs = unat cnum"
    using MPCreate_OK [of ?cs32 "cs * ucast cnum" a mem] m4 cs cnum le prod c32 slots [of "unat cs"] by auto
  obtain fp ys where fp: "MPCreate True (Some fa) fmem (of_nat sizeof_fragment_ctx) (of_nat sizeof_fragment_ctx * ucast cnum) = Inr (Some fp)"
      "pool_rel fp ys" "length ys = unat cnum"
    using MPCreate_OK [of "of_nat sizeof_fragment_ctx" "of_nat sizeof_fragment_ctx * ucast cnum" fa fmem] cnum fprod slots [of 16]
    by (auto simp: sizeof_fragment_ctx_def)
  obtain q where q: "CreateRBFragQueue True True cnum = Some q" "click_inv q" "click_content (q :: addr click_queue) = []"
    using click_create_OK [of cnum, where 'a = addr] cnum by (auto simp: CreateRBFragQueue_def)
  define rbm where "rbm = \<lparr> rbm_chunk_size = cs, rbm_cur_num = 0, rbm_cnum = cnum, rbm_mp = p, rbm_frag_mp = fp,
    rbm_free_fragq = q, rbm_free_fragq_int = q \<rparr>"
  have "RBManagerCreate env cs cnum = Inr (Some rbm)"
    using ok mp fmp p fp q by (simp add: RBManagerCreate_def rbm_def)
  moreover have "frag_own rbm {}"
    unfolding frag_own_def using fp q by (intro exI [of _ ys]) (auto simp: rbm_def pool_rel_def)
  moreover have "frag_available rbm"
    using fp cnum by (auto simp: frag_available_def rbm_def pool_rel_def)
  ultimately show ?thesis using p q by (auto simp: rbm_def)
qed

lemma RBInit_stream:
  assumes init: "RBInit True mem rbm isn = Inr (Some b, rbm')" and own: "frag_own rbm {}"
    and mem: "length (mem (rb_data_ptr b)) = unat (rbm_chunk_size rbm)" "unat (rbm_chunk_size rbm) < 2 ^ 31 - 1"
  shows "rb_stream S isn (rbm', b, [])"
proof -
  obtain p mp where p: "MPAllocateChunk (rbm_mp rbm) = Inr (Some p, mp)"
    and rbm': "rbm' = rbm \<lparr> rbm_mp := mp, rbm_cur_num := rbm_cur_num rbm + 1 \<rparr>"
    and b: "b = \<lparr> rb_data_ptr = p, rb_data = mem p, rb_head = 0, rb_head_offset = 0, rb_tail_offset = 0,
      rb_merged_len = 0, rb_cum_len = 0, rb_last_len = 0, rb_size = ucast (rbm_chunk_size rbm),
      rb_head_seq = isn, rb_init_seq = isn, rb_fctx = [] \<rparr>"
    using init by (auto simp: RBInit_def split: sum.splits option.splits prod.splits)
  have "unat (ucast (rbm_chunk_size rbm) :: u32) = unat (rbm_chunk_size rbm)"
    using mem(2) by (simp add: unsigned_ucast_eq unsigned_take_bit_eq take_bit_eq_mod)
  then show ?thesis
    using own mem by (simp add: b rbm' rb_inv_def frags_ok_def rb_spans_def rb_covered_def frag_own_def)
qed


section \<open>Properties\<close>

text \<open>C12. Putting a non-empty segment that fits adds exactly the segment's range to the received
  positions, stores its bytes there and changes no other received byte; afterwards
  \<^verbatim>\<open>merged_len\<close> is the first position not received. The operation keeps the buffer's
  invariant and the ownership of the fragment nodes, and neither fails an assertion nor touches
  memory outside the array.\<close>

theorem RBPut_adds_exactly_the_segment:
  assumes "rb_inv b" "frag_own rbm (others \<union> fc_ptr ` set (rb_fctx b))"
    "others \<inter> fc_ptr ` set (rb_fctx b) = {}" "frag_available rbm"
    "0 < unat len" "unat len \<le> length data"
    "unat (cur_seq - rb_head_seq b) + unat len \<le> unat (rb_size b)"
  defines "d \<equiv> unat (cur_seq - rb_head_seq b)"
  shows "\<exists>rbm' b'. RBPut calloc rbm b data len cur_seq = Inr (int (unat len), rbm', b') \<and> rb_inv b' \<and>
    frag_own rbm' (others \<union> fc_ptr ` set (rb_fctx b')) \<and>
    rb_head_seq b' = rb_head_seq b \<and>
    rb_covered b' = rb_covered b \<union> {d..<d + unat len} \<and>
    (\<forall>i\<in>rb_covered b'. rb_byte b' i = (if d \<le> i \<and> i < d + unat len then data ! (i - d) else rb_byte b i)) \<and>
    {..<unat (rb_merged_len b')} \<subseteq> rb_covered b' \<and> unat (rb_merged_len b') \<notin> rb_covered b'"
proof -
  obtain rbm' b' where put: "RBPut calloc rbm b data len cur_seq = Inr (int (unat len), rbm', b')"
    and b': "rb_inv b'" "frag_own rbm' (others \<union> fc_ptr ` set (rb_fctx b'))" "rb_head_seq b' = rb_head_seq b"
      "rb_spans b' = span_add d (d + unat len) (rb_spans b)"
      "\<forall>i\<in>rb_covered b'. rb_byte b' i = (if d \<le> i \<and> i < d + unat len then data ! (i - d) else rb_byte b i)"
    using RBPut_accept [OF assms(1,5,7,6,3,2,4), of calloc] unfolding d_def by auto
  have "rb_covered b' = rb_covered b \<union> {d..<d + unat len}"
    unfolding rb_covered_def b'(4) using assms(1,5)
    by (subst covered_add [of 0 "unat (rb_last_len b)"]) (auto simp: rb_inv_def)
  moreover have "{..<unat (rb_merged_len b')} \<subseteq> rb_covered b' \<and> unat (rb_merged_len b') \<notin> rb_covered b'"
    using b'(1) prefix_len_least_missing [of 0 "unat (rb_last_len b')" "rb_spans b'"]
    by (auto simp: rb_inv_def rb_covered_def)
  ultimately show ?thesis using put b' by auto
qed

definition demo_env :: rbm_env where
  "demo_env = \<lparr> env_rbm_ok = True, env_mp = (True, Some 4096, \<lambda>_. \<lparr> mc_free_chunks = 0, mc_next = None \<rparr>),
    env_frag_mp = (True, Some 8192, \<lambda>_. \<lparr> mc_free_chunks = 0, mc_next = None \<rparr>),
    env_fragq = (True, True), env_fragq_int = (True, True) \<rparr>"

definition demo_rbm :: rb_manager where
  "demo_rbm = (case RBManagerCreate demo_env 16 2 of Inr (Some rbm) \<Rightarrow> rbm)"

definition demo_start :: "u32 \<Rightarrow> rb_state" where
  "demo_start isn = (case RBInit True (\<lambda>_. replicate 16 0) demo_rbm isn of Inr (Some b, rbm) \<Rightarrow> (rbm, b, []))"

lemma demo_rbm_OK:
  "RBManagerCreate demo_env 16 2 = Inr (Some demo_rbm)" "frag_own demo_rbm {}" "frag_available demo_rbm"
  "rbm_chunk_size demo_rbm = 16" "\<exists>xs. pool_rel (rbm_mp demo_rbm) xs \<and> length xs = 2"
  "click_content (rbm_free_fragq demo_rbm) = []" "click_content (rbm_free_fragq_int demo_rbm) = []"
proof -
  obtain rbm xs where rbm: "RBManagerCreate demo_env 16 2 = Inr (Some rbm)" "frag_own rbm {}" "frag_available rbm"
      "rbm_chunk_size rbm = 16" "pool_rel (rbm_mp rbm) xs" "length xs = 2"
      "click_content (rbm_free_fragq rbm) = []" "click_content (rbm_free_fragq_int rbm) = []"
    using RBManagerCreate_OK [of demo_env 4096 _ 8192 _ 16 2] by (auto simp: demo_env_def)
  then have "demo_rbm = rbm" by (simp add: demo_rbm_def)
  with rbm show "RBManagerCreate demo_env 16 2 = Inr (Some demo_rbm)" "frag_own demo_rbm {}" "frag_available demo_rbm"
    "rbm_chunk_size demo_rbm = 16" "\<exists>xs. pool_rel (rbm_mp demo_rbm) xs \<and> length xs = 2"
    "click_content (rbm_free_fragq demo_rbm) = []" "click_content (rbm_free_fragq_int demo_rbm) = []" by auto
qed

lemma demo_start_OK:
  "\<exists>b rbm. RBInit True (\<lambda>_. replicate 16 0) demo_rbm isn = Inr (Some b, rbm) \<and> demo_start isn = (rbm, b, []) \<and>
    rb_stream S isn (rbm, b, []) \<and> frag_available rbm \<and> rb_fctx b = [] \<and> rb_size b = 16 \<and> rb_head_seq b = isn"
proof -
  obtain p xs where xs: "pool_rel (rbm_mp demo_rbm) (p # xs)"
    using demo_rbm_OK(5) by (metis length_Suc_conv numeral_2_eq_2)
  then obtain mp where mp: "MPAllocateChunk (rbm_mp demo_rbm) = Inr (Some p, mp)" using pool_alloc_some by blast
  then obtain b rbm where init: "RBInit True (\<lambda>_. replicate 16 0) demo_rbm isn = Inr (Some b, rbm)"
    and f: "rbm = demo_rbm \<lparr> rbm_mp := mp, rbm_cur_num := rbm_cur_num demo_rbm + 1 \<rparr>" "rb_fctx b = []"
      "rb_size b = ucast (rbm_chunk_size demo_rbm)" "rb_head_seq b = isn"
    by (auto simp: RBInit_def)
  moreover have "rb_stream S isn (rbm, b, [])"
    using RBInit_stream [OF init demo_rbm_OK(2)] demo_rbm_OK(4) by simp
  ultimately show ?thesis using demo_rbm_OK(3,4) by (auto simp: demo_start_def frag_available_def)
qed

theorem RBPut_adds_exactly_the_segment_witness:
  "\<exists>rbm b rbm' b'. RBInit True (\<lambda>_. replicate 16 0) demo_rbm 0xFFFFFFFE = Inr (Some b, rbm) \<and>
    RBPut None rbm b [7, 8, 9] 3 0 = Inr (3, rbm', b') \<and> rb_covered b' = {2..<5}"
proof -
  obtain b rbm where b: "RBInit True (\<lambda>_. replicate 16 0) demo_rbm 0xFFFFFFFE = Inr (Some b, rbm)"
    "rb_stream (\<lambda>_. 0) 0xFFFFFFFE (rbm, b, [])" "frag_available rbm" "rb_fctx b = []" "rb_size b = 16"
    "rb_head_seq b = 0xFFFFFFFE"
    using demo_start_OK [of "0xFFFFFFFE" "\<lambda>_. 0"] by auto
  then show ?thesis
    using RBPut_adds_exactly_the_segment [of b rbm "{}" 3 "[7, 8, 9]" 0 None]
    by (auto simp: rb_covered_def rb_spans_def)
qed

text \<open>C5. Whatever pieces of the sender's stream arrive, in any order, repeated or overlapping, and
  whatever the application reads in between, the bytes read so far are the stream's first bytes,
  in order and each once: also across the wrap of the 32-bit sequence space and after more than
  \<open>2 ^ 32\<close> bytes. No step of the run fails or leaves the buffer, and \<^verbatim>\<open>cum_len\<close> counts the
  contiguous bytes received.\<close>

theorem rb_reassembles_stream:
  assumes "RBInit True mem rbm isn = Inr (Some b, rbm')" and "frag_own rbm {}"
    and "length (mem (rb_data_ptr b)) = unat (rbm_chunk_size rbm)" and "unat (rbm_chunk_size rbm) < 2 ^ 31 - 1"
    and "rb_all_legal S isn ops (rbm', b, [])"
  shows "\<exists>rbm'' b'' out. rb_run S isn ops (rbm', b, []) = Inr (rbm'', b'', out) \<and>
    out = map S [0..<length out] \<and> rb_cum_len b'' = of_nat (length out + unat (rb_merged_len b''))"
proof -
  from rb_stream_run [OF RBInit_stream [OF assms(1-4)] assms(5)] obtain st where
    st: "rb_run S isn ops (rbm', b, []) = Inr st" "rb_stream S isn st" by blast
  obtain rbm'' b'' out where eq: "st = (rbm'', b'', out)" by (cases st)
  show ?thesis
    using st unfolding eq rb_stream.simps by blast
qed


lemma rb_legal_read [simp]: "rb_legal (ReadBytes k opt) st"
  by (cases st) simp

theorem rb_reassembles_stream_witness:
  "\<exists>b rbm rbm'' b'' out. RBInit True (\<lambda>_. replicate 16 0) demo_rbm 0xFFFFFFFE = Inr (Some b, rbm) \<and>
    rb_run of_nat 0xFFFFFFFE [Segment 0 3, ReadBytes 2 AT_APP, ReadBytes 9 AT_APP] (rbm, b, []) = Inr (rbm'', b'', out) \<and>
    out = map of_nat [0..<length out]"
proof -
  obtain b rbm where b: "RBInit True (\<lambda>_. replicate 16 0) demo_rbm 0xFFFFFFFE = Inr (Some b, rbm)" "frag_available rbm"
    using demo_start_OK [of "0xFFFFFFFE" of_nat] by auto
  have "rb_all_legal of_nat 0xFFFFFFFE [Segment 0 3, ReadBytes 2 AT_APP, ReadBytes 9 AT_APP] (rbm, b, [])"
    using b(2) by (simp split: sum.splits del: rb_step.simps)
  from rb_reassembles_stream [OF b(1) demo_rbm_OK(2) _ _ this] demo_rbm_OK(4) b(1) show ?thesis by auto
qed

text \<open>C34. A put with a sequence number exactly \<open>2 ^ 31\<close> away from \<^verbatim>\<open>head_seq\<close>, or with one just
  below that distance so that \<^verbatim>\<open>putx + len\<close> overflows the \<^verbatim>\<open>int\<close> \<^verbatim>\<open>end_off\<close>, passes
  both guards of \<^verbatim>\<open>RBPut\<close> and copies the segment outside the buffer. The guards alone do not make
  the operation safe; the window check of the caller must have excluded such segments.\<close>

theorem RBPut_guards_miss_half_space:
  assumes inv: "rb_inv b" and data: "data \<noteq> []" "length data < 2 ^ 16"
    and far: "cur_seq - rb_head_seq b = 0x7FFFFFFF \<or> cur_seq - rb_head_seq b = 0x80000000 \<and> cur_seq < rb_head_seq b"
  shows "RBPut calloc rbm b data (of_nat (length data)) cur_seq = Inl OutOfBounds"
proof -
  let ?len = "of_nat (length data) :: u32" and ?px = "cur_seq - rb_head_seq b"
  have len: "unat ?len = length data" using data(2) by (simp add: unat_of_nat)
  have ne: "?len \<noteq> 0" using len data(1) by auto
  have guard: "GetMinSeq (rb_head_seq b) cur_seq = rb_head_seq b"
  proof (cases "?px = 0x7FFFFFFF")
    case True
    then show ?thesis by (intro GetMinSeq_dist) simp
  next
    case False
    with far have *: "?px = 0x80000000" "cur_seq < rb_head_seq b" by auto
    have "rb_head_seq b - cur_seq = - ?px" by simp
    also have "\<dots> = 0x80000000" unfolding *(1) by simp
    finally show ?thesis using *(2) by (auto simp: GetMinSeq_def half_MAXSEQ)
  qed
  have px: "unat ?px = 2 ^ 31 - 1 \<or> unat ?px = 2 ^ 31" using far by (elim disjE conjE) simp_all
  have e: "unat (?px + ?len) = unat ?px + length data"
    using px len data(2) by (subst unat_add_small) auto
  have "sint (?px + ?len) < 0" using px data e by (subst sint_neg_iff) (auto simp: Suc_le_eq)
  moreover have "0 \<le> sint (rb_size b)" using inv by (intro sint_nonneg) (simp add: rb_inv_def)
  ultimately have size_ok: "\<not> sint (rb_size b) < sint (?px + ?len)" by linarith
  obtain b1 where room: "rb_make_room b (?px + ?len) = Inr b1" "length (rb_data b1) = unat (rb_size b)"
      "rb_head b1 \<le> unat (rb_size b)"
    using inv by (cases "rb_size b \<le> rb_head_offset b + (?px + ?len)")
      (auto simp: rb_make_room_def memmove_def rb_inv_def size_of_int_nonneg)
  have sz: "unat (rb_size b) < 2 ^ 31 - 1" using inv by (simp add: rb_inv_def)
  have "copy_in (rb_data b1) (rb_head b1) ?px data ?len = Inl OutOfBounds"
  proof (cases "unat ?px = 2 ^ 31")
    case True
    then have "sint ?px = - (2 ^ 31)" by (simp add: sint_eq_unat)
    then show ?thesis using room sz by (simp add: copy_in_def)
  next
    case False
    then have "unat ?px = 2 ^ 31 - 1" using px by simp
    moreover from this have "sint ?px = 2 ^ 31 - 1" by (simp add: sint_eq_unat)
    ultimately show ?thesis using room sz len data by (simp add: copy_in_def memcpy_def)
  qed
  then have "rb_store b1 data ?len ?px (?px + ?len) = Inl OutOfBounds" by (simp add: rb_store_def)
  then show ?thesis using ne guard size_ok room(1) by (simp add: RBPut_def Let_def)
qed

theorem RBPut_guards_miss_half_space_witness:
  "\<exists>b rbm. RBInit True (\<lambda>_. replicate 16 0) demo_rbm 0 = Inr (Some b, rbm) \<and>
    RBPut None rbm b [7] 1 0x7FFFFFFF = Inl OutOfBounds"
proof -
  obtain b rbm where b: "RBInit True (\<lambda>_. replicate 16 0) demo_rbm 0 = Inr (Some b, rbm)"
    "rb_stream (\<lambda>_. 0) 0 (rbm, b, [])" "rb_head_seq b = 0"
    using demo_start_OK [of 0 "\<lambda>_. 0"] by auto
  then show ?thesis
    using RBPut_guards_miss_half_space [of b "[7]" "0x7FFFFFFF" None rbm] by simp
qed

text \<open>C35. A fragment node that \<^verbatim>\<open>AllocateFragmentContext\<close> had to take from \<^verbatim>\<open>calloc\<close> is returned with
  \<^verbatim>\<open>is_calloc\<close> cleared by the final \<^verbatim>\<open>memset\<close>, so \<^verbatim>\<open>FreeFragmentContextSingle\<close> never
  frees it: it fails the pool's alignment assertion or chains the foreign node into the pool, which
  then hands out a chunk outside its block.\<close>

theorem calloc_fragment_enters_pool:
  assumes "click_inv (rbm_free_fragq rbm)" "click_content (rbm_free_fragq rbm) = []"
    and "click_inv (rbm_free_fragq_int rbm)" "click_content (rbm_free_fragq_int rbm) = []"
    and "mp_free_chunks (rbm_frag_mp rbm) = 0"
    and alloc: "AllocateFragmentContext (Some p) rbm = Inr (frag, rbm1)"
  shows "fc_ptr frag = p \<and> \<not> fc_is_calloc frag \<and>
    (FreeFragmentContextSingle rbm1 frag = Inl AssertFail \<or>
     (\<exists>rbm2 mp. FreeFragmentContextSingle rbm1 frag = Inr rbm2 \<and>
       MPAllocateChunk (rbm_frag_mp rbm2) = Inr (Some p, mp)))"
proof -
  have "AllocateFragmentContext (Some p) rbm = Inr (zeroed_at p, rbm)"
    using assms(1-5) click_dequeue_empty [of "rbm_free_fragq rbm"] click_dequeue_empty [of "rbm_free_fragq_int rbm"]
    by (simp add: AllocateFragmentContext_def RBFragDequeue_def MPAllocateChunk_def zeroed_at_def)
  with alloc have "frag = zeroed_at p" "rbm1 = rbm" by simp_all
  then show ?thesis
    using assms(5) by (auto simp: FreeFragmentContextSingle_def MPFreeChunk_def MPAllocateChunk_def
        put_header_def zeroed_at_def Let_def)
qed

theorem calloc_fragment_enters_pool_witness:
  "\<exists>mp :: mem_pool. mp_free_chunks mp = 0 \<and>
    (let rbm = demo_rbm \<lparr> rbm_frag_mp := mp \<rparr> in
     \<exists>frag rbm1. AllocateFragmentContext (Some 77777) rbm = Inr (frag, rbm1) \<and>
       fc_ptr frag = 77777 \<and> \<not> fc_is_calloc frag \<and>
       (FreeFragmentContextSingle rbm1 frag = Inl AssertFail \<or>
        (\<exists>rbm2 mp. FreeFragmentContextSingle rbm1 frag = Inr rbm2 \<and>
          MPAllocateChunk (rbm_frag_mp rbm2) = Inr (Some 77777, mp))))"
proof -
  define mp where "mp = (rbm_frag_mp demo_rbm) \<lparr> mp_free_chunks := 0 \<rparr>"
  define rbm where "rbm = demo_rbm \<lparr> rbm_frag_mp := mp \<rparr>"
  have q: "click_inv (rbm_free_fragq rbm)" "click_inv (rbm_free_fragq_int rbm)"
    using demo_rbm_OK(2) by (auto simp: frag_own_def rbm_def)
  have e: "click_content (rbm_free_fragq rbm) = []" "click_content (rbm_free_fragq_int rbm) = []"
    using demo_rbm_OK(6,7) by (simp_all add: rbm_def)
  have z: "mp_free_chunks (rbm_frag_mp rbm) = 0" by (simp add: rbm_def mp_def)
  obtain frag rbm1 where a: "AllocateFragmentContext (Some 77777) rbm = Inr (frag, rbm1)"
    using q e z click_dequeue_empty [of "rbm_free_fragq rbm"] click_dequeue_empty [of "rbm_free_fragq_int rbm"]
    by (auto simp: AllocateFragmentContext_def RBFragDequeue_def MPAllocateChunk_def)
  from calloc_fragment_enters_pool [OF q(1) e(1) q(2) e(2) z a] a show ?thesis
    unfolding Let_def by (intro exI [of _ mp] conjI) (auto simp: mp_def rbm_def)
qed

end
