(* ===== verification/SendBuffer.thy ===== *)
theory SendBuffer
  imports ClickQueue MemPool
begin

text \<open>
  The send buffer of \<^verbatim>\<open>tcp_send_buffer.c\<close>: a byte queue in one array, filled by the application
  and drained as bytes are acknowledged. The locale \<open>byte_queue\<close> is its contract over the list of
  buffered bytes; its client theorem says that after any sequence of puts and removes the buffer
  holds the accepted bytes that have not been removed, in order, and that \<^verbatim>\<open>head_seq\<close> is the
  sequence number of the first of them.
\<close>

section \<open>State\<close>

record tcp_send_buffer =
  sb_data_ptr :: addr
  sb_data :: "u8 list"
  sb_head :: nat
  sb_head_off :: u32
  sb_tail_off :: u32
  sb_len :: u32
  sb_cum_len :: u64
  sb_size :: u32
  sb_head_seq :: u32
  sb_init_seq :: u32

record sb_manager =
  sbm_chunk_size :: u64
  sbm_cur_num :: u32
  sbm_cnum :: u32
  sbm_mp :: mem_pool
  sbm_freeq :: "tcp_send_buffer click_queue"

definition SBGetCurnum :: "sb_manager \<Rightarrow> u32" where
  "SBGetCurnum sbm = sbm_cur_num sbm"

section \<open>Operations\<close>

record sbm_env =
  env_sbm_ok :: bool
  env_sb_mp :: "bool \<times> addr option \<times> (addr \<Rightarrow> mem_chunk)"
  env_sbq :: "bool \<times> bool"

definition SBManagerCreate :: "sbm_env \<Rightarrow> u64 \<Rightarrow> u32 \<Rightarrow> sb_manager option c_result" where
  "SBManagerCreate env chunk_size cnum =
    (if \<not> env_sbm_ok env then Inr None
     else case (case env_sb_mp env of (ok, start, mem) \<Rightarrow>
                  MPCreate ok start mem (ucast chunk_size) (chunk_size * ucast cnum)) of
       Inl e \<Rightarrow> Inl e | Inr None \<Rightarrow> Inr None
     | Inr (Some mp) \<Rightarrow>
       (case CreateSBQueue (fst (env_sbq env)) (snd (env_sbq env)) cnum of
          None \<Rightarrow> Inr None
        | Some q \<Rightarrow> Inr (Some \<lparr> sbm_chunk_size = chunk_size, sbm_cur_num = 0, sbm_cnum = cnum,
            sbm_mp = mp, sbm_freeq = q \<rparr>)))"

text \<open>The fields that \<^verbatim>\<open>SBInit\<close> sets on a recycled or a fresh buffer.\<close>

definition sb_reset :: "sb_manager \<Rightarrow> u32 \<Rightarrow> tcp_send_buffer \<Rightarrow> tcp_send_buffer" where
  "sb_reset sbm init_seq buf = buf \<lparr> sb_head := 0, sb_head_off := 0, sb_tail_off := 0, sb_len := 0,
     sb_cum_len := 0, sb_size := ucast (sbm_chunk_size sbm), sb_init_seq := init_seq, sb_head_seq := init_seq \<rparr>"

definition SBInit :: "bool \<Rightarrow> (addr \<Rightarrow> u8 list) \<Rightarrow> sb_manager \<Rightarrow> u32 \<Rightarrow>
    (tcp_send_buffer option \<times> sb_manager) c_result" where
  "SBInit malloc_ok mem sbm init_seq =
    (case SBDequeue (sbm_freeq sbm) of Inl e \<Rightarrow> Inl e
     | Inr (Some buf, q) \<Rightarrow> Inr (Some (sb_reset sbm init_seq buf), sbm \<lparr> sbm_freeq := q \<rparr>)
     | Inr (None, q) \<Rightarrow>
       let sbm1 = sbm \<lparr> sbm_freeq := q \<rparr> in
       if \<not> malloc_ok then Inr (None, sbm1)
       else case MPAllocateChunk (sbm_mp sbm1) of Inl e \<Rightarrow> Inl e
       | Inr (None, mp) \<Rightarrow> Inr (None, sbm1 \<lparr> sbm_mp := mp \<rparr>)
       | Inr (Some p, mp) \<Rightarrow>
           let fresh = \<lparr> sb_data_ptr = p, sb_data = mem p, sb_head = 0, sb_head_off = 0, sb_tail_off = 0,
                 sb_len = 0, sb_cum_len = 0, sb_size = 0, sb_head_seq = 0, sb_init_seq = 0 \<rparr> in
           Inr (Some (sb_reset sbm init_seq fresh),
                sbm1 \<lparr> sbm_mp := mp, sbm_cur_num := sbm_cur_num sbm1 + 1 \<rparr>))"

definition SBFree :: "sb_manager \<Rightarrow> tcp_send_buffer option \<Rightarrow> sb_manager c_result" where
  "SBFree sbm p =
    (case p of None \<Rightarrow> Inr sbm
     | Some buf \<Rightarrow>
       (case SBEnqueue (sbm_freeq sbm) (Some buf) of Inl e \<Rightarrow> Inl e
        | Inr (_, q) \<Rightarrow> Inr (sbm \<lparr> sbm_freeq := q \<rparr>)))"

text \<open>\<^verbatim>\<open>len\<close> is a 64-bit \<^verbatim>\<open>size_t\<close>; the returned \<open>-2\<close> is \<open>2 ^ 64 - 2\<close>.\<close>

definition SBPut :: "tcp_send_buffer \<Rightarrow> u8 list \<Rightarrow> u64 \<Rightarrow> (u64 \<times> tcp_send_buffer) c_result" where
  "SBPut buf data len =
    (if len = 0 then Inr (0, buf)
     else
       let space = ucast (sb_size buf - sb_len buf) :: u64;
           to_put = (if len < space then len else space) in
       if to_put = 0 then Inr (- 2, buf)
       else
         case (if ucast (sb_tail_off buf) + to_put < ucast (sb_size buf)
               then (case memcpy (sb_data buf) (unat (sb_tail_off buf)) data (unat to_put) of
                       Inl e \<Rightarrow> Inl e
                     | Inr d \<Rightarrow> Inr (buf \<lparr> sb_data := d, sb_tail_off := sb_tail_off buf + ucast to_put \<rparr>))
               else (case memmove (sb_data buf) 0 (sb_head buf) (unat (sb_len buf)) of
                       Inl e \<Rightarrow> Inl e
                     | Inr d \<Rightarrow>
                       (case memcpy d (0 + unat (sb_len buf)) data (unat to_put) of
                          Inl e \<Rightarrow> Inl e
                        | Inr d' \<Rightarrow> Inr (buf \<lparr> sb_data := d', sb_head := 0, sb_head_off := 0,
                            sb_tail_off := sb_len buf + ucast to_put \<rparr>)))) of
           Inl e \<Rightarrow> Inl e
         | Inr b1 \<Rightarrow> Inr (to_put, b1 \<lparr> sb_len := sb_len b1 + ucast to_put,
             sb_cum_len := sb_cum_len b1 + to_put \<rparr>))"

definition SBRemove :: "tcp_send_buffer \<Rightarrow> u64 \<Rightarrow> u64 \<times> tcp_send_buffer" where
  "SBRemove buf len =
    (if len = 0 then (0, buf)
     else
       let to_remove = (if len < ucast (sb_len buf) then len else ucast (sb_len buf)) in
       if to_remove = 0 then (- 2, buf)
       else
         let head_off = sb_head_off buf + ucast to_remove;
             b1 = buf \<lparr> sb_head_off := head_off, sb_head := unat head_off,
                        sb_head_seq := sb_head_seq buf + ucast to_remove,
                        sb_len := sb_len buf - ucast to_remove \<rparr> in
         (to_remove,
          if sb_len b1 = 0 \<and> 0 < sb_head_off b1
          then b1 \<lparr> sb_head := 0, sb_head_off := 0, sb_tail_off := 0 \<rparr> else b1))"

section \<open>The contract of a byte queue\<close>

datatype bq_op = BPut "u8 list" | BRemove u64

text \<open>Running puts and removes; the last two components are all bytes accepted and the number of
  bytes removed so far.\<close>

fun bq_run :: "('b \<Rightarrow> u8 list \<Rightarrow> u64 \<Rightarrow> (u64 \<times> 'b) c_result) \<Rightarrow> ('b \<Rightarrow> u64 \<Rightarrow> u64 \<times> 'b) \<Rightarrow>
    bq_op list \<Rightarrow> 'b \<times> u8 list \<times> nat \<Rightarrow> ('b \<times> u8 list \<times> nat) c_result" where
  "bq_run put remove [] st = Inr st"
| "bq_run put remove (BPut data # ops) (b, acc, gone) =
    (case put b data (of_nat (length data)) of Inl e \<Rightarrow> Inl e
     | Inr (r, b') \<Rightarrow> bq_run put remove ops
         (b', acc @ (if r = - 2 then [] else take (unat r) data), gone))"
| "bq_run put remove (BRemove n # ops) (b, acc, gone) =
    (case remove b n of (r, b') \<Rightarrow> bq_run put remove ops (b', acc, gone + (if r = - 2 then 0 else unat r)))"

lemma unat_of_nat_small: "k \<le> n \<Longrightarrow> n < 2 ^ 32 \<Longrightarrow> unat (of_nat k :: u64) = k \<and> (of_nat k :: u64) \<noteq> - 2"
  by (auto simp: unat_of_nat word_unat_eq_iff)

locale byte_queue =
  fixes put :: "'b \<Rightarrow> u8 list \<Rightarrow> u64 \<Rightarrow> (u64 \<times> 'b) c_result"
    and remove :: "'b \<Rightarrow> u64 \<Rightarrow> u64 \<times> 'b"
    and inv :: "'b \<Rightarrow> bool"
    and content :: "'b \<Rightarrow> u8 list"
    and cap :: "'b \<Rightarrow> nat"
    and seq :: "'b \<Rightarrow> u32"
  assumes put_ok: "inv b \<Longrightarrow> unat len \<le> length data \<Longrightarrow>
      \<exists>r b'. put b data len = Inr (r, b') \<and> inv b' \<and> cap b' = cap b \<and> seq b' = seq b \<and>
        (let n = min (unat len) (cap b - length (content b)) in
         content b' = content b @ take n data \<and>
         r = (if len \<noteq> 0 \<and> length (content b) = cap b then - 2 else of_nat n))"
    and remove_ok: "inv b \<Longrightarrow>
      (let (r, b') = remove b n; k = min (unat n) (length (content b)) in
       inv b' \<and> cap b' = cap b \<and> content b' = drop k (content b) \<and> seq b' = seq b + of_nat k \<and>
       r = (if n \<noteq> 0 \<and> content b = [] then - 2 else of_nat k))"
    and content_le: "inv b \<Longrightarrow> length (content b) \<le> cap b"
    and cap_small: "inv b \<Longrightarrow> cap b < 2 ^ 32"
begin

definition bq_state :: "u32 \<Rightarrow> nat \<Rightarrow> 'b \<times> u8 list \<times> nat \<Rightarrow> bool" where
  "bq_state isn c st = (case st of (b, acc, gone) \<Rightarrow>
     inv b \<and> cap b = c \<and> gone \<le> length acc \<and> content b = drop gone acc \<and> seq b = isn + of_nat gone)"

lemma bq_state_put:
  assumes st: "bq_state isn c (b, acc, gone)" and len: "length data < 2 ^ 64"
  shows "\<exists>r b'. put b data (of_nat (length data)) = Inr (r, b') \<and>
    bq_state isn c (b', acc @ (if r = - 2 then [] else take (unat r) data), gone)"
proof -
  let ?n = "min (length data) (cap b - length (content b))"
  have inv: "inv b" and gone: "gone \<le> length acc" "content b = drop gone acc" using st by (auto simp: bq_state_def)
  have u: "unat (of_nat (length data) :: u64) = length data" using len by (simp add: unat_of_nat)
  obtain r b' where put: "put b data (of_nat (length data)) = Inr (r, b')" "inv b'" "cap b' = cap b" "seq b' = seq b"
      "content b' = content b @ take ?n data"
      "r = (if (of_nat (length data) :: u64) \<noteq> 0 \<and> length (content b) = cap b then - 2 else of_nat ?n)"
    using put_ok [OF inv, of "of_nat (length data)" data] u by (auto simp: Let_def)
  have n: "unat (of_nat ?n :: u64) = ?n \<and> (of_nat ?n :: u64) \<noteq> - 2"
    using cap_small [OF inv] by (intro unat_of_nat_small [of _ "cap b"]) auto
  have "take (unat r) data = take ?n data" if "r \<noteq> - 2" using that put(6) n by (auto split: if_splits)
  moreover have "take ?n data = []" if "r = - 2" using that put(6) n by (auto split: if_splits)
  ultimately show ?thesis using put st gone by (auto simp: bq_state_def)
qed

lemma bq_state_remove:
  assumes st: "bq_state isn c (b, acc, gone)"
  shows "\<exists>r b'. remove b n = (r, b') \<and> bq_state isn c (b', acc, gone + (if r = - 2 then 0 else unat r))"
proof -
  let ?k = "min (unat n) (length (content b))"
  have inv: "inv b" and gone: "gone \<le> length acc" "content b = drop gone acc" and seq: "seq b = isn + of_nat gone"
    using st by (auto simp: bq_state_def)
  obtain r b' where rm: "remove b n = (r, b')" by fastforce
  then have b': "inv b'" "cap b' = cap b" "content b' = drop ?k (content b)" "seq b' = seq b + of_nat ?k"
      "r = (if n \<noteq> 0 \<and> content b = [] then - 2 else of_nat ?k)"
    using remove_ok [OF inv, of n] by (auto simp: Let_def)
  have k: "unat (of_nat ?k :: u64) = ?k \<and> (of_nat ?k :: u64) \<noteq> - 2"
    using cap_small [OF inv] content_le [OF inv] by (intro unat_of_nat_small [of _ "cap b"]) auto
  have amount: "(if r = - 2 then 0 else unat r) = ?k" using b'(5) k by (auto split: if_splits)
  have "gone + ?k \<le> length acc" using gone by simp
  moreover have "content b' = drop (gone + ?k) acc" unfolding b'(3) gone(2) drop_drop by (simp only: add.commute)
  moreover have "seq b' = isn + of_nat (gone + ?k)" unfolding b'(4) seq by simp
  ultimately have "bq_state isn c (b', acc, gone + ?k)" using b'(1,2) st by (simp add: bq_state_def)
  with rm amount show ?thesis by auto
qed

lemma bq_run_ok:
  assumes "bq_state isn c st" "\<forall>data. BPut data \<in> set ops \<longrightarrow> length data < 2 ^ 64"
  shows "\<exists>st'. bq_run put remove ops st = Inr st' \<and> bq_state isn c st'"
  using assms
proof (induction ops arbitrary: st)
  case (Cons op ops)
  obtain b acc gone where st: "st = (b, acc, gone)" by (cases st)
  show ?case
  proof (cases op)
    case (BPut data)
    with Cons.prems bq_state_put [of isn c b acc gone data] obtain r b' where
      "put b data (of_nat (length data)) = Inr (r, b')"
      "bq_state isn c (b', acc @ (if r = - 2 then [] else take (unat r) data), gone)" unfolding st by auto
    with Cons.IH Cons.prems(2) show ?thesis unfolding st BPut by simp
  next
    case (BRemove n)
    with Cons.prems bq_state_remove [of isn c b acc gone n] obtain r b' where
      "remove b n = (r, b')" "bq_state isn c (b', acc, gone + (if r = - 2 then 0 else unat r))" unfolding st by auto
    with Cons.IH Cons.prems(2) show ?thesis unfolding st BRemove by simp
  qed
qed simp

end

section \<open>The send buffer meets the contract\<close>

definition sb_inv :: "tcp_send_buffer \<Rightarrow> bool" where
  "sb_inv b \<longleftrightarrow> length (sb_data b) = unat (sb_size b) \<and> sb_head b = unat (sb_head_off b) \<and>
    unat (sb_tail_off b) = unat (sb_head_off b) + unat (sb_len b) \<and> unat (sb_tail_off b) \<le> unat (sb_size b)"

definition sb_content :: "tcp_send_buffer \<Rightarrow> u8 list" where
  "sb_content b = slice (sb_head b) (unat (sb_len b)) (sb_data b)"

definition sb_cap :: "tcp_send_buffer \<Rightarrow> nat" where
  "sb_cap b = unat (sb_size b)"

lemma unat_ucast_up: "unat (ucast (w :: u32) :: u64) = unat w"
  using unat_lt_2p32 [of w] by (simp add: unsigned_ucast_eq unsigned_take_bit_eq take_bit_eq_mod)

lemma unat_ucast_down: "unat (w :: u64) < 2 ^ 32 \<Longrightarrow> unat (ucast w :: u32) = unat w"
  by (simp add: unsigned_ucast_eq unsigned_take_bit_eq take_bit_eq_mod)

lemma sb_bounds: "sb_inv b \<Longrightarrow> sb_head b + unat (sb_len b) \<le> length (sb_data b) \<and> unat (sb_len b) \<le> unat (sb_size b)"
  by (auto simp: sb_inv_def)

lemma length_sb_content: "sb_inv b \<Longrightarrow> length (sb_content b) = unat (sb_len b)"
  using sb_bounds [of b] by (simp add: sb_content_def)

lemma slice_memcpy_end:
  assumes "memcpy d (h + l) src n = Inr d'"
  shows "slice h (l + n) d' = slice h l d @ take n src"
proof -
  have b: "n \<le> length src" "h + l + n \<le> length d" using assms by (auto simp: memcpy_def split: if_splits)
  show ?thesis
  proof (rule slice_eqI)
    show "h + (l + n) \<le> length d'" using b memcpy_length [OF assms] by simp
    show "length (slice h l d @ take n src) = l + n" using b by simp
    fix i assume "i < l + n"
    then show "d' ! (h + i) = (slice h l d @ take n src) ! i"
      using b memcpy_nth [OF assms, of "h + i"] by (auto simp: nth_append)
  qed
qed

lemma slice_memmove:
  assumes "memmove d 0 h l = Inr d'"
  shows "slice 0 l d' = slice h l d"
proof -
  have "h + l \<le> length d" using assms by (auto simp: memmove_def split: if_splits)
  then show ?thesis
    using memmove_nth [OF assms] memmove_length [OF assms] by (intro slice_eqI) auto
qed

lemma SBPut_OK:
  assumes inv: "sb_inv b" and len: "unat len \<le> length data"
  shows "\<exists>r b'. SBPut b data len = Inr (r, b') \<and> sb_inv b' \<and> sb_cap b' = sb_cap b \<and> sb_head_seq b' = sb_head_seq b \<and>
    (let n = min (unat len) (sb_cap b - length (sb_content b)) in
     sb_content b' = sb_content b @ take n data \<and>
     r = (if len \<noteq> 0 \<and> length (sb_content b) = sb_cap b then - 2 else of_nat n))"
proof -
  let ?l = "unat (sb_len b)" and ?s = "unat (sb_size b)" and ?t = "unat (sb_tail_off b)"
  define space where "space = (ucast (sb_size b - sb_len b) :: u64)"
  define to_put where "to_put = (if len < space then len else space)"
  define n where "n = min (unat len) (?s - ?l)"
  have le: "?l \<le> ?s" "?t \<le> ?s" "?s < 2 ^ 32" "sb_head b + ?l = ?t" "length (sb_data b) = ?s"
    using inv unat_lt_2p32 [of "sb_size b"] by (auto simp: sb_inv_def)
  have "unat space = ?s - ?l" using le(1) by (simp add: space_def unat_ucast_up unat_sub word_le_nat_alt)
  then have n: "unat to_put = n" by (auto simp: to_put_def n_def word_less_nat_alt)
  then have r: "to_put = of_nat n" by (metis of_nat_unat ucast_id)
  have nb: "n \<le> unat len" "?l + n \<le> ?s" "n < 2 ^ 32" using le by (auto simp: n_def)
  have n32: "unat (ucast to_put :: u32) = n" using n nb by (simp add: unat_ucast_down)
  have lc: "length (sb_content b) = ?l" using inv by (rule length_sb_content)
  have len': "unat (sb_len b + ucast to_put) = ?l + n" using n32 nb le by (simp add: unat_add_small)
  have fits: "ucast (sb_tail_off b) + to_put < (ucast (sb_size b) :: u64) \<longleftrightarrow> ?t + n < ?s"
    using n nb le by (simp add: word_less_nat_alt unat_word_ariths unat_ucast_up)
  show ?thesis
  proof (cases "len = 0 \<or> to_put = 0")
    case True
    then have z: "n = 0" using n by (auto simp: n_def)
    have full: "?l = ?s" if "len \<noteq> 0" using that z le by (auto simp: n_def min_def unat_eq_zero split: if_splits)
    have "SBPut b data len = Inr (if len = 0 then 0 else - 2, b)"
      using True z n by (auto simp: SBPut_def Let_def space_def [symmetric] to_put_def [symmetric])
    then show ?thesis using inv z full lc unfolding sb_cap_def n_def [symmetric] Let_def by (auto simp: n_def [symmetric])
  next
    case False
    then have pos: "0 < n" using n by (metis gr0I unat_eq_zero)
    then have notfull: "?l \<noteq> ?s" by (auto simp: n_def)
    show ?thesis
    proof (cases "?t + n < ?s")
      case True
      obtain d where d: "memcpy (sb_data b) ?t data n = Inr d" using True nb len le by (auto simp: memcpy_def)
      let ?b = "b \<lparr> sb_data := d, sb_tail_off := sb_tail_off b + ucast to_put, sb_len := sb_len b + ucast to_put,
        sb_cum_len := sb_cum_len b + to_put \<rparr>"
      have "SBPut b data len = Inr (to_put, ?b)"
        using False True d n fits by (simp add: SBPut_def Let_def space_def [symmetric] to_put_def [symmetric])
      moreover have "sb_content ?b = sb_content b @ take n data"
        using slice_memcpy_end [of "sb_data b" "sb_head b" ?l data n d] d le len' by (simp add: sb_content_def)
      moreover have "sb_inv ?b"
        using inv len' n32 True memcpy_length [OF d] le nb by (simp add: sb_inv_def unat_add_small)
      ultimately show ?thesis using r notfull lc n_def by (auto simp: sb_cap_def Let_def)
    next
      case no: False
      obtain d where d: "memmove (sb_data b) 0 (sb_head b) ?l = Inr d" using le by (auto simp: memmove_def)
      obtain d' where d': "memcpy d (0 + ?l) data n = Inr d'"
        using nb len le memmove_length [OF d] by (auto simp: memcpy_def)
      let ?b = "b \<lparr> sb_data := d', sb_head := 0, sb_head_off := 0, sb_tail_off := sb_len b + ucast to_put,
        sb_len := sb_len b + ucast to_put, sb_cum_len := sb_cum_len b + to_put \<rparr>"
      have "SBPut b data len = Inr (to_put, ?b)"
        using False no d d' n fits by (simp add: SBPut_def Let_def space_def [symmetric] to_put_def [symmetric])
      moreover have "sb_content ?b = sb_content b @ take n data"
        using slice_memcpy_end [OF d'] slice_memmove [OF d] len' by (simp add: sb_content_def)
      moreover have "sb_inv ?b"
        using inv len' memmove_length [OF d] memcpy_length [OF d'] le nb by (simp add: sb_inv_def)
      ultimately show ?thesis using r notfull lc n_def by (auto simp: sb_cap_def Let_def)
    qed
  qed
qed

lemma SBRemove_OK:
  assumes inv: "sb_inv b"
  shows "let (r, b') = SBRemove b n; k = min (unat n) (length (sb_content b)) in
    sb_inv b' \<and> sb_cap b' = sb_cap b \<and> sb_content b' = drop k (sb_content b) \<and>
    sb_head_seq b' = sb_head_seq b + of_nat k \<and> r = (if n \<noteq> 0 \<and> sb_content b = [] then - 2 else of_nat k)"
proof -
  let ?l = "unat (sb_len b)"
  define rm where "rm = (if n < ucast (sb_len b) then n else ucast (sb_len b) :: u64)"
  define k where "k = min (unat n) ?l"
  have lc: "length (sb_content b) = ?l" using inv by (rule length_sb_content)
  have k: "unat rm = k" by (auto simp: rm_def k_def word_less_nat_alt unat_ucast_up)
  then have r: "rm = of_nat k" by (metis of_nat_unat ucast_id)
  have kl: "k \<le> ?l" by (simp add: k_def)
  have k32: "unat (ucast rm :: u32) = k" using k kl unat_lt_2p32 [of "sb_len b"] by (simp add: unat_ucast_down)
  then have w: "(ucast rm :: u32) = of_nat k" by (metis of_nat_unat ucast_id)
  have empty: "sb_content b = [] \<longleftrightarrow> ?l = 0" using lc by (metis length_0_conv)
  show ?thesis
  proof (cases "n = 0 \<or> rm = 0")
    case True
    then have z: "k = 0" using k by (auto simp: k_def)
    have "SBRemove b n = (if n = 0 then 0 else - 2, b)"
      using True by (auto simp: SBRemove_def Let_def rm_def [symmetric])
    moreover have "?l = 0" if "n \<noteq> 0" using that z by (auto simp: k_def min_def unat_eq_zero split: if_splits)
    ultimately show ?thesis using inv z lc empty by (auto simp: Let_def k_def [symmetric])
  next
    case False
    then have pos: "0 < k" using k by (metis gr0I unat_eq_zero)
    have ho: "unat (sb_head_off b + of_nat k) = unat (sb_head_off b) + k"
      using inv kl k32 w unat_lt_2p32 [of "sb_size b"] by (intro trans [OF unat_add_small]) (auto simp: sb_inv_def)
    have l': "unat (sb_len b - of_nat k) = ?l - k" using kl k32 w by (simp add: unat_sub word_le_nat_alt)
    define b1 where "b1 = b \<lparr> sb_head_off := sb_head_off b + of_nat k, sb_head := unat (sb_head_off b + of_nat k),
      sb_head_seq := sb_head_seq b + of_nat k, sb_len := sb_len b - of_nat k \<rparr>"
    define b2 where "b2 = (if sb_len b1 = 0 \<and> 0 < sb_head_off b1
      then b1 \<lparr> sb_head := 0, sb_head_off := 0, sb_tail_off := 0 \<rparr> else b1)"
    have eq: "SBRemove b n = (rm, b2)"
      using False by (simp add: SBRemove_def Let_def rm_def [symmetric] w b1_def b2_def)
    have inv1: "sb_inv b1" using inv ho l' kl by (simp add: sb_inv_def b1_def)
    have c1: "sb_content b1 = drop k (sb_content b)"
      using inv ho l' by (simp add: sb_content_def b1_def sb_inv_def slice_def drop_take add.commute)
    have "sb_inv b2" using inv1 by (auto simp: b2_def sb_inv_def)
    moreover have "sb_content b2 = drop k (sb_content b)"
      using c1 inv1 by (auto simp: b2_def sb_content_def slice_def)
    moreover have "?l \<noteq> 0" using pos kl by simp
    ultimately show ?thesis
      using eq lc r empty by (auto simp: Let_def k_def [symmetric] b2_def b1_def sb_cap_def)
  qed
qed

lemma sb_content_le: "sb_inv b \<Longrightarrow> length (sb_content b) \<le> sb_cap b"
  using sb_bounds [of b] by (simp add: length_sb_content sb_cap_def)

lemma sb_cap_small: "sb_cap b < 2 ^ 32"
  unfolding sb_cap_def by (rule unat_lt_2p32)

interpretation sb: byte_queue SBPut SBRemove sb_inv sb_content sb_cap sb_head_seq
  by unfold_locales (rule sb_cap_small | rule SBPut_OK SBRemove_OK sb_content_le, assumption+)+

section \<open>Properties\<close>

lemma SBInit_OK:
  assumes "SBInit True mem sbm isn = Inr (Some b, sbm')" and "unat (sbm_chunk_size sbm) < 2 ^ 32"
    and "click_inv (sbm_freeq sbm)"
    and "\<forall>b\<in>set (click_content (sbm_freeq sbm)). length (sb_data b) = unat (sbm_chunk_size sbm)"
    and "\<forall>p. length (mem p) = unat (sbm_chunk_size sbm)"
  shows "sb_inv b" and "sb_content b = []" and "sb_cap b = unat (sbm_chunk_size sbm)" and "sb_head_seq b = isn"
proof -
  have "\<exists>b0. b = sb_reset sbm isn b0 \<and> length (sb_data b0) = unat (sbm_chunk_size sbm)"
  proof (cases "click_content (sbm_freeq sbm)")
    case Nil
    with assms click_dequeue_empty [OF assms(3)] show ?thesis
      by (auto simp: SBInit_def SBDequeue_def Let_def split: sum.splits option.splits prod.splits)
  next
    case (Cons b0 bs)
    with assms click_dequeue_cons [OF assms(3) Cons] show ?thesis
      by (auto simp: SBInit_def SBDequeue_def)
  qed
  then obtain b0 where b: "b = sb_reset sbm isn b0" "length (sb_data b0) = unat (sbm_chunk_size sbm)" by blast
  then show "sb_inv b" "sb_content b = []" "sb_cap b = unat (sbm_chunk_size sbm)" "sb_head_seq b = isn"
    using assms(2) by (simp_all add: sb_reset_def sb_inv_def sb_content_def slice_def sb_cap_def unat_ucast_down)
qed


definition demo_sbm :: sb_manager where
  "demo_sbm = \<lparr> sbm_chunk_size = 16, sbm_cur_num = 0, sbm_cnum = 1,
     sbm_mp = \<lparr> mp_startptr = 4096, mp_freeptr = Some 4096, mp_free_chunks = 1, mp_total_chunks = 1,
       mp_chunk_size = 16, mp_mem = \<lambda>_. \<lparr> mc_free_chunks = 1, mc_next = None \<rparr> \<rparr>,
     sbm_freeq = \<lparr> q_capacity = 1, q_head = 0, q_tail = 0, q_slots = [None, None] \<rparr> \<rparr>"


end
