(* ===== verification/Rss.thy ===== *)
theory Rss
  imports Prelude
begin

text \<open>
  Receive-side scaling in software (\<^verbatim>\<open>rss.c\<close>): the hash that predicts which core the network card
  delivers a connection's packets to. \<open>GetRSSHash\<close> is the source's loop over a precomputed key cache;
  \<open>toeplitz\<close> is the card's specification, the exclusive or of the key's 32-bit windows at the set
  bits of the input. The main result is that the two agree.
\<close>

section \<open>The source\<close>

definition rss_key :: "u8 list" where
  "rss_key = [0x6D, 0x5A, 0x56, 0xDA, 0x25, 0x5B, 0x0E, 0xC2,
    0x41, 0x67, 0x25, 0x3D, 0x43, 0xA3, 0x8F, 0xB0,
    0xD0, 0xCA, 0x2B, 0xCB, 0xAE, 0x7B, 0x30, 0xB4,
    0x77, 0xCB, 0x2D, 0xA3, 0x80, 0x30, 0xF2, 0x0C,
    0x6A, 0x42, 0xB7, 0x3B, 0xBE, 0xAC, 0x01, 0xFA]"

fun key_cache_loop :: "nat \<Rightarrow> nat \<Rightarrow> u32 \<Rightarrow> u32 list" where
  "key_cache_loop 0 idx result = []"
| "key_cache_loop (Suc n) idx result =
    (let b = (if push_bit (idx mod 8) (ucast (rss_key ! (idx div 8)) :: u32) AND 0x80 \<noteq> 0 then 1 else 0) in
     result # key_cache_loop n (Suc idx) (push_bit 1 result OR b))"

definition BuildKeyCache :: "nat \<Rightarrow> u32 list" where
  "BuildKeyCache cache_len = key_cache_loop cache_len 32
    (push_bit 24 (ucast (rss_key ! 0)) OR push_bit 16 (ucast (rss_key ! 1))
     OR push_bit 8 (ucast (rss_key ! 2)) OR ucast (rss_key ! 3))"

definition KEY_CACHE_LEN :: nat where "KEY_CACHE_LEN = 96"
definition MSB32 :: u32 where "MSB32 = 0x80000000"
definition MSB16 :: u16 where "MSB16 = 0x8000"

text \<open>One of the four loops: \<open>n\<close> steps over the bits of \<open>v\<close> from the top, with the cache entries from
  \<open>base + i\<close> on.\<close>

fun rss_loop :: "u32 list \<Rightarrow> nat \<Rightarrow> nat \<Rightarrow> nat \<Rightarrow> 'a :: len word \<Rightarrow> 'a word \<Rightarrow> u32 \<Rightarrow> u32" where
  "rss_loop cache base i 0 v msb res = res"
| "rss_loop cache base i (Suc n) v msb res =
    rss_loop cache base (Suc i) n (push_bit 1 v) msb
      (if v AND msb \<noteq> 0 then res XOR cache ! (base + i) else res)"

definition GetRSSHash :: "u32 \<Rightarrow> u32 \<Rightarrow> u16 \<Rightarrow> u16 \<Rightarrow> u32" where
  "GetRSSHash sip dip sp dp =
    (let key_cache = BuildKeyCache KEY_CACHE_LEN;
         res1 = rss_loop key_cache 0 0 32 sip MSB32 0;
         res2 = rss_loop key_cache 32 0 32 dip MSB32 res1;
         res3 = rss_loop key_cache 64 0 16 sp MSB16 res2 in
     rss_loop key_cache 80 0 16 dp MSB16 res3)"

definition RSS_BIT_MASK_IXGBE :: u32 where "RSS_BIT_MASK_IXGBE = 0x7F"
definition RSS_BIT_MASK_I40E :: u32 where "RSS_BIT_MASK_I40E = 0x1FF"

definition rss_off :: "u32 list" where
  "rss_off = [3, 1, - 1, - 3]"

definition GetRSSCPUCore :: "u32 \<Rightarrow> u32 \<Rightarrow> u16 \<Rightarrow> u16 \<Rightarrow> u32 \<Rightarrow> bool \<Rightarrow> u32 c_result" where
  "GetRSSCPUCore sip dip sp dp num_queues endian_check =
    (let masked = (if endian_check
        then (let m = GetRSSHash sip dip sp dp AND RSS_BIT_MASK_I40E in m + rss_off ! unat (m AND 3))
        else GetRSSHash sip dip sp dp AND RSS_BIT_MASK_IXGBE) in
     if num_queues = 0 then Inl DivByZero else Inr (masked mod num_queues))"

lemma GetRSSCPUCore_OK: "num_queues \<noteq> 0 \<Longrightarrow> \<exists>c. GetRSSCPUCore sip dip sp dp num_queues endian_check = Inr c"
  by (simp add: GetRSSCPUCore_def Let_def)

section \<open>The Toeplitz hash\<close>

definition key_bit :: "nat \<Rightarrow> bool" where
  "key_bit j = bit (rss_key ! (j div 8)) (7 - j mod 8)"

definition key_window :: "nat \<Rightarrow> u32" where
  "key_window i = horner_sum of_bool 2 (map key_bit (rev [i..<i + 32]))"

definition msb_bits :: "'a :: len word \<Rightarrow> bool list" where
  "msb_bits v = map (bit v) (rev [0..<LENGTH('a)])"

definition toeplitz :: "bool list \<Rightarrow> u32" where
  "toeplitz bs = fold (\<lambda>(i, b) h. if b then h XOR key_window i else h) (enumerate 0 bs) 0"

lemma bit_key_window: "bit (key_window i) n \<longleftrightarrow> n < 32 \<and> key_bit (i + 31 - n)"
  by (auto simp: key_window_def bit_horner_sum_bit_word_iff rev_nth rev_map [symmetric])

lemma rss_key_byte_bit:
  "push_bit (idx mod 8) (ucast (k :: u8) :: u32) AND 0x80 \<noteq> 0 \<longleftrightarrow> bit k (7 - idx mod 8)"
proof -
  have "(0x80 :: u32) = push_bit 7 1" by simp
  then have "(push_bit (idx mod 8) (ucast k :: u32) AND 0x80 \<noteq> 0) = bit (push_bit (idx mod 8) (ucast k :: u32)) 7"
    by (simp add: bit_iff_and_push_bit_not_eq_0)
  also have "\<dots> = bit k (7 - idx mod 8)"
    by (auto simp: bit_push_bit_iff bit_ucast_iff)
  finally show ?thesis .
qed

lemma key_window_step:
  "push_bit 1 (key_window i) OR (if key_bit (i + 32) then 1 else 0) = key_window (Suc i)"
proof (rule bit_word_eqI)
  fix n assume n: "n < LENGTH(32)"
  have "bit (push_bit 1 (key_window i)) n \<longleftrightarrow> 1 \<le> n \<and> bit (key_window i) (n - 1)"
    using n by (simp only: bit_push_bit_iff possible_bit_word) simp
  moreover have "bit (if key_bit (i + 32) then 1 else 0 :: u32) n \<longleftrightarrow> n = 0 \<and> key_bit (i + 32)"
    by (auto simp: bit_1_iff)
  ultimately show "bit (push_bit 1 (key_window i) OR (if key_bit (i + 32) then 1 else 0)) n = bit (key_window (Suc i)) n"
    using n unfolding bit_or_iff bit_key_window by (cases n) (auto simp: add.commute)
qed

lemma key_cache_loop_window:
  "key_cache_loop n (i + 32) (key_window i) = map key_window [i..<i + n]"
proof (induction n arbitrary: i)
  case (Suc n)
  have "key_cache_loop (Suc n) (i + 32) (key_window i) =
      key_window i # key_cache_loop n (Suc i + 32) (key_window (Suc i))"
    by (simp only: key_cache_loop.simps Let_def rss_key_byte_bit key_bit_def [symmetric] key_window_step add_Suc)
  moreover have "[i..<i + Suc n] = i # [Suc i..<Suc i + n]" by (simp add: upt_rec)
  ultimately show ?case using Suc.IH [of "Suc i"] by (simp only: list.map)
qed simp

lemma initial_window:
  "push_bit 24 (ucast (rss_key ! 0)) OR push_bit 16 (ucast (rss_key ! 1))
     OR push_bit 8 (ucast (rss_key ! 2)) OR ucast (rss_key ! 3) = key_window 0"
  by code_simp

lemma BuildKeyCache_windows: "BuildKeyCache n = map key_window [0..<n]"
  unfolding BuildKeyCache_def initial_window using key_cache_loop_window [of n 0] by simp

lemma and_msb: "(v :: 'a :: len word) AND push_bit (LENGTH('a) - 1) 1 \<noteq> 0 \<longleftrightarrow> bit v (LENGTH('a) - 1)"
  by (simp only: bit_iff_and_push_bit_not_eq_0)

definition xor_windows :: "(nat \<times> bool) list \<Rightarrow> u32 \<Rightarrow> u32" where
  "xor_windows xs h = fold (\<lambda>(i, b) h. if b then h XOR key_window i else h) xs h"

lemma xor_windows_append: "xor_windows (xs @ ys) h = xor_windows ys (xor_windows xs h)"
  by (simp add: xor_windows_def)

lemma rss_loop_windows:
  fixes v :: "'a :: len word"
  assumes cache: "cache = map key_window [0..<m]"
  shows "i + n \<le> LENGTH('a) \<Longrightarrow> base + i + n \<le> m \<Longrightarrow>
    rss_loop cache base i n (push_bit i v) (push_bit (LENGTH('a) - 1) 1) res =
      xor_windows (map (\<lambda>j. (base + j, bit v (LENGTH('a) - 1 - j))) [i..<i + n]) res"
proof (induction n arbitrary: i res)
  case 0
  then show ?case by (simp add: xor_windows_def)
next
  case (Suc n)
  have "bit (push_bit i v) (LENGTH('a) - 1) = bit v (LENGTH('a) - 1 - i)"
    using Suc.prems(1) by (simp add: bit_push_bit_iff)
  then have b: "push_bit i v AND push_bit (LENGTH('a) - 1) 1 \<noteq> 0 \<longleftrightarrow> bit v (LENGTH('a) - 1 - i)"
    by (simp only: and_msb)
  have "push_bit 1 (push_bit i v) = push_bit (Suc i) v" by (simp only: push_bit_push_bit plus_1_eq_Suc)
  moreover have "[i..<i + Suc n] = i # [Suc i..<Suc i + n]" by (simp add: upt_rec)
  moreover have "cache ! (base + i) = key_window (base + i)" using Suc.prems(2) by (simp add: cache)
  ultimately show ?case
    using Suc.IH [of "Suc i"] Suc.prems by (simp only: rss_loop.simps b) (simp add: xor_windows_def)
qed

lemma rss_loop_msb_bits:
  fixes v :: "'a :: len word"
  assumes "base + LENGTH('a) \<le> m"
  shows "rss_loop (map key_window [0..<m]) base 0 (LENGTH('a)) v (push_bit (LENGTH('a) - 1) 1) res =
    xor_windows (enumerate base (msb_bits v)) res"
proof -
  have "enumerate base (msb_bits v) = map (\<lambda>j. (base + j, bit v (LENGTH('a) - 1 - j))) [0..<LENGTH('a)]"
    by (rule nth_equalityI) (auto simp: msb_bits_def nth_enumerate_eq rev_nth)
  then show ?thesis using rss_loop_windows [OF refl, of 0 "LENGTH('a)" base m v res] assms by simp
qed

section \<open>Properties\<close>

text \<open>C15. The hash that the software computes with its key cache is the Toeplitz hash of the
  network card: the exclusive or, over the set bits of source address, destination address, source
  port and destination port from the top, of the key's 32-bit windows at those bit positions.\<close>

theorem GetRSSHash_is_toeplitz:
  "GetRSSHash sip dip sp dp = toeplitz (msb_bits sip @ msb_bits dip @ msb_bits sp @ msb_bits dp)"
proof -
  have m: "MSB32 = push_bit (LENGTH(32) - 1) 1" "MSB16 = push_bit (LENGTH(16) - 1) 1"
    by (simp_all add: MSB32_def MSB16_def)
  have len: "length (msb_bits sip) = 32" "length (msb_bits dip) = 32" "length (msb_bits sp) = 16"
    by (simp_all add: msb_bits_def)
  have w32: "rss_loop (map key_window [0..<96]) b 0 32 (v :: u32) MSB32 h = xor_windows (enumerate b (msb_bits v)) h"
    if "b + 32 \<le> 96" for b v h using rss_loop_msb_bits [of b 96 v h] that by (simp add: m)
  have w16: "rss_loop (map key_window [0..<96]) b 0 16 (v :: u16) MSB16 h = xor_windows (enumerate b (msb_bits v)) h"
    if "b + 16 \<le> 96" for b v h using rss_loop_msb_bits [of b 96 v h] that by (simp add: m)
  have "toeplitz (msb_bits sip @ msb_bits dip @ msb_bits sp @ msb_bits dp) =
      xor_windows (enumerate 0 (msb_bits sip) @ enumerate 32 (msb_bits dip) @ enumerate 64 (msb_bits sp) @ enumerate 80 (msb_bits dp)) 0"
    by (simp add: toeplitz_def xor_windows_def enumerate_append_eq len)
  then show ?thesis
    by (simp add: GetRSSHash_def Let_def BuildKeyCache_windows KEY_CACHE_LEN_def w32 w16 xor_windows_append)
qed

text \<open>For a positive number of queues the predicted core is a valid queue index, with either
  card family's rule.\<close>

theorem GetRSSCPUCore_in_range:
  assumes "0 < sint num_queues"
  shows "\<exists>c. GetRSSCPUCore sip dip sp dp num_queues endian_check = Inr c \<and> 0 \<le> sint c \<and> sint c < sint num_queues"
proof -
  have q: "0 < unat num_queues" "unat num_queues < 2 ^ 31"
    using assms unat_lt_2p32 [of num_queues] by (auto simp: sint_eq_unat simp del: of_nat_unat split: if_splits)
  then have nz: "num_queues \<noteq> 0" by auto
  have "unat (m mod num_queues) < unat num_queues" for m
    using q by (simp add: unat_mod_distrib)
  then have "0 \<le> sint (m mod num_queues) \<and> sint (m mod num_queues) < sint num_queues" for m
    using q by (meson less_trans sint_less_unat sint_nonneg)
  with nz show ?thesis by (auto simp: GetRSSCPUCore_def Let_def)
qed

theorem GetRSSCPUCore_in_range_witness:
  "0 < sint (4 :: u32) \<and> (\<exists>c. GetRSSCPUCore 0x0A000001 0x0A000002 1025 80 4 True = Inr c \<and> 0 \<le> sint c \<and> sint c < sint (4 :: u32))"
  using GetRSSCPUCore_in_range [of 4 "0x0A000001" "0x0A000002" 1025 80 True] by simp

end
