(* ===== verification/AddrPool.thy ===== *)
theory AddrPool
  imports Rss ResourcePool
begin

text \<open>
  The pool of local addresses for outgoing connections (\<^verbatim>\<open>addr_pool.c\<close>). An entry is its index in
  the array \<^verbatim>\<open>ap->pool\<close>; the two tail queues are lists of indices; \<open>ap_mapper i port\<close> is the
  entry of the \<open>i\<close>-th address and a port. Locking has no counterpart: each function holds the
  pool's mutex from its first access to its last. The pointers are not null, and
  \<^verbatim>\<open>mapper\<close> is set in every created pool, so the search of the used list in
  \<^verbatim>\<open>FreeAddress\<close> for a pool without one has no counterpart either. The pool is an interpretation of
  \<open>resource_pool\<close>, so no address is in use twice.
\<close>

section \<open>State\<close>

text \<open>Address and port in network byte order, as \<^verbatim>\<open>sockaddr_in\<close> has them.\<close>

record sockaddr_in =
  sin_addr :: u32
  sin_port :: u16

record addr_pool =
  ap_pool :: "sockaddr_in list"
  ap_mapper :: "nat \<Rightarrow> nat \<Rightarrow> nat option"
  ap_addr_base :: u32
  ap_num_addr :: u32
  ap_num_entry :: u32
  ap_num_free :: u32
  ap_num_used :: u32
  ap_free_list :: "nat list"
  ap_used_list :: "nat list"

definition MIN_PORT :: nat where "MIN_PORT = 1025"
definition MAX_PORT :: nat where "MAX_PORT = 65536"
definition INADDR_ANY :: u32 where "INADDR_ANY = 0"
definition INPORT_ANY :: u16 where "INPORT_ANY = 0"

section \<open>Creation\<close>

text \<open>The fields the creation loops work on: the array, the map, the free list and \<^verbatim>\<open>cnt\<close>.\<close>

type_synonym ap_fill = "sockaddr_in list \<times> (nat \<Rightarrow> nat \<Rightarrow> nat option) \<times> nat list \<times> nat"

definition ap_add_entry :: "nat \<Rightarrow> u32 \<Rightarrow> nat \<Rightarrow> ap_fill \<Rightarrow> ap_fill c_result" where
  "ap_add_entry i a_h j st = (case st of (pool, mapper, free, cnt) \<Rightarrow>
     if cnt < length pool
     then Inr (pool[cnt := \<lparr> sin_addr = htonl a_h, sin_port = htons (of_nat j) \<rparr>],
               mapper(i := (mapper i)(j := Some cnt)), free @ [cnt], Suc cnt)
     else Inl OutOfBounds)"

fun ap_fill_ports :: "int \<Rightarrow> nat \<Rightarrow> u32 \<Rightarrow> nat list \<Rightarrow> ap_fill \<Rightarrow> ap_fill c_result" where
  "ap_fill_ports num_entry i a_h [] st = Inr st"
| "ap_fill_ports num_entry i a_h (j # js) st =
    (case ap_add_entry i a_h j st of Inl e \<Rightarrow> Inl e
     | Inr (pool, mapper, free, cnt) \<Rightarrow>
         if num_entry \<le> int cnt then Inr (pool, mapper, free, cnt)
         else ap_fill_ports num_entry i a_h js (pool, mapper, free, cnt))"

fun ap_fill_addrs :: "int \<Rightarrow> u32 \<Rightarrow> nat list \<Rightarrow> ap_fill \<Rightarrow> ap_fill c_result" where
  "ap_fill_addrs num_entry base [] st = Inr st"
| "ap_fill_addrs num_entry base (i # is) st =
    (case ap_fill_ports num_entry i (base + of_nat i) [MIN_PORT..<MAX_PORT] st of Inl e \<Rightarrow> Inl e
     | Inr st' \<Rightarrow> ap_fill_addrs num_entry base is st')"

definition ap_finish :: "u32 \<Rightarrow> u32 \<Rightarrow> ap_fill \<Rightarrow> addr_pool" where
  "ap_finish base num_addr st = (case st of (pool, mapper, free, cnt) \<Rightarrow>
     \<lparr> ap_pool = pool, ap_mapper = mapper, ap_addr_base = base, ap_num_addr = num_addr,
       ap_num_entry = of_nat cnt, ap_num_free = of_nat cnt, ap_num_used = 0,
       ap_free_list = free, ap_used_list = [] \<rparr>)"

text \<open>\<open>oks\<close> are the outcomes of the three \<^verbatim>\<open>calloc\<close> calls and of \<^verbatim>\<open>pthread_mutex_init\<close>.\<close>

definition CreateAddressPool :: "bool list \<Rightarrow> u32 \<Rightarrow> u32 \<Rightarrow> addr_pool option c_result" where
  "CreateAddressPool oks addr_base num_addr =
    (if False \<in> set oks then Inr None
     else
       let num_entry = sint num_addr * int (MAX_PORT - MIN_PORT); base = ntohl addr_base in
       case ap_fill_addrs num_entry base [0..<nat (sint num_addr)]
              (replicate (nat num_entry) \<lparr> sin_addr = 0, sin_port = 0 \<rparr>, \<lambda>_ _. None, [], 0) of
         Inl e \<Rightarrow> Inl e
       | Inr st \<Rightarrow> Inr (Some (ap_finish base num_addr st)))"

text \<open>The per-core loops; the flag says that the outer loop must stop too. \<open>limit\<close> is
  \<^verbatim>\<open>CONFIG.max_concurrency + 20000\<close>.\<close>

fun ap_core_ports :: "(u32 \<Rightarrow> u16 \<Rightarrow> u32 c_result) \<Rightarrow> u32 \<Rightarrow> int \<Rightarrow> int \<Rightarrow> nat \<Rightarrow> u32 \<Rightarrow> nat list \<Rightarrow> ap_fill \<Rightarrow>
    (bool \<times> ap_fill) c_result" where
  "ap_core_ports rss core num_entry limit i a_h [] st = Inr (False, st)"
| "ap_core_ports rss core num_entry limit i a_h (j # js) st =
    (case st of (_, _, _, cnt) \<Rightarrow>
       if num_entry \<le> int cnt then Inr (False, st)
       else case rss a_h (of_nat j) of Inl e \<Rightarrow> Inl e
       | Inr rss_core \<Rightarrow>
         if rss_core \<noteq> core then ap_core_ports rss core num_entry limit i a_h js st
         else case ap_add_entry i a_h j st of Inl e \<Rightarrow> Inl e
         | Inr (pool, mapper, free, cnt') \<Rightarrow>
           if limit < int cnt' then Inr (True, (pool, mapper, free, cnt'))
           else ap_core_ports rss core num_entry limit i a_h js (pool, mapper, free, cnt'))"

fun ap_core_addrs :: "(u32 \<Rightarrow> u16 \<Rightarrow> u32 c_result) \<Rightarrow> u32 \<Rightarrow> int \<Rightarrow> int \<Rightarrow> u32 \<Rightarrow> nat list \<Rightarrow> ap_fill \<Rightarrow> ap_fill c_result" where
  "ap_core_addrs rss core num_entry limit base [] st = Inr st"
| "ap_core_addrs rss core num_entry limit base (i # is) st =
    (case ap_core_ports rss core num_entry limit i (base + of_nat i) [MIN_PORT..<MAX_PORT] st of Inl e \<Rightarrow> Inl e
     | Inr (flag, st') \<Rightarrow>
         if flag then Inr st' else ap_core_addrs rss core num_entry limit base is st')"

definition CreateAddressPoolPerCore :: "bool list \<Rightarrow> bool \<Rightarrow> u32 \<Rightarrow> u32 \<Rightarrow> u32 \<Rightarrow> u32 \<Rightarrow> u32 \<Rightarrow> u32 \<Rightarrow> u16 \<Rightarrow>
    addr_pool option c_result" where
  "CreateAddressPoolPerCore oks endian_check max_concurrency core num_queues saddr_base num_addr daddr dport =
    (if oks \<noteq> [] \<and> \<not> hd oks then Inr None
     else if num_queues = 0 then Inl DivByZero
     else if False \<in> set oks then Inr None
     else
       let entries = sint num_addr * int (MAX_PORT - MIN_PORT);
           num_entry = sgn entries * sgn (sint num_queues) * (abs entries div abs (sint num_queues));
           base = ntohl saddr_base; daddr_h = ntohl daddr; dport_h = ntohs dport;
           rss = (\<lambda>saddr_h sport_h. GetRSSCPUCore daddr_h saddr_h dport_h sport_h num_queues endian_check) in
       case ap_core_addrs rss core num_entry (sint max_concurrency + 20000) base [0..<nat (sint num_addr)]
              (replicate (nat num_entry) \<lparr> sin_addr = 0, sin_port = 0 \<rparr>, \<lambda>_ _. None, [], 0) of
         Inl e \<Rightarrow> Inl e
       | Inr st \<Rightarrow> Inr (Some (ap_finish base num_addr st)))"

section \<open>Fetching and freeing\<close>

text \<open>The walk over the free list: \<open>Some k\<close> is the entry it stops at.\<close>

fun fetch_walk :: "sockaddr_in list \<Rightarrow> u32 \<Rightarrow> u32 \<Rightarrow> bool \<Rightarrow> sockaddr_in \<Rightarrow> sockaddr_in \<Rightarrow> nat list \<Rightarrow> nat option c_result" where
  "fetch_walk pool core num_queues endian_check daddr saddr [] = Inr None"
| "fetch_walk pool core num_queues endian_check daddr saddr (k # ks) =
    (if sin_addr saddr \<noteq> INADDR_ANY \<and> sin_addr (pool ! k) \<noteq> sin_addr saddr
     then fetch_walk pool core num_queues endian_check daddr saddr ks
     else if sin_port saddr \<noteq> INPORT_ANY \<and> sin_port (pool ! k) \<noteq> sin_port saddr
     then fetch_walk pool core num_queues endian_check daddr saddr ks
     else case GetRSSCPUCore (ntohl (sin_addr (pool ! k))) (ntohl (sin_addr daddr))
                 (ntohs (sin_port (pool ! k))) (ntohs (sin_port daddr)) num_queues endian_check of
       Inl e \<Rightarrow> Inl e
     | Inr rss_core \<Rightarrow>
       if core = rss_core then Inr (Some k)
       else fetch_walk pool core num_queues endian_check daddr saddr ks)"

text \<open>Moving an entry from the free to the used list.\<close>

definition ap_take :: "addr_pool \<Rightarrow> nat \<Rightarrow> addr_pool c_result" where
  "ap_take ap k =
    (case tailq_remove (ap_free_list ap) k of Inl e \<Rightarrow> Inl e
     | Inr fl \<Rightarrow> Inr (ap \<lparr> ap_free_list := fl, ap_used_list := ap_used_list ap @ [k],
         ap_num_free := ap_num_free ap - 1, ap_num_used := ap_num_used ap + 1 \<rparr>))"

definition FetchAddress :: "addr_pool \<Rightarrow> bool \<Rightarrow> u32 \<Rightarrow> u32 \<Rightarrow> sockaddr_in \<Rightarrow> sockaddr_in \<Rightarrow>
    (int \<times> sockaddr_in \<times> addr_pool) c_result" where
  "FetchAddress ap endian_check core num_queues daddr saddr =
    (case fetch_walk (ap_pool ap) core num_queues endian_check daddr saddr (ap_free_list ap) of
       Inl e \<Rightarrow> Inl e
     | Inr None \<Rightarrow> Inr (- 1, saddr, ap)
     | Inr (Some k) \<Rightarrow>
       (case ap_take ap k of Inl e \<Rightarrow> Inl e | Inr ap' \<Rightarrow> Inr (0, ap_pool ap ! k, ap')))"

definition FetchAddressPerCore :: "addr_pool \<Rightarrow> sockaddr_in \<Rightarrow> (int \<times> sockaddr_in \<times> addr_pool) c_result" where
  "FetchAddressPerCore ap saddr =
    (case ap_free_list ap of
       [] \<Rightarrow> Inr (- 1, saddr, ap)
     | k # _ \<Rightarrow>
       (case ap_take ap k of Inl e \<Rightarrow> Inl e | Inr ap' \<Rightarrow> Inr (0, ap_pool ap ! k, ap')))"

text \<open>\<^verbatim>\<open>index\<close> is an \<^verbatim>\<open>int\<close>; the array index that follows is the same number.\<close>

definition FreeAddress :: "addr_pool \<Rightarrow> sockaddr_in \<Rightarrow> (int \<times> addr_pool) c_result" where
  "FreeAddress ap a =
    (let addr_h = ntohl (sin_addr a); port_h = ntohs (sin_port a); index = sint (addr_h - ap_addr_base ap) in
     case (if 0 \<le> index \<and> index < sint (ap_num_addr ap) then ap_mapper ap (nat index) (unat port_h) else None) of
       None \<Rightarrow> Inr (- 1, ap)
     | Some k \<Rightarrow>
       (case tailq_remove (ap_used_list ap) k of Inl e \<Rightarrow> Inl e
        | Inr ul \<Rightarrow> Inr (0, ap \<lparr> ap_used_list := ul, ap_free_list := ap_free_list ap @ [k],
            ap_num_free := ap_num_free ap + 1, ap_num_used := ap_num_used ap - 1 \<rparr>)))"

section \<open>Invariant\<close>

definition ap_addr :: "u32 \<Rightarrow> nat \<Rightarrow> nat \<Rightarrow> sockaddr_in" where
  "ap_addr base i p = \<lparr> sin_addr = htonl (base + of_nat i), sin_port = htons (of_nat p) \<rparr>"

definition ap_map_ok :: "u32 \<Rightarrow> nat \<Rightarrow> nat \<Rightarrow> sockaddr_in list \<Rightarrow> (nat \<Rightarrow> nat \<Rightarrow> nat option) \<Rightarrow> bool" where
  "ap_map_ok base n cnt pool mapper \<longleftrightarrow> cnt \<le> length pool \<and>
    (\<forall>i p k. mapper i p = Some k \<longrightarrow> i < n \<and> p < MAX_PORT \<and> k < cnt \<and> pool ! k = ap_addr base i p) \<and>
    (\<forall>k<cnt. \<exists>i p. mapper i p = Some k)"

definition ap_inv :: "addr_pool \<Rightarrow> bool" where
  "ap_inv ap \<longleftrightarrow>
    distinct (ap_free_list ap @ ap_used_list ap) \<and>
    set (ap_free_list ap @ ap_used_list ap) = {..<unat (ap_num_entry ap)} \<and>
    unat (ap_num_free ap) = length (ap_free_list ap) \<and> unat (ap_num_used ap) = length (ap_used_list ap) \<and>
    unat (ap_num_addr ap) < 2 ^ 31 \<and>
    ap_map_ok (ap_addr_base ap) (unat (ap_num_addr ap)) (unat (ap_num_entry ap)) (ap_pool ap) (ap_mapper ap)"

lemma ap_addr_inject:
  assumes "ap_addr base i p = ap_addr base j q" "i < 2 ^ 32" "j < 2 ^ 32" "p < MAX_PORT" "q < MAX_PORT"
  shows "i = j \<and> p = q"
proof -
  have "(of_nat i :: u32) = of_nat j" "(of_nat p :: u16) = of_nat q"
    using assms(1) by (simp_all add: ap_addr_def)
  then have "unat (of_nat i :: u32) = unat (of_nat j :: u32)" "unat (of_nat p :: u16) = unat (of_nat q :: u16)" by simp_all
  then show ?thesis using assms by (simp add: unat_of_nat MAX_PORT_def)
qed

text \<open>Different entries of the pool are different addresses.\<close>

lemma ap_pool_inj:
  assumes ok: "ap_map_ok base n cnt pool mapper" and n: "n < 2 ^ 32"
  shows "inj_on ((!) pool) {..<cnt}"
proof (rule inj_onI)
  fix k l assume kl: "k \<in> {..<cnt}" "l \<in> {..<cnt}" "pool ! k = pool ! l"
  obtain i p where ip: "mapper i p = Some k" using ok kl(1) unfolding ap_map_ok_def by blast
  obtain j q where jq: "mapper j q = Some l" using ok kl(2) unfolding ap_map_ok_def by blast
  have b: "i < n" "j < n" "p < MAX_PORT" "q < MAX_PORT" "ap_addr base i p = ap_addr base j q"
    using ok kl(3) ip jq unfolding ap_map_ok_def by metis+
  then have "i = j \<and> p = q" using n by (intro ap_addr_inject) auto
  with ip jq show "k = l" by simp
qed

definition ap_free_addrs :: "addr_pool \<Rightarrow> sockaddr_in list" where
  "ap_free_addrs ap = map ((!) (ap_pool ap)) (ap_free_list ap)"

definition ap_items :: "addr_pool \<Rightarrow> sockaddr_in set" where
  "ap_items ap = (!) (ap_pool ap) ` {..<unat (ap_num_entry ap)}"

definition ap_rel :: "addr_pool \<Rightarrow> sockaddr_in list \<Rightarrow> bool" where
  "ap_rel ap xs \<longleftrightarrow> ap_inv ap \<and> xs = ap_free_addrs ap"

lemma ap_inj: "ap_inv ap \<Longrightarrow> inj_on ((!) (ap_pool ap)) {..<unat (ap_num_entry ap)}"
  using unat_lt_2p32 [of "ap_num_addr ap"] by (auto simp: ap_inv_def intro: ap_pool_inj)

lemma ap_rel_distinct:
  assumes "ap_rel ap xs"
  shows "distinct xs \<and> set xs \<subseteq> ap_items ap"
proof -
  have sub: "set (ap_free_list ap) \<subseteq> {..<unat (ap_num_entry ap)}"
    and d: "distinct (ap_free_list ap)" and inv: "ap_inv ap"
    using assms by (auto simp: ap_rel_def ap_inv_def)
  have "inj_on ((!) (ap_pool ap)) (set (ap_free_list ap))" using ap_inj [OF inv] sub by (rule inj_on_subset)
  with d sub assms show ?thesis by (auto simp: ap_rel_def ap_free_addrs_def ap_items_def distinct_map)
qed

lemma ap_take_OK:
  assumes inv: "ap_inv ap" and k: "k \<in> set (ap_free_list ap)"
  shows "\<exists>ap'. ap_take ap k = Inr ap' \<and> ap_inv ap' \<and> ap_free_list ap' = remove1 k (ap_free_list ap) \<and>
    ap_used_list ap' = ap_used_list ap @ [k] \<and> ap_pool ap' = ap_pool ap \<and> ap_num_entry ap' = ap_num_entry ap"
proof -
  let ?ap = "ap \<lparr> ap_free_list := remove1 k (ap_free_list ap), ap_used_list := ap_used_list ap @ [k],
    ap_num_free := ap_num_free ap - 1, ap_num_used := ap_num_used ap + 1 \<rparr>"
  have d: "distinct (ap_free_list ap @ ap_used_list ap)"
    and s: "set (ap_free_list ap @ ap_used_list ap) = {..<unat (ap_num_entry ap)}"
    using inv by (simp_all only: ap_inv_def)
  have n: "unat (ap_num_free ap) = length (ap_free_list ap)" "unat (ap_num_used ap) = length (ap_used_list ap)"
    using inv by (simp_all only: ap_inv_def)
  have pos: "0 < unat (ap_num_free ap)" using n k by (auto simp: length_pos_if_in_set)
  have "length (ap_free_list ap) + length (ap_used_list ap) = unat (ap_num_entry ap)"
    using distinct_card [OF d] s by simp
  then have "unat (ap_num_used ap) + 1 < 2 ^ 32"
    using n pos unat_lt_2p32 [of "ap_num_entry ap"] by linarith
  then have cnt: "unat (ap_num_used ap + 1) = unat (ap_num_used ap) + 1" by (simp add: unat_word_ariths)
  have "ap_inv ?ap"
    using inv d s k cnt unat_minus_1 [OF pos] by (auto simp: ap_inv_def length_remove1)
  with k show ?thesis by (simp add: ap_take_def tailq_remove_def)
qed

definition ap_alloc :: "addr_pool \<Rightarrow> (sockaddr_in option \<times> addr_pool) c_result" where
  "ap_alloc ap = (case FetchAddressPerCore ap \<lparr> sin_addr = 0, sin_port = 0 \<rparr> of Inl e \<Rightarrow> Inl e
     | Inr (r, a, ap') \<Rightarrow> Inr (if r = 0 then Some a else None, ap'))"

definition ap_release :: "addr_pool \<Rightarrow> sockaddr_in \<Rightarrow> addr_pool c_result" where
  "ap_release ap a = (case FreeAddress ap a of Inl e \<Rightarrow> Inl e | Inr (_, ap') \<Rightarrow> Inr ap')"

lemma ap_alloc_none: "ap_rel ap [] \<Longrightarrow> ap_alloc ap = Inr (None, ap)"
  by (simp add: ap_rel_def ap_free_addrs_def ap_alloc_def FetchAddressPerCore_def)

lemma ap_alloc_some:
  assumes "ap_rel ap (a # xs)"
  shows "\<exists>ap'. ap_alloc ap = Inr (Some a, ap') \<and> ap_rel ap' xs \<and> ap_items ap' = ap_items ap"
proof -
  obtain k ks where k: "ap_free_list ap = k # ks" "a = ap_pool ap ! k" "xs = map ((!) (ap_pool ap)) ks"
    and inv: "ap_inv ap" using assms by (cases "ap_free_list ap") (auto simp: ap_rel_def ap_free_addrs_def)
  obtain ap' where "ap_take ap k = Inr ap'" "ap_inv ap'" "ap_free_list ap' = ks" "ap_pool ap' = ap_pool ap"
      "ap_num_entry ap' = ap_num_entry ap"
    using ap_take_OK [OF inv, of k] k by auto
  with k show ?thesis
    by (auto simp: ap_alloc_def FetchAddressPerCore_def ap_rel_def ap_free_addrs_def ap_items_def)
qed

lemma FreeAddress_entry:
  assumes inv: "ap_inv ap" and k: "k < unat (ap_num_entry ap)"
  shows "FreeAddress ap (ap_pool ap ! k) =
    (case tailq_remove (ap_used_list ap) k of Inl e \<Rightarrow> Inl e
     | Inr ul \<Rightarrow> Inr (0, ap \<lparr> ap_used_list := ul, ap_free_list := ap_free_list ap @ [k],
         ap_num_free := ap_num_free ap + 1, ap_num_used := ap_num_used ap - 1 \<rparr>))"
proof -
  obtain i p where ip: "ap_mapper ap i p = Some k" using inv k by (auto simp: ap_inv_def ap_map_ok_def)
  then have b: "i < unat (ap_num_addr ap)" "p < MAX_PORT" "ap_pool ap ! k = ap_addr (ap_addr_base ap) i p"
    using inv by (auto simp: ap_inv_def ap_map_ok_def)
  have n: "unat (ap_num_addr ap) < 2 ^ 31" using inv by (simp add: ap_inv_def)
  have u: "unat (of_nat i :: u32) = i" "unat (of_nat i :: u32) < 2 ^ 31" using b n by (simp_all add: unat_of_nat)
  have ix: "sint (of_nat i :: u32) = int i" using sint_nonneg_eq [OF u(2)] u(1) by simp
  have lt: "sint (of_nat i :: u32) < sint (ap_num_addr ap)" using b n u by (subst sint_less_unat) simp_all
  have "unat (of_nat p :: u16) = p" using b(2) by (simp add: unat_of_nat MAX_PORT_def)
  then show ?thesis
    using ip lt ix unfolding b(3) by (simp add: FreeAddress_def Let_def ap_addr_def)
qed

lemma ap_release_OK:
  assumes inv: "ap_inv ap" and k: "k \<in> set (ap_used_list ap)"
  shows "\<exists>ap'. FreeAddress ap (ap_pool ap ! k) = Inr (0, ap') \<and> ap_inv ap' \<and>
    ap_free_list ap' = ap_free_list ap @ [k] \<and> ap_used_list ap' = remove1 k (ap_used_list ap) \<and>
    ap_pool ap' = ap_pool ap \<and> ap_num_entry ap' = ap_num_entry ap"
proof -
  let ?ap = "ap \<lparr> ap_used_list := remove1 k (ap_used_list ap), ap_free_list := ap_free_list ap @ [k],
    ap_num_free := ap_num_free ap + 1, ap_num_used := ap_num_used ap - 1 \<rparr>"
  have d: "distinct (ap_free_list ap @ ap_used_list ap)"
    and s: "set (ap_free_list ap @ ap_used_list ap) = {..<unat (ap_num_entry ap)}"
    using inv by (simp_all only: ap_inv_def)
  have n: "unat (ap_num_free ap) = length (ap_free_list ap)" "unat (ap_num_used ap) = length (ap_used_list ap)"
    using inv by (simp_all only: ap_inv_def)
  have pos: "0 < unat (ap_num_used ap)" using n k by (auto simp: length_pos_if_in_set)
  have "length (ap_free_list ap) + length (ap_used_list ap) = unat (ap_num_entry ap)"
    using distinct_card [OF d] s by simp
  then have "unat (ap_num_free ap) + 1 < 2 ^ 32"
    using n pos unat_lt_2p32 [of "ap_num_entry ap"] by linarith
  then have cnt: "unat (ap_num_free ap + 1) = unat (ap_num_free ap) + 1" by (simp add: unat_word_ariths)
  have "ap_inv ?ap"
    using inv d s k cnt unat_minus_1 [OF pos] by (auto simp: ap_inv_def length_remove1)
  moreover have "k < unat (ap_num_entry ap)" using k s by auto
  ultimately show ?thesis using k by (simp add: FreeAddress_entry [OF inv] tailq_remove_def)
qed

lemma ap_free_ok:
  assumes "ap_rel ap xs" "a \<in> ap_items ap" "a \<notin> set xs"
  shows "\<exists>ap' ys. ap_release ap a = Inr ap' \<and> ap_rel ap' ys \<and> set ys = insert a (set xs) \<and> ap_items ap' = ap_items ap"
proof -
  obtain k where k: "k < unat (ap_num_entry ap)" "a = ap_pool ap ! k" using assms(2) by (auto simp: ap_items_def)
  have inv: "ap_inv ap" and xs: "xs = ap_free_addrs ap" using assms(1) by (auto simp: ap_rel_def)
  have "k \<in> set (ap_free_list ap @ ap_used_list ap)" using inv k(1) by (simp only: ap_inv_def) auto
  moreover have "k \<notin> set (ap_free_list ap)" using assms(3) xs k(2) by (auto simp: ap_free_addrs_def)
  ultimately have "k \<in> set (ap_used_list ap)" by simp
  from ap_release_OK [OF inv this] k(2) xs show ?thesis
    by (auto simp: ap_release_def ap_rel_def ap_free_addrs_def ap_items_def)
qed

lemma ap_items_finite: "finite (ap_items ap)"
  by (simp add: ap_items_def)

interpretation ap: resource_pool ap_alloc ap_release ap_rel ap_items
  by unfold_locales (rule ap_rel_distinct ap_items_finite ap_alloc_none ap_alloc_some ap_free_ok; assumption)+

section \<open>Creation establishes the invariant\<close>

fun fill_ok :: "u32 \<Rightarrow> nat \<Rightarrow> ap_fill \<Rightarrow> bool" where
  "fill_ok base n (pool, mapper, free, cnt) \<longleftrightarrow> free = [0..<cnt] \<and> ap_map_ok base n cnt pool mapper"

lemma ap_add_entry_OK:
  assumes ok: "fill_ok base n (pool, mapper, free, cnt)" and new: "mapper i j = None"
    and b: "i < n" "j < MAX_PORT" "cnt < length pool"
  shows "\<exists>pool'. ap_add_entry i (base + of_nat i) j (pool, mapper, free, cnt) =
      Inr (pool', mapper(i := (mapper i)(j := Some cnt)), free @ [cnt], Suc cnt) \<and> length pool' = length pool \<and>
      pool' = pool[cnt := ap_addr base i j] \<and>
      fill_ok base n (pool', mapper(i := (mapper i)(j := Some cnt)), free @ [cnt], Suc cnt)"
proof -
  let ?m = "mapper(i := (mapper i)(j := Some cnt))" and ?pool = "pool[cnt := ap_addr base i j]"
  have m: "\<forall>i p k. mapper i p = Some k \<longrightarrow> i < n \<and> p < MAX_PORT \<and> k < cnt \<and> pool ! k = ap_addr base i p"
    and ex: "\<forall>k<cnt. \<exists>i p. mapper i p = Some k" using ok by (simp_all add: ap_map_ok_def)
  have "i' < n \<and> p < MAX_PORT \<and> k < Suc cnt \<and> ?pool ! k = ap_addr base i' p" if "?m i' p = Some k" for i' p k
  proof (cases "i' = i \<and> p = j")
    case True
    with that b show ?thesis by auto
  next
    case False
    with that have "mapper i' p = Some k" by (auto split: if_splits)
    with m show ?thesis by fastforce
  qed
  moreover have "\<exists>i' p. ?m i' p = Some k" if "k < Suc cnt" for k
  proof (cases "k = cnt")
    case True
    then show ?thesis by (intro exI [of _ i] exI [of _ j]) simp
  next
    case False
    with that ex obtain i' p where "mapper i' p = Some k" by (auto simp: less_Suc_eq)
    with new show ?thesis by (intro exI [of _ i'] exI [of _ p]) auto
  qed
  ultimately have "ap_map_ok base n (Suc cnt) ?pool ?m" using b unfolding ap_map_ok_def by simp
  then show ?thesis using ok b by (simp add: ap_add_entry_def ap_addr_def)
qed

text \<open>Every entry of the pool satisfies what was checked when it was added.\<close>

definition pool_all :: "(u32 \<Rightarrow> u16 \<Rightarrow> bool) \<Rightarrow> sockaddr_in list \<Rightarrow> nat \<Rightarrow> bool" where
  "pool_all P pool cnt \<longleftrightarrow> (\<forall>k<cnt. P (ntohl (sin_addr (pool ! k))) (ntohs (sin_port (pool ! k))))"

lemma pool_all_add:
  assumes "pool_all P pool cnt" "P (base + of_nat i) (of_nat j)" "cnt < length pool"
  shows "pool_all P (pool[cnt := ap_addr base i j]) (Suc cnt)"
  using assms by (auto simp: pool_all_def ap_addr_def less_Suc_eq nth_list_update)

lemma ap_core_ports_OK:
  assumes rss: "\<And>s p. \<exists>c. rss s p = Inr c" and i: "i < n" and entry: "num_entry \<le> int len"
  shows "fill_ok base n (pool, mapper, free, cnt) \<Longrightarrow> length pool = len \<Longrightarrow>
    distinct js \<Longrightarrow> \<forall>j\<in>set js. j < MAX_PORT \<and> mapper i j = None \<Longrightarrow>
    pool_all (\<lambda>s p. rss s p = Inr core) pool cnt \<Longrightarrow>
    \<exists>flag pool' mapper' free' cnt'.
      ap_core_ports rss core num_entry limit i (base + of_nat i) js (pool, mapper, free, cnt) =
        Inr (flag, (pool', mapper', free', cnt')) \<and>
      fill_ok base n (pool', mapper', free', cnt') \<and> length pool' = len \<and>
      pool_all (\<lambda>s p. rss s p = Inr core) pool' cnt' \<and> (\<forall>i'. i' \<noteq> i \<longrightarrow> mapper' i' = mapper i')"
proof (induction js arbitrary: pool mapper free cnt)
  case Nil
  then show ?case by auto
next
  case (Cons j js)
  obtain c where c: "rss (base + of_nat i) (of_nat j) = Inr c" using rss by blast
  show ?case
  proof (cases "num_entry \<le> int cnt")
    case True
    with Cons.prems show ?thesis by auto
  next
    case more: False
    then have lt: "cnt < length pool" using entry Cons.prems(2) by linarith
    show ?thesis
    proof (cases "c = core")
      case False
      with Cons.prems Cons.IH [of pool mapper free cnt] c more show ?thesis by simp
    next
      case True
      define m where "m = mapper(i := (mapper i)(j := Some cnt))"
      let ?pool = "pool[cnt := ap_addr base i j]"
      have add: "ap_add_entry i (base + of_nat i) j (pool, mapper, free, cnt) = Inr (?pool, m, free @ [cnt], Suc cnt)"
        and ok: "fill_ok base n (?pool, m, free @ [cnt], Suc cnt)"
        using ap_add_entry_OK [OF Cons.prems(1) _ i _ lt, of j] Cons.prems(4) by (auto simp: m_def)
      have other: "\<forall>i'. i' \<noteq> i \<longrightarrow> m i' = mapper i'" by (simp add: m_def)
      have js: "\<forall>j'\<in>set js. j' < MAX_PORT \<and> m i j' = None" using Cons.prems(3,4) by (auto simp: m_def)
      have all: "pool_all (\<lambda>s p. rss s p = Inr core) ?pool (Suc cnt)"
        using Cons.prems(5) c True lt by (intro pool_all_add) simp_all
      show ?thesis
      proof (cases "limit < int (Suc cnt)")
        case True
        with add ok all c \<open>c = core\<close> more Cons.prems(2) other show ?thesis by auto
      next
        case False
        with Cons.IH [OF ok _ _ js all] Cons.prems(2,3) add c \<open>c = core\<close> more other show ?thesis by auto
      qed
    qed
  qed
qed

lemma ap_core_addrs_OK:
  assumes rss: "\<And>s p. \<exists>c. rss s p = Inr c" and entry: "num_entry \<le> int len"
  shows "fill_ok base n (pool, mapper, free, cnt) \<Longrightarrow> length pool = len \<Longrightarrow>
    distinct is \<Longrightarrow> \<forall>i\<in>set is. i < n \<and> mapper i = (\<lambda>_. None) \<Longrightarrow>
    pool_all (\<lambda>s p. rss s p = Inr core) pool cnt \<Longrightarrow>
    \<exists>pool' mapper' free' cnt'.
      ap_core_addrs rss core num_entry limit base is (pool, mapper, free, cnt) = Inr (pool', mapper', free', cnt') \<and>
      fill_ok base n (pool', mapper', free', cnt') \<and> length pool' = len \<and>
      pool_all (\<lambda>s p. rss s p = Inr core) pool' cnt'"
proof (induction "is" arbitrary: pool mapper free cnt)
  case Nil
  then show ?case by auto
next
  case (Cons i "is")
  have "distinct [MIN_PORT..<MAX_PORT]" "\<forall>j\<in>set [MIN_PORT..<MAX_PORT]. j < MAX_PORT \<and> mapper i j = None"
    using Cons.prems(4) by simp_all
  from ap_core_ports_OK [OF rss _ entry Cons.prems(1,2) this Cons.prems(5), of limit] Cons.prems(4)
  obtain flag pool' mapper' free' cnt' where
    ports: "ap_core_ports rss core num_entry limit i (base + of_nat i) [MIN_PORT..<MAX_PORT] (pool, mapper, free, cnt) =
        Inr (flag, (pool', mapper', free', cnt'))"
    and ok: "fill_ok base n (pool', mapper', free', cnt')" "length pool' = len"
      "pool_all (\<lambda>s p. rss s p = Inr core) pool' cnt'" "\<forall>i'. i' \<noteq> i \<longrightarrow> mapper' i' = mapper i'" by auto
  show ?case
  proof (cases flag)
    case True
    with ports ok show ?thesis by auto
  next
    case False
    have "\<forall>i'\<in>set is. i' < n \<and> mapper' i' = (\<lambda>_. None)" using Cons.prems(3,4) ok(4) by auto
    with Cons.IH [OF ok(1,2) _ _ ok(3)] Cons.prems(3) ports False show ?thesis by auto
  qed
qed

lemma ap_finish_inv:
  assumes ok: "fill_ok base n (pool, mapper, free, cnt)" and n: "n = unat num_addr" "n < 2 ^ 31" and cnt: "cnt < 2 ^ 32"
  shows "ap_inv (ap_finish base num_addr (pool, mapper, free, cnt))"
proof -
  have "unat (of_nat cnt :: u32) = cnt" using cnt by (simp add: unat_of_nat)
  then show ?thesis using ok n by (auto simp: ap_inv_def ap_finish_def)
qed

lemma small_int:
  assumes "0 \<le> sint (w :: u32)"
  shows "unat w = nat (sint w)" "unat w < 2 ^ 31" "sint w = int (unat w)"
  using assms unat_lt_2p32 [of w] by (auto simp: sint_eq_unat simp del: of_nat_unat split: if_splits)

text \<open>The entry counts of both creations stay below the array's length and fit the 32-bit fields
  when the product of addresses and ports fits an \<^verbatim>\<open>int\<close>.\<close>

lemma num_entry_bound:
  assumes "0 < q" "0 \<le> e" "e < 2 ^ 31"
  shows "0 \<le> sgn e * sgn q * (abs e div abs (q :: int))" "sgn e * sgn q * (abs e div abs q) < 2 ^ 31"
proof -
  have "e div q \<le> e" "0 \<le> e div q" using assms zdiv_mono2 [of e 1 q] by (auto simp: pos_imp_zdiv_nonneg_iff)
  with assms show "0 \<le> sgn e * sgn q * (abs e div abs q)" "sgn e * sgn q * (abs e div abs q) < 2 ^ 31"
    by (auto simp: sgn_if)
qed

lemma CreateAddressPoolPerCore_OK:
  assumes oks: "False \<notin> set oks" and nq: "0 < sint num_queues"
    and na: "0 \<le> sint num_addr" "sint num_addr \<le> 33000"
  shows "\<exists>ap. CreateAddressPoolPerCore oks endian max_conc core num_queues saddr_base num_addr daddr dport = Inr (Some ap) \<and>
    ap_inv ap \<and> ap_used_list ap = [] \<and>
    (\<forall>a\<in>ap_items ap. GetRSSCPUCore (ntohl daddr) (ntohl (sin_addr a)) (ntohs dport) (ntohs (sin_port a)) num_queues endian = Inr core)"
proof -
  let ?rss = "\<lambda>s p. GetRSSCPUCore (ntohl daddr) s (ntohs dport) p num_queues endian"
  define e where "e = sint num_addr * int (MAX_PORT - MIN_PORT)"
  define num_entry where "num_entry = sgn e * sgn (sint num_queues) * (abs e div abs (sint num_queues))"
  let ?pool = "replicate (nat num_entry) \<lparr> sin_addr = 0, sin_port = 0 \<rparr>"
  have "0 \<le> e" "e < 2 ^ 31" using na by (auto simp: e_def MAX_PORT_def MIN_PORT_def)
  then have ne: "0 \<le> num_entry" "num_entry < 2 ^ 31"
    using num_entry_bound [OF nq, of e] by (auto simp: num_entry_def)
  have q0: "num_queues \<noteq> 0" using nq by auto
  have rss: "\<exists>c. ?rss s p = Inr c" for s p using GetRSSCPUCore_OK [OF q0] by blast
  have ok0: "fill_ok (ntohl saddr_base) (unat num_addr) (?pool, \<lambda>_ _. None, [], 0)" by (simp add: ap_map_ok_def)
  have "\<exists>pool' mapper' free' cnt'.
      ap_core_addrs ?rss core num_entry (sint max_conc + 20000) (ntohl saddr_base) [0..<nat (sint num_addr)]
        (?pool, \<lambda>_ _. None, [], 0) = Inr (pool', mapper', free', cnt') \<and>
      fill_ok (ntohl saddr_base) (unat num_addr) (pool', mapper', free', cnt') \<and> length pool' = nat num_entry \<and>
      pool_all (\<lambda>s p. ?rss s p = Inr core) pool' cnt'"
    by (rule ap_core_addrs_OK [OF rss _ ok0]) (use ne small_int(1) [OF na(1)] in \<open>auto simp: pool_all_def\<close>)
  then obtain pool' mapper' free' cnt' where
    run: "ap_core_addrs ?rss core num_entry (sint max_conc + 20000) (ntohl saddr_base) [0..<nat (sint num_addr)]
        (?pool, \<lambda>_ _. None, [], 0) = Inr (pool', mapper', free', cnt')"
    and ok: "fill_ok (ntohl saddr_base) (unat num_addr) (pool', mapper', free', cnt')" "length pool' = nat num_entry"
      "pool_all (\<lambda>s p. ?rss s p = Inr core) pool' cnt'" by blast
  have create: "CreateAddressPoolPerCore oks endian max_conc core num_queues saddr_base num_addr daddr dport =
      Inr (Some (ap_finish (ntohl saddr_base) num_addr (pool', mapper', free', cnt')))"
    using oks q0 run unfolding CreateAddressPoolPerCore_def Let_def num_entry_def e_def by (cases oks) auto
  have cnt: "cnt' < 2 ^ 32" using ok ne by (auto simp: ap_map_ok_def)
  have u: "unat (of_nat cnt' :: u32) = cnt'" using cnt by (simp add: unat_of_nat)
  let ?ap = "ap_finish (ntohl saddr_base) num_addr (pool', mapper', free', cnt')"
  have "ap_items ?ap = (!) pool' ` {..<cnt'}" "ap_used_list ?ap = []"
    using u by (simp_all add: ap_finish_def ap_items_def)
  with ok(3) have "\<forall>a\<in>ap_items ?ap. ?rss (ntohl (sin_addr a)) (ntohs (sin_port a)) = Inr core" "ap_used_list ?ap = []"
    by (simp_all add: pool_all_def)
  with create ap_finish_inv [OF ok(1) refl small_int(2) [OF na(1)] cnt] show ?thesis by blast
qed

lemma ap_fill_ports_OK:
  assumes i: "i < n"
  shows "fill_ok base n (pool, mapper, free, cnt) \<Longrightarrow> length pool = len \<Longrightarrow> cnt + length js \<le> len \<Longrightarrow>
    distinct js \<Longrightarrow> \<forall>j\<in>set js. j < MAX_PORT \<and> mapper i j = None \<Longrightarrow>
    \<exists>pool' mapper' free'.
      ap_fill_ports (int len) i (base + of_nat i) js (pool, mapper, free, cnt) = Inr (pool', mapper', free', cnt + length js) \<and>
      fill_ok base n (pool', mapper', free', cnt + length js) \<and> length pool' = len \<and>
      (\<forall>i'. i' \<noteq> i \<longrightarrow> mapper' i' = mapper i')"
proof (induction js arbitrary: pool mapper free cnt)
  case Nil
  then show ?case by auto
next
  case (Cons j js)
  define m where "m = mapper(i := (mapper i)(j := Some cnt))"
  let ?pool = "pool[cnt := ap_addr base i j]"
  have add: "ap_add_entry i (base + of_nat i) j (pool, mapper, free, cnt) = Inr (?pool, m, free @ [cnt], Suc cnt)"
    and ok: "fill_ok base n (?pool, m, free @ [cnt], Suc cnt)"
    using ap_add_entry_OK [OF Cons.prems(1) _ i, of j] Cons.prems by (auto simp: m_def)
  have other: "\<forall>i'. i' \<noteq> i \<longrightarrow> m i' = mapper i'" by (simp add: m_def)
  have js: "\<forall>j'\<in>set js. j' < MAX_PORT \<and> m i j' = None" using Cons.prems(4,5) by (auto simp: m_def)
  show ?case
  proof (cases "len \<le> Suc cnt")
    case True
    then have "js = []" using Cons.prems(3) by (cases js) auto
    with add ok Cons.prems(2) True other show ?thesis by auto
  next
    case False
    with Cons.IH [OF ok _ _ _ js] Cons.prems(2-4) add other show ?thesis by auto
  qed
qed

lemma ap_fill_addrs_OK:
  "fill_ok base n (pool, mapper, free, cnt) \<Longrightarrow> length pool = len \<Longrightarrow>
    cnt + length is * (MAX_PORT - MIN_PORT) \<le> len \<Longrightarrow>
    distinct is \<Longrightarrow> \<forall>i\<in>set is. i < n \<and> mapper i = (\<lambda>_. None) \<Longrightarrow>
    \<exists>pool' mapper' free'.
      ap_fill_addrs (int len) base is (pool, mapper, free, cnt) =
        Inr (pool', mapper', free', cnt + length is * (MAX_PORT - MIN_PORT)) \<and>
      fill_ok base n (pool', mapper', free', cnt + length is * (MAX_PORT - MIN_PORT)) \<and> length pool' = len"
proof (induction "is" arbitrary: pool mapper free cnt)
  case Nil
  then show ?case by auto
next
  case (Cons i "is")
  let ?n = "MAX_PORT - MIN_PORT"
  have js: "distinct [MIN_PORT..<MAX_PORT]" "\<forall>j\<in>set [MIN_PORT..<MAX_PORT]. j < MAX_PORT \<and> mapper i j = None"
    using Cons.prems(5) by simp_all
  have "cnt + length [MIN_PORT..<MAX_PORT] \<le> len" using Cons.prems(3) by simp
  from ap_fill_ports_OK [OF _ Cons.prems(1,2) this js] Cons.prems(5)
  obtain pool' mapper' free' where
    ports: "ap_fill_ports (int len) i (base + of_nat i) [MIN_PORT..<MAX_PORT] (pool, mapper, free, cnt) =
        Inr (pool', mapper', free', cnt + ?n)"
    and ok: "fill_ok base n (pool', mapper', free', cnt + ?n)" "length pool' = len"
      "\<forall>i'. i' \<noteq> i \<longrightarrow> mapper' i' = mapper i'" by (auto simp del: upt_Suc)
  have "\<forall>i'\<in>set is. i' < n \<and> mapper' i' = (\<lambda>_. None)" using Cons.prems(4,5) ok(3) by auto
  with Cons.IH [OF ok(1,2)] Cons.prems(3,4) ports show ?case by (simp add: add.assoc)
qed

lemma CreateAddressPool_OK:
  assumes oks: "False \<notin> set oks" and na: "0 \<le> sint num_addr" "sint num_addr \<le> 33000"
  shows "\<exists>ap. CreateAddressPool oks addr_base num_addr = Inr (Some ap) \<and> ap_inv ap \<and> ap_used_list ap = [] \<and>
    length (ap_free_list ap) = nat (sint num_addr) * (MAX_PORT - MIN_PORT)"
proof -
  define len where "len = nat (sint num_addr) * (MAX_PORT - MIN_PORT)"
  let ?pool = "replicate len \<lparr> sin_addr = 0, sin_port = 0 \<rparr>"
  have e: "sint num_addr * int (MAX_PORT - MIN_PORT) = int len"
    using na unfolding len_def by (simp only: of_nat_mult int_nat_eq if_True)
  have ok0: "fill_ok (ntohl addr_base) (unat num_addr) (?pool, \<lambda>_ _. None, [], 0)" by (simp add: ap_map_ok_def)
  have "0 + length [0..<nat (sint num_addr)] * (MAX_PORT - MIN_PORT) = len" by (simp add: len_def)
  moreover have "\<forall>i\<in>set [0..<nat (sint num_addr)]. i < unat num_addr \<and> (\<lambda>_ _. None) i = (\<lambda>_. None)"
    by (simp add: small_int(1) [OF na(1)])
  ultimately obtain pool' mapper' free' where
    run: "ap_fill_addrs (int len) (ntohl addr_base) [0..<nat (sint num_addr)] (?pool, \<lambda>_ _. None, [], 0) =
        Inr (pool', mapper', free', len)"
    and ok: "fill_ok (ntohl addr_base) (unat num_addr) (pool', mapper', free', len)"
    using ap_fill_addrs_OK [OF ok0, of len "[0..<nat (sint num_addr)]"] by auto
  have "nat (sint num_addr) \<le> 33000" using na by simp
  then have "len < 2 ^ 32" by (simp add: len_def MAX_PORT_def MIN_PORT_def)
  from ap_finish_inv [OF ok refl small_int(2) [OF na(1)] this]
  have "ap_inv (ap_finish (ntohl addr_base) num_addr (pool', mapper', free', len))" .
  then show ?thesis
    using oks run ok unfolding len_def [symmetric]
    by (simp add: CreateAddressPool_def Let_def e) (simp add: ap_finish_def)
qed

text \<open>The free-list walk finds the first free entry that matches the request.\<close>

definition fetch_match :: "u32 \<Rightarrow> u32 \<Rightarrow> bool \<Rightarrow> sockaddr_in \<Rightarrow> sockaddr_in \<Rightarrow> sockaddr_in \<Rightarrow> bool" where
  "fetch_match core num_queues endian_check daddr saddr a \<longleftrightarrow>
    (sin_addr saddr = INADDR_ANY \<or> sin_addr a = sin_addr saddr) \<and>
    (sin_port saddr = INPORT_ANY \<or> sin_port a = sin_port saddr) \<and>
    GetRSSCPUCore (ntohl (sin_addr a)) (ntohl (sin_addr daddr)) (ntohs (sin_port a)) (ntohs (sin_port daddr))
      num_queues endian_check = Inr core"

lemma fetch_walk_find:
  assumes "num_queues \<noteq> 0"
  shows "fetch_walk pool core num_queues endian_check daddr saddr ks =
    Inr (List.find (\<lambda>k. fetch_match core num_queues endian_check daddr saddr (pool ! k)) ks)"
proof (induction ks)
  case (Cons k ks)
  obtain c where "GetRSSCPUCore (ntohl (sin_addr (pool ! k))) (ntohl (sin_addr daddr))
      (ntohs (sin_port (pool ! k))) (ntohs (sin_port daddr)) num_queues endian_check = Inr c"
    using GetRSSCPUCore_OK [OF assms] by blast
  with Cons.IH show ?case by (auto simp: fetch_match_def)
qed simp

section \<open>Properties\<close>

text \<open>C16. The pool made for one core: its creation succeeds, and after any sequence of fetches and
  frees the addresses in use are pairwise different and every one of them hashes to that core for the
  packets that come back from the destination.\<close>

theorem per_core_addresses_hash_to_core:
  assumes "False \<notin> set oks" and "0 < sint num_queues" and "0 \<le> sint num_addr" "sint num_addr \<le> 33000"
  shows "\<exists>ap ap' held.
    CreateAddressPoolPerCore oks endian max_conc core num_queues saddr_base num_addr daddr dport = Inr (Some ap) \<and>
    pool_run ap_alloc ap_release ops ap [] = Inr (ap', held) \<and> distinct held \<and>
    (\<forall>a\<in>set held. GetRSSCPUCore (ntohl daddr) (ntohl (sin_addr a)) (ntohs dport) (ntohs (sin_port a))
      num_queues endian = Inr core)"
proof -
  obtain ap where ap: "CreateAddressPoolPerCore oks endian max_conc core num_queues saddr_base num_addr daddr dport = Inr (Some ap)"
    "ap_inv ap" "ap_used_list ap = []"
    "\<forall>a\<in>ap_items ap. GetRSSCPUCore (ntohl daddr) (ntohl (sin_addr a)) (ntohs dport) (ntohs (sin_port a)) num_queues endian = Inr core"
    using CreateAddressPoolPerCore_OK [OF assms, of endian max_conc core saddr_base daddr dport] by blast
  have "set (ap_free_list ap) = {..<unat (ap_num_entry ap)}" using ap(2,3) by (simp add: ap_inv_def)
  then have "ap.owns ap []" using ap(2) by (auto simp: ap.owns_def ap_rel_def ap_free_addrs_def ap_items_def)
  from ap.pool_run_owns [OF this, of ops] obtain ap' held where
    "pool_run ap_alloc ap_release ops ap [] = Inr (ap', held)" "ap.owns ap' held" "ap_items ap' = ap_items ap" by auto
  with ap show ?thesis by (auto simp: ap.owns_def)
qed

theorem per_core_addresses_hash_to_core_witness:
  "0 < sint (4 :: u32) \<and> (\<exists>ap ap' held.
    CreateAddressPoolPerCore [True, True, True, True] False 10000 2 4 0x0200000A 1 0x0100000A 0x5000 = Inr (Some ap) \<and>
    pool_run ap_alloc ap_release [Alloc, Alloc, Free 1, Alloc] ap [] = Inr (ap', held) \<and> distinct held \<and>
    (\<forall>a\<in>set held. GetRSSCPUCore (ntohl 0x0100000A) (ntohl (sin_addr a)) (ntohs 0x5000) (ntohs (sin_port a)) 4 False = Inr 2))"
  using per_core_addresses_hash_to_core [of "[True, True, True, True]" 4 1 False 10000 2 "0x0200000A" "0x0100000A" "0x5000"
    "[Alloc, Alloc, Free 1, Alloc]"] by simp

text \<open>\<^verbatim>\<open>FetchAddress\<close> never faults on a well-formed pool. It returns 0 with the first free address that
  matches the requested address and port and hashes to the core, and moves exactly that address to the
  used list; it returns -1 and changes nothing when no free address matches.\<close>

theorem FetchAddress_first_match:
  assumes inv: "ap_inv ap" and nq: "num_queues \<noteq> 0"
  shows "\<exists>r a ap'. FetchAddress ap endian core num_queues daddr saddr = Inr (r, a, ap') \<and> ap_inv ap' \<and>
    (case List.find (fetch_match core num_queues endian daddr saddr) (ap_free_addrs ap) of
       None \<Rightarrow> r = - 1 \<and> a = saddr \<and> ap' = ap
     | Some b \<Rightarrow> r = 0 \<and> a = b \<and> ap_free_addrs ap' = remove1 b (ap_free_addrs ap))"
proof -
  let ?P = "fetch_match core num_queues endian daddr saddr"
  let ?k = "List.find (\<lambda>k. ?P (ap_pool ap ! k)) (ap_free_list ap)"
  have find: "List.find ?P (map f ks) = map_option f (List.find (\<lambda>k. ?P (f k)) ks)" for f and ks :: "nat list"
    by (induction ks) auto
  show ?thesis
  proof (cases ?k)
    case None
    with inv show ?thesis by (simp add: FetchAddress_def fetch_walk_find [OF nq] ap_free_addrs_def find)
  next
    case (Some k)
    then have k: "k \<in> set (ap_free_list ap)" by (auto simp: find_Some_iff)
    obtain ap' where ap': "ap_take ap k = Inr ap'" "ap_inv ap'" "ap_free_list ap' = remove1 k (ap_free_list ap)"
      "ap_pool ap' = ap_pool ap" using ap_take_OK [OF inv k] by auto
    have "set (ap_free_list ap) \<subseteq> {..<unat (ap_num_entry ap)}" using inv by (auto simp: ap_inv_def)
    then have inj: "inj_on ((!) (ap_pool ap)) (insert k (set (ap_free_list ap)))"
      using k by (intro inj_on_subset [OF ap_inj [OF inv]]) auto
    have "map f (remove1 k ks) = remove1 (f k) (map f ks)" if "inj_on f (insert k (set ks))" for f :: "nat \<Rightarrow> sockaddr_in" and ks
      using that by (induction ks) (auto simp: inj_on_def)
    from this [OF inj] Some ap' show ?thesis
      by (simp add: FetchAddress_def fetch_walk_find [OF nq] ap_free_addrs_def find)
  qed
qed

theorem FetchAddress_first_match_witness:
  "\<exists>ap r a ap'. CreateAddressPool [True, True, True, True] 0x0100000A 1 = Inr (Some ap) \<and>
    FetchAddress ap False 2 4 \<lparr> sin_addr = 0x0200000A, sin_port = 0x5000 \<rparr> \<lparr> sin_addr = 0, sin_port = 0 \<rparr> = Inr (r, a, ap') \<and>
    ap_inv ap'"
proof -
  obtain ap where "CreateAddressPool [True, True, True, True] 0x0100000A 1 = Inr (Some ap)" "ap_inv ap"
    using CreateAddressPool_OK [of "[True, True, True, True]" 1] by auto
  with FetchAddress_first_match [of ap 4 False 2 "\<lparr> sin_addr = 0x0200000A, sin_port = 0x5000 \<rparr>" "\<lparr> sin_addr = 0, sin_port = 0 \<rparr>"]
  show ?thesis by auto
qed

text \<open>C31. Freeing what was fetched is a round trip: the address is free again, at the end of the free
  list, the used list and the counters are what they were before the fetch.\<close>

theorem Fetch_Free_round_trip:
  assumes inv: "ap_inv ap" and fetch: "FetchAddressPerCore ap saddr = Inr (0, a, ap')"
  shows "\<exists>ap''. FreeAddress ap' a = Inr (0, ap'') \<and> ap_inv ap'' \<and> ap_used_list ap'' = ap_used_list ap \<and>
    ap_free_list ap'' = rotate1 (ap_free_list ap) \<and> ap_num_free ap'' = ap_num_free ap \<and> ap_num_used ap'' = ap_num_used ap"
proof -
  obtain k ks where k: "ap_free_list ap = k # ks" "a = ap_pool ap ! k" "ap_take ap k = Inr ap'"
    using fetch by (auto simp: FetchAddressPerCore_def split: list.splits sum.splits)
  then have ap': "ap' = ap \<lparr> ap_free_list := ks, ap_used_list := ap_used_list ap @ [k],
      ap_num_free := ap_num_free ap - 1, ap_num_used := ap_num_used ap + 1 \<rparr>"
    by (auto simp: ap_take_def tailq_remove_def)
  have inv': "ap_inv ap'" using ap_take_OK [OF inv, of k] k by auto
  have new: "k \<notin> set (ap_used_list ap)" using inv k(1) by (auto simp: ap_inv_def)
  have "k \<in> set (ap_used_list ap')" "a = ap_pool ap' ! k" using ap' k(2) by auto
  from ap_release_OK [OF inv' this(1)] FreeAddress_entry [OF inv', of k] this(2)
  obtain ap'' where free: "FreeAddress ap' a = Inr (0, ap'')" "ap_inv ap''" by auto
  have "k < unat (ap_num_entry ap')" using inv' \<open>k \<in> set (ap_used_list ap')\<close> by (auto simp: ap_inv_def)
  with FreeAddress_entry [OF inv', of k] \<open>a = ap_pool ap' ! k\<close> free(1)
  have "ap'' = ap' \<lparr> ap_used_list := remove1 k (ap_used_list ap'), ap_free_list := ap_free_list ap' @ [k],
      ap_num_free := ap_num_free ap' + 1, ap_num_used := ap_num_used ap' - 1 \<rparr>"
    using \<open>k \<in> set (ap_used_list ap')\<close> by (simp add: tailq_remove_def)
  with free k(1) new show ?thesis by (auto simp: ap' remove1_append)
qed

theorem Fetch_Free_round_trip_witness:
  "\<exists>ap a ap' ap''. CreateAddressPool [True, True, True, True] 0x0100000A 1 = Inr (Some ap) \<and>
    FetchAddressPerCore ap \<lparr> sin_addr = 0, sin_port = 0 \<rparr> = Inr (0, a, ap') \<and>
    FreeAddress ap' a = Inr (0, ap'') \<and> ap_used_list ap'' = []"
proof -
  obtain ap where ap: "CreateAddressPool [True, True, True, True] 0x0100000A 1 = Inr (Some ap)" "ap_inv ap"
    "ap_used_list ap = []" "length (ap_free_list ap) = nat (sint (1 :: u32)) * (MAX_PORT - MIN_PORT)"
    using CreateAddressPool_OK [of "[True, True, True, True]" 1] by auto
  then obtain k ks where "ap_free_list ap = k # ks" by (cases "ap_free_list ap") (auto simp: MAX_PORT_def MIN_PORT_def)
  then obtain a ap' where "FetchAddressPerCore ap \<lparr> sin_addr = 0, sin_port = 0 \<rparr> = Inr (0, a, ap')"
    using ap_take_OK [OF ap(2), of k] by (auto simp: FetchAddressPerCore_def)
  with Fetch_Free_round_trip [OF ap(2) this] ap show ?thesis by auto
qed


end
