(* ===== verification/Stream.thy ===== *)
theory Stream
  imports SeqNum ClickQueue MemPool RingBuffer SendBuffer AddrPool
begin

text \<open>
  The state of one stack thread (\<^verbatim>\<open>struct mtcp_manager\<close> and what it owns, \<^verbatim>\<open>mtcp.h\<close>,
  \<^verbatim>\<open>tcp_stream.h\<close>, \<^verbatim>\<open>socket.h\<close>, \<^verbatim>\<open>eventpoll.h\<close>, \<^verbatim>\<open>timer.h\<close>). A stream is
  the address of its chunk in the flow pool; \<open>streams m s\<close> is what the chunk holds, the chunks
  \<^verbatim>\<open>rcvvar\<close> and \<^verbatim>\<open>sndvar\<close> included; every tail queue is the list of its
  elements. Operations map the state to the new state. Where the source would corrupt memory,
  divide by zero or fail an assertion, the operation records the first such event in
  \<open>fault\<close>; the results show when \<open>fault\<close> stays \<open>None\<close>. Statistics, traces and
  locks have no counterpart.
\<close>

section \<open>States and reasons\<close>

type_synonym sid = addr
type_synonym lid = nat

datatype tcp_state = TCP_ST_CLOSED | TCP_ST_LISTEN | TCP_ST_SYN_SENT | TCP_ST_SYN_RCVD
  | TCP_ST_ESTABLISHED | TCP_ST_FIN_WAIT_1 | TCP_ST_FIN_WAIT_2 | TCP_ST_CLOSE_WAIT
  | TCP_ST_CLOSING | TCP_ST_LAST_ACK | TCP_ST_TIME_WAIT

text \<open>The numbers of \<^verbatim>\<open>enum tcp_state\<close>, which the source compares with \<^verbatim>\<open><\<close>.\<close>

fun st_num :: "tcp_state \<Rightarrow> nat" where
  "st_num TCP_ST_CLOSED = 0"
| "st_num TCP_ST_LISTEN = 1"
| "st_num TCP_ST_SYN_SENT = 2"
| "st_num TCP_ST_SYN_RCVD = 3"
| "st_num TCP_ST_ESTABLISHED = 4"
| "st_num TCP_ST_FIN_WAIT_1 = 5"
| "st_num TCP_ST_FIN_WAIT_2 = 6"
| "st_num TCP_ST_CLOSE_WAIT = 7"
| "st_num TCP_ST_CLOSING = 8"
| "st_num TCP_ST_LAST_ACK = 9"
| "st_num TCP_ST_TIME_WAIT = 10"

lemma st_num_inject: "st_num s = st_num t \<longleftrightarrow> s = t"
  by (cases s; cases t; simp)

instantiation tcp_state :: linorder
begin

definition less_eq_tcp_state :: "tcp_state \<Rightarrow> tcp_state \<Rightarrow> bool" where
  "less_eq_tcp_state s t \<longleftrightarrow> st_num s \<le> st_num t"

definition less_tcp_state :: "tcp_state \<Rightarrow> tcp_state \<Rightarrow> bool" where
  "less_tcp_state s t \<longleftrightarrow> st_num s < st_num t"

instance
  by standard (auto simp: less_eq_tcp_state_def less_tcp_state_def st_num_inject)

end

lemmas st_order = less_eq_tcp_state_def less_tcp_state_def

datatype close_reason = TCP_NOT_CLOSED | TCP_ACTIVE_CLOSE | TCP_PASSIVE_CLOSE | TCP_CONN_FAIL
  | TCP_CONN_LOST | TCP_RESET | TCP_NO_MEM | TCP_NOT_ACCEPTED | TCP_TIMEDOUT

section \<open>Streams\<close>

record tcp_recv_vars =
  rcv_wnd :: u32
  irs :: u32
  snd_wl1 :: u32
  snd_wl2 :: u32
  dup_acks :: u8
  last_ack_seq :: u32
  ts_recent :: u32
  ts_lastack_rcvd :: u32
  ts_last_ts_upd :: u32
  ts_tw_expire :: u32
  srtt :: u32
  mdev :: u32
  mdev_max :: u32
  rttvar :: u32
  rtt_seq :: u32
  rcvbuf :: "tcp_ring_buffer option"

text \<open>\<^verbatim>\<open>ack_cnt\<close> is a 6-bit field: its value is kept below 64. \<^verbatim>\<open>d_haddr\<close> is never used.\<close>

record tcp_send_vars =
  ip_id :: u16
  mss :: u16
  eff_mss :: u16
  wscale_mine :: u8
  wscale_peer :: u8
  nif_out :: int
  snd_una :: u32
  snd_wnd :: u32
  peer_wnd :: u32
  iss :: u32
  fss :: u32
  nrtx :: u8
  max_nrtx :: u8
  rto :: u32
  ts_rto :: u32
  cwnd :: u32
  ssthresh :: u32
  ts_lastack_sent :: u32
  is_wack :: bool
  ack_cnt :: nat
  on_control_list :: bool
  on_send_list :: bool
  on_ack_list :: bool
  on_sendq :: bool
  on_ackq :: bool
  on_closeq :: bool
  on_resetq :: bool
  on_closeq_int :: bool
  on_resetq_int :: bool
  is_fin_sent :: bool
  is_fin_ackd :: bool
  sndbuf :: "tcp_send_buffer option"

text \<open>\<open>rcvvar_p\<close> and \<open>sndvar_p\<close> are the addresses of the two chunks, \<open>rcvvar\<close> and
  \<open>sndvar\<close> what they hold. Addresses and ports are in network order.\<close>

record tcp_stream =
  sock :: "nat option"
  stream_id :: u32
  stream_type :: nat
  saddr :: u32
  daddr :: u32
  sport :: u16
  dport :: u16
  state :: tcp_state
  close_reason :: close_reason
  on_hash_table :: bool
  on_timewait_list :: bool
  ht_idx :: nat
  closed :: bool
  is_bound_addr :: bool
  need_wnd_adv :: bool
  on_rto_idx :: int
  on_timeout_list :: bool
  saw_timestamp :: bool
  sack_permit :: bool
  control_list_waiting :: bool
  have_reset :: bool
  is_external :: bool
  snd_nxt :: u32
  rcv_nxt :: u32
  rcvvar_p :: addr
  sndvar_p :: addr
  last_active_ts :: u32
  rcvvar :: tcp_recv_vars
  sndvar :: tcp_send_vars

text \<open>What \<^verbatim>\<open>memset\<close> leaves.\<close>

definition zero_rcvvar :: tcp_recv_vars where
  "zero_rcvvar = \<lparr> rcv_wnd = 0, irs = 0, snd_wl1 = 0, snd_wl2 = 0, dup_acks = 0, last_ack_seq = 0,
     ts_recent = 0, ts_lastack_rcvd = 0, ts_last_ts_upd = 0, ts_tw_expire = 0, srtt = 0, mdev = 0,
     mdev_max = 0, rttvar = 0, rtt_seq = 0, rcvbuf = None \<rparr>"

definition zero_sndvar :: tcp_send_vars where
  "zero_sndvar = \<lparr> ip_id = 0, mss = 0, eff_mss = 0, wscale_mine = 0, wscale_peer = 0, nif_out = 0,
     snd_una = 0, snd_wnd = 0, peer_wnd = 0, iss = 0, fss = 0, nrtx = 0, max_nrtx = 0, rto = 0,
     ts_rto = 0, cwnd = 0, ssthresh = 0, ts_lastack_sent = 0, is_wack = False, ack_cnt = 0,
     on_control_list = False, on_send_list = False, on_ack_list = False, on_sendq = False,
     on_ackq = False, on_closeq = False, on_resetq = False, on_closeq_int = False,
     on_resetq_int = False, is_fin_sent = False, is_fin_ackd = False, sndbuf = None \<rparr>"

definition zero_stream :: tcp_stream where
  "zero_stream = \<lparr> sock = None, stream_id = 0, stream_type = 0, saddr = 0, daddr = 0, sport = 0,
     dport = 0, state = TCP_ST_CLOSED, close_reason = TCP_NOT_CLOSED, on_hash_table = False,
     on_timewait_list = False, ht_idx = 0, closed = False, is_bound_addr = False,
     need_wnd_adv = False, on_rto_idx = 0, on_timeout_list = False, saw_timestamp = False,
     sack_permit = False, control_list_waiting = False, have_reset = False, is_external = False,
     snd_nxt = 0, rcv_nxt = 0, rcvvar_p = 0, sndvar_p = 0, last_active_ts = 0,
     rcvvar = zero_rcvvar, sndvar = zero_sndvar \<rparr>"

section \<open>Sockets and events\<close>

datatype socktype = MTCP_SOCK_UNUSED | MTCP_SOCK_STREAM | MTCP_SOCK_PROXY | MTCP_SOCK_LISTENER
  | MTCP_SOCK_EPOLL | MTCP_SOCK_PIPE

text \<open>The union in \<^verbatim>\<open>struct socket_map\<close>; \<open>SockNull\<close> is the null pointer.\<close>

datatype sock_obj = SockNull | SockStream sid | SockListener lid | SockEp | SockPipe nat

fun obj_stream :: "sock_obj \<Rightarrow> sid option" where
  "obj_stream (SockStream s) = Some s"
| "obj_stream _ = None"

fun obj_pipe :: "sock_obj \<Rightarrow> nat option" where
  "obj_pipe (SockPipe a) = Some a"
| "obj_pipe _ = None"

record socket_map =
  sock_type :: socktype
  sock_opts :: u32
  sock_saddr :: sockaddr_in
  sock_obj :: sock_obj
  sock_epoll :: u32
  sock_events :: u32
  sock_ep_data :: u64

record mtcp_epoll_event =
  ev_events :: u32
  ev_data :: u64

record mtcp_epoll_event_int =
  ev :: mtcp_epoll_event
  ev_sockid :: int

record event_queue =
  eq_events :: "mtcp_epoll_event_int list"
  eq_start :: int
  eq_end :: int
  eq_size :: int
  eq_num_events :: int

record mtcp_epoll =
  usr_queue :: event_queue
  usr_shadow_queue :: event_queue
  mtcp_queue :: event_queue
  ep_waiting :: bool

record tcp_listener =
  l_sockid :: nat
  l_backlog :: int
  l_acceptq :: "sid click_queue"

text \<open>A pipe; \<open>pipe_state\<close> is compared with \<^verbatim>\<open><\<close> only in the test for \<^verbatim>\<open>PIPE_CLOSED\<close>.\<close>

datatype pipe_state = PIPE_CLOSED | PIPE_ACTIVE | PIPE_CLOSE_WAIT

record pipe =
  pp_state :: pipe_state
  pp_socket0 :: nat
  pp_socket1 :: nat
  pp_buf :: "u8 list"
  pp_off :: int
  pp_tail :: int
  pp_len :: int
  pp_size :: int

section \<open>Configuration and the outside\<close>

record eth_table =
  eth_ifindex :: int
  eth_haddr :: "u8 list"
  eth_ip_addr :: u32
  eth_netmask :: u32

record route_table =
  rt_daddr :: u32
  rt_mask :: u32
  rt_masked :: u32
  rt_prefix :: int
  rt_nif :: int

record arp_entry =
  arp_ip :: u32
  arp_prefix :: int
  arp_ip_mask :: u32
  arp_ip_masked :: u32
  arp_haddr :: "u8 list"

record arp_queue_entry =
  aq_ip :: u32
  aq_nif_out :: int
  aq_ts_out :: u32

text \<open>
  What the stack reads but does not compute: \<^verbatim>\<open>CONFIG\<close>, the outcomes of the C library's
  allocations, of \<^verbatim>\<open>rand_r\<close> and of the I/O module (\<open>wptr n\<close>: whether the \<open>n\<close>-th request for a
  transmit buffer is granted; \<open>hw_csum\<close>: whether the device computes and verifies checksums),
  the bytes a fresh buffer chunk holds and the uninitialised byte that \<^verbatim>\<open>ICMPChecksum\<close> reads.
\<close>

record stack_env =
  max_concurrency :: int
  sndbuf_size :: u32
  tcp_timeout :: int
  tcp_timewait :: u32
  eths :: "eth_table list"
  nif_to_eidx :: "int \<Rightarrow> int"
  rtable :: "route_table list"
  gateway :: "route_table option"
  wptr :: "nat \<Rightarrow> bool"
  hw_csum :: bool
  rand_iss :: nat
  malloc_ok :: bool
  frag_calloc :: "addr option"
  chunk_bytes :: "addr \<Rightarrow> u8 list"
  icmp_junk :: u8

section \<open>The manager\<close>

text \<open>A frame handed to the I/O module: the index of the device and the bytes.\<close>

type_synonym frame = "int \<times> u8 list"

record mtcp_sender =
  control_list :: "sid list"
  send_list :: "sid list"
  ack_list :: "sid list"
  control_list_cnt :: int
  send_list_cnt :: int
  ack_list_cnt :: int

text \<open>\<open>senders m (- 1)\<close> is \<^verbatim>\<open>g_sender\<close>, \<open>senders m i\<close> is \<^verbatim>\<open>n_sender[i]\<close>.
  \<open>ap_dev\<close> is the global array of address pools. \<open>pipes\<close> holds the live pipes, by
  address. \<open>wptr_calls\<close> counts the requests for transmit buffers.\<close>

record mtcp_manager =
  fault :: "c_error option"
  streams :: "sid \<Rightarrow> tcp_stream"
  flow_pool :: mem_pool
  rv_pool :: mem_pool
  sv_pool :: mem_pool
  rbm_snd :: sb_manager
  rbm_rcv :: rb_manager
  flow_table :: "nat \<Rightarrow> sid list"
  smap :: "nat \<Rightarrow> socket_map"
  free_smap :: "nat list"
  pipes :: "nat \<Rightarrow> pipe option"
  ap_core :: "addr_pool option"
  ap_dev :: "int \<Rightarrow> addr_pool option"
  g_id :: u32
  flow_cnt :: u32
  ep :: "mtcp_epoll option"
  ts_last_event :: u32
  listeners :: "nat \<Rightarrow> lid list"
  listener_mem :: "lid \<Rightarrow> tcp_listener"
  connectq :: "sid click_queue"
  sendq :: "sid click_queue"
  ackq :: "sid click_queue"
  closeq :: "sid click_queue"
  closeq_int :: "sid stream_queue_int"
  resetq :: "sid click_queue"
  resetq_int :: "sid stream_queue_int"
  destroyq :: "sid click_queue"
  senders :: "int \<Rightarrow> mtcp_sender"
  rto_now_idx :: u32
  rto_now_ts :: u32
  rto_list :: "nat \<Rightarrow> sid list"
  timewait_list :: "sid list"
  timeout_list :: "sid list"
  rto_list_cnt :: int
  timewait_list_cnt :: int
  timeout_list_cnt :: int
  cur_ts :: u32
  wakeup_flag :: bool
  arp_entries :: "arp_entry list"
  arp_gateway :: "arp_entry option"
  arp_queue :: "arp_queue_entry list"
  tx :: "frame list"
  wptr_calls :: nat

section \<open>Access\<close>

text \<open>The first fault is kept.\<close>

definition raise :: "c_error \<Rightarrow> mtcp_manager \<Rightarrow> mtcp_manager" where
  "raise e m = (case fault m of None \<Rightarrow> m \<lparr> fault := Some e \<rparr> | Some _ \<Rightarrow> m)"

definition upd_stream :: "sid \<Rightarrow> (tcp_stream \<Rightarrow> tcp_stream) \<Rightarrow> mtcp_manager \<Rightarrow> mtcp_manager" where
  "upd_stream s f m = m \<lparr> streams := (streams m)(s := f (streams m s)) \<rparr>"

definition upd_snd :: "sid \<Rightarrow> (tcp_send_vars \<Rightarrow> tcp_send_vars) \<Rightarrow> mtcp_manager \<Rightarrow> mtcp_manager" where
  "upd_snd s f = upd_stream s (\<lambda>t. t \<lparr> sndvar := f (sndvar t) \<rparr>)"

definition upd_rcv :: "sid \<Rightarrow> (tcp_recv_vars \<Rightarrow> tcp_recv_vars) \<Rightarrow> mtcp_manager \<Rightarrow> mtcp_manager" where
  "upd_rcv s f = upd_stream s (\<lambda>t. t \<lparr> rcvvar := f (rcvvar t) \<rparr>)"

abbreviation st :: "mtcp_manager \<Rightarrow> sid \<Rightarrow> tcp_state" where "st m s \<equiv> state (streams m s)"
abbreviation snd_v :: "mtcp_manager \<Rightarrow> sid \<Rightarrow> tcp_send_vars" where "snd_v m s \<equiv> sndvar (streams m s)"
abbreviation rcv_v :: "mtcp_manager \<Rightarrow> sid \<Rightarrow> tcp_recv_vars" where "rcv_v m s \<equiv> rcvvar (streams m s)"

text \<open>\<^verbatim>\<open>TAILQ_REMOVE\<close> on a list of the state, given the list and how to store it.\<close>

definition tq_remove :: "sid \<Rightarrow> sid list \<Rightarrow> (sid list \<Rightarrow> mtcp_manager \<Rightarrow> mtcp_manager) \<Rightarrow> mtcp_manager \<Rightarrow> mtcp_manager" where
  "tq_remove s xs store m = (case tailq_remove xs s of Inl e \<Rightarrow> raise e m | Inr ys \<Rightarrow> store ys m)"

section \<open>Simplification\<close>

text \<open>Rules that compute a field of an updated state; \<open>m_simps\<close> collects those that unfold the
  access functions.\<close>

lemma streams_upd_stream [simp]: "streams (upd_stream s f m) = (streams m)(s := f (streams m s))"
  by (simp add: upd_stream_def)

lemma streams_upd_snd [simp]: "streams (upd_snd s f m) = (streams m)(s := (streams m s) \<lparr> sndvar := f (snd_v m s) \<rparr>)"
  by (simp add: upd_snd_def)

lemma streams_upd_rcv [simp]: "streams (upd_rcv s f m) = (streams m)(s := (streams m s) \<lparr> rcvvar := f (rcv_v m s) \<rparr>)"
  by (simp add: upd_rcv_def)

lemma fault_upd_stream [simp]: "fault (upd_stream s f m) = fault m"
  by (simp add: upd_stream_def)

lemma flow_table_upd_stream [simp]: "flow_table (upd_stream s f m) = flow_table m"
  by (simp add: upd_stream_def)

lemmas m_simps = upd_snd_def upd_rcv_def upd_stream_def

lemma streams_raise [simp]: "streams (raise e m) = streams m"
  by (simp add: raise_def split: option.splits)

lemma fault_raise [simp]: "fault (raise e m) \<noteq> None"
  by (simp add: raise_def split: option.splits)

end
