(* ===== verification/TcpWire.thy ===== *)
theory TcpWire
  imports Stream
begin

text \<open>
  The wire format: the checksum and the option parsers of \<^verbatim>\<open>tcp_util.c\<close>, the option writers of
  \<^verbatim>\<open>tcp_out.c\<close>, and the TCP header as the bytes that \<^verbatim>\<open>struct tcphdr\<close> overlays. Memory
  is a list of bytes; a read outside it is an error. The parsers' loops need not end, so
  they are partial functions whose value \<open>None\<close> is a loop without end.
\<close>

section \<open>Constants\<close>

definition TCP_HEADER_LEN :: nat where "TCP_HEADER_LEN = 20"
definition TCP_DEFAULT_MSS :: nat where "TCP_DEFAULT_MSS = 1460"
definition TCP_MAX_WINDOW :: nat where "TCP_MAX_WINDOW = 65535"

definition TCP_FLAG_FIN :: u8 where "TCP_FLAG_FIN = 0x01"
definition TCP_FLAG_SYN :: u8 where "TCP_FLAG_SYN = 0x02"
definition TCP_FLAG_RST :: u8 where "TCP_FLAG_RST = 0x04"
definition TCP_FLAG_PSH :: u8 where "TCP_FLAG_PSH = 0x08"
definition TCP_FLAG_ACK :: u8 where "TCP_FLAG_ACK = 0x10"
definition TCP_FLAG_WACK :: u8 where "TCP_FLAG_WACK = 0x80"

lemmas tcp_flag_defs = TCP_FLAG_FIN_def TCP_FLAG_SYN_def TCP_FLAG_RST_def TCP_FLAG_PSH_def TCP_FLAG_ACK_def TCP_FLAG_WACK_def

definition TCP_OPT_END :: u8 where "TCP_OPT_END = 0"
definition TCP_OPT_NOP :: u8 where "TCP_OPT_NOP = 1"
definition TCP_OPT_MSS :: u8 where "TCP_OPT_MSS = 2"
definition TCP_OPT_WSCALE :: u8 where "TCP_OPT_WSCALE = 3"
definition TCP_OPT_SACK_PERMIT :: u8 where "TCP_OPT_SACK_PERMIT = 4"
definition TCP_OPT_TIMESTAMP :: u8 where "TCP_OPT_TIMESTAMP = 8"
definition TCP_OPT_MSS_LEN :: nat where "TCP_OPT_MSS_LEN = 4"
definition TCP_OPT_WSCALE_LEN :: nat where "TCP_OPT_WSCALE_LEN = 3"
definition TCP_OPT_TIMESTAMP_LEN :: nat where "TCP_OPT_TIMESTAMP_LEN = 10"

lemmas tcp_opt_defs = TCP_OPT_END_def TCP_OPT_NOP_def TCP_OPT_MSS_def TCP_OPT_WSCALE_def TCP_OPT_SACK_PERMIT_def
  TCP_OPT_TIMESTAMP_def TCP_OPT_MSS_LEN_def TCP_OPT_WSCALE_LEN_def TCP_OPT_TIMESTAMP_LEN_def

section \<open>The checksum\<close>

text \<open>The summation loop over 16-bit words. After a segment of odd length the source reads one more byte
  and masks it away.\<close>

fun sum_words :: "u8 list \<Rightarrow> u32 \<Rightarrow> u32" where
  "sum_words (a # b # bs) acc = sum_words bs (acc + ucast (word16 a b))"
| "sum_words [a] acc = acc + ucast a"
| "sum_words [] acc = acc"

definition csum_fold :: "u32 \<Rightarrow> u16" where
  "csum_fold s = (let s1 = drop_bit 16 s + (s AND 0xFFFF); s2 = s1 + drop_bit 16 s1 in ucast (NOT s2))"

definition TCPCalcChecksum :: "u8 list \<Rightarrow> u32 \<Rightarrow> u32 \<Rightarrow> u16" where
  "TCPCalcChecksum buf sa da =
    (let s0 = sum_words buf 0;
         s1 = s0 + ((sa AND 0x0000FFFF) + drop_bit 16 sa);
         s2 = s1 + ((da AND 0x0000FFFF) + drop_bit 16 da);
         s3 = s2 + ucast (htons (of_nat (length buf)));
         s4 = s3 + ucast (htons 6) in
     csum_fold s4)"

section \<open>The header\<close>

text \<open>The fields as memory holds them (network order); \<^verbatim>\<open>doff\<close> is a 4-bit field.\<close>

record tcphdr =
  th_source :: u16
  th_dest :: u16
  th_seq :: u32
  th_ack_seq :: u32
  th_doff :: nat
  th_fin :: bool
  th_syn :: bool
  th_rst :: bool
  th_psh :: bool
  th_ack :: bool
  th_window :: u16
  th_check :: u16

definition flag_byte :: "tcphdr \<Rightarrow> u8" where
  "flag_byte h = (if th_fin h then 0x01 else 0) OR (if th_syn h then 0x02 else 0) OR
     (if th_rst h then 0x04 else 0) OR (if th_psh h then 0x08 else 0) OR (if th_ack h then 0x10 else 0)"

definition tcphdr_bytes :: "tcphdr \<Rightarrow> u8 list" where
  "tcphdr_bytes h = bytes16 (th_source h) @ bytes16 (th_dest h) @ bytes32 (th_seq h) @ bytes32 (th_ack_seq h) @
     [push_bit 4 (of_nat (th_doff h)), flag_byte h] @ bytes16 (th_window h) @ bytes16 (th_check h) @ [0, 0]"

definition tcphdr_of :: "u8 list \<Rightarrow> tcphdr" where
  "tcphdr_of b = \<lparr> th_source = word16 (b ! 0) (b ! 1), th_dest = word16 (b ! 2) (b ! 3),
     th_seq = word32 (b ! 4) (b ! 5) (b ! 6) (b ! 7), th_ack_seq = word32 (b ! 8) (b ! 9) (b ! 10) (b ! 11),
     th_doff = unat (drop_bit 4 (b ! 12)),
     th_fin = bit (b ! 13) 0, th_syn = bit (b ! 13) 1, th_rst = bit (b ! 13) 2, th_psh = bit (b ! 13) 3,
     th_ack = bit (b ! 13) 4,
     th_window = word16 (b ! 14) (b ! 15), th_check = word16 (b ! 16) (b ! 17) \<rparr>"

section \<open>Writing options\<close>

definition CalculateOptionLength :: "u8 \<Rightarrow> nat" where
  "CalculateOptionLength flags =
    (if flags AND TCP_FLAG_SYN \<noteq> 0
     then TCP_OPT_MSS_LEN + TCP_OPT_TIMESTAMP_LEN + 2 + (TCP_OPT_WSCALE_LEN + 1)
     else TCP_OPT_TIMESTAMP_LEN + 2)"

definition GenerateTCPTimestamp :: "u32 \<Rightarrow> u32 \<Rightarrow> u8 list" where
  "GenerateTCPTimestamp now recent =
     [TCP_OPT_TIMESTAMP, of_nat TCP_OPT_TIMESTAMP_LEN] @ bytes32 (htonl now) @ bytes32 (htonl recent)"

definition GenerateTCPOptions :: "tcp_stream \<Rightarrow> u32 \<Rightarrow> u8 \<Rightarrow> u8 list" where
  "GenerateTCPOptions cur_stream now flags =
    (if flags AND TCP_FLAG_SYN \<noteq> 0
     then [TCP_OPT_MSS, of_nat TCP_OPT_MSS_LEN, ucast (drop_bit 8 (mss (sndvar cur_stream))),
           ucast (mss (sndvar cur_stream) mod 256), TCP_OPT_NOP, TCP_OPT_NOP] @
          GenerateTCPTimestamp now (ts_recent (rcvvar cur_stream)) @
          [TCP_OPT_NOP, TCP_OPT_WSCALE, of_nat TCP_OPT_WSCALE_LEN, wscale_mine (sndvar cur_stream)]
     else [TCP_OPT_NOP, TCP_OPT_NOP] @ GenerateTCPTimestamp now (ts_recent (rcvvar cur_stream)))"

section \<open>Reading options\<close>

definition rd :: "u8 list \<Rightarrow> int \<Rightarrow> u8 option" where
  "rd mem i = (if 0 \<le> i \<and> i < int (length mem) then Some (mem ! nat i) else None)"

definition rd32 :: "u8 list \<Rightarrow> int \<Rightarrow> u32 option" where
  "rd32 mem i = (if 0 \<le> i \<and> i + 3 < int (length mem)
     then Some (word32 (mem ! nat i) (mem ! (nat i + 1)) (mem ! (nat i + 2)) (mem ! (nat i + 3))) else None)"

text \<open>One option of \<^verbatim>\<open>ParseTCPOptions\<close> whose kind and length have been read; \<open>i\<close> is the
  index after them. The result is the index to go on from.\<close>

definition parse_option :: "u32 \<Rightarrow> u8 list \<Rightarrow> u8 \<Rightarrow> u8 \<Rightarrow> int \<Rightarrow> tcp_stream \<Rightarrow> (int \<times> tcp_stream) c_result" where
  "parse_option now mem opt optlen i s =
    (if opt = TCP_OPT_MSS then
       (case (rd mem i, rd mem (i + 1)) of
          (Some hi, Some lo) \<Rightarrow>
            let v = push_bit 8 (ucast hi) + ucast lo in
            Inr (i + 2, s \<lparr> sndvar := (sndvar s) \<lparr> mss := v,
              eff_mss := v - of_nat (TCP_OPT_TIMESTAMP_LEN + 2) \<rparr> \<rparr>)
        | _ \<Rightarrow> Inl OutOfBounds)
     else if opt = TCP_OPT_WSCALE then
       (case rd mem i of Some b \<Rightarrow> Inr (i + 1, s \<lparr> sndvar := (sndvar s) \<lparr> wscale_peer := b \<rparr> \<rparr>)
        | None \<Rightarrow> Inl OutOfBounds)
     else if opt = TCP_OPT_SACK_PERMIT then Inr (i, s \<lparr> sack_permit := True \<rparr>)
     else if opt = TCP_OPT_TIMESTAMP then
       (case rd32 mem i of Some v \<Rightarrow> Inr (i + 8, s \<lparr> saw_timestamp := True,
            rcvvar := (rcvvar s) \<lparr> ts_recent := ntohl v, ts_last_ts_upd := now \<rparr> \<rparr>)
        | None \<Rightarrow> Inl OutOfBounds)
     else Inr (i + (uint optlen - 2), s))"

partial_function (option) parse_options ::
  "u32 \<Rightarrow> u8 list \<Rightarrow> int \<Rightarrow> int \<Rightarrow> tcp_stream \<Rightarrow> tcp_stream c_result option" where
  "parse_options now mem len i s =
    (if \<not> i < len then Some (Inr s)
     else case rd mem i of None \<Rightarrow> Some (Inl OutOfBounds)
     | Some opt \<Rightarrow>
       if opt = TCP_OPT_END then Some (Inr s)
       else if opt = TCP_OPT_NOP then parse_options now mem len (i + 1) s
       else case rd mem (i + 1) of None \<Rightarrow> Some (Inl OutOfBounds)
       | Some optlen \<Rightarrow>
         if len < i + 2 + uint optlen - 2 then Some (Inr s)
         else case parse_option now mem opt optlen (i + 2) s of
           Inl e \<Rightarrow> Some (Inl e)
         | Inr (j, s') \<Rightarrow> parse_options now mem len j s')"

definition ParseTCPOptions :: "tcp_stream \<Rightarrow> u32 \<Rightarrow> u8 list \<Rightarrow> int \<Rightarrow> tcp_stream c_result option" where
  "ParseTCPOptions cur_stream now tcpopt len = parse_options now tcpopt len 0 cur_stream"

text \<open>The value and the echo of the first timestamp option.\<close>

partial_function (option) parse_timestamp ::
  "u8 list \<Rightarrow> int \<Rightarrow> int \<Rightarrow> (u32 \<times> u32) option c_result option" where
  "parse_timestamp mem len i =
    (if \<not> i < len then Some (Inr None)
     else case rd mem i of None \<Rightarrow> Some (Inl OutOfBounds)
     | Some opt \<Rightarrow>
       if opt = TCP_OPT_END then Some (Inr None)
       else if opt = TCP_OPT_NOP then parse_timestamp mem len (i + 1)
       else case rd mem (i + 1) of None \<Rightarrow> Some (Inl OutOfBounds)
       | Some optlen \<Rightarrow>
         if len < i + 2 + uint optlen - 2 then Some (Inr None)
         else if opt = TCP_OPT_TIMESTAMP then
           (case (rd32 mem (i + 2), rd32 mem (i + 6)) of
              (Some v, Some r) \<Rightarrow> Some (Inr (Some (ntohl v, ntohl r)))
            | _ \<Rightarrow> Some (Inl OutOfBounds))
         else parse_timestamp mem len (i + uint optlen))"

definition ParseTCPTimestamp :: "u8 list \<Rightarrow> int \<Rightarrow> (u32 \<times> u32) option c_result option" where
  "ParseTCPTimestamp tcpopt len = parse_timestamp tcpopt len 0"

declare parse_options.simps [code] parse_timestamp.simps [code]

section \<open>The checksum as arithmetic\<close>

text \<open>The one's complement sum in natural numbers.\<close>

fun wsum :: "u8 list \<Rightarrow> nat" where
  "wsum (a # b # bs) = unat (word16 a b) + wsum bs"
| "wsum [a] = unat a"
| "wsum [] = 0"

lemma unat16_less: "unat (w :: u16) < 65536"
  using unsigned_less [of w, where 'a = nat] by simp

lemma unat8_less: "unat (w :: u8) < 256"
  using unsigned_less [of w, where 'a = nat] by simp

lemma wsum_le: "wsum bs \<le> 32768 * length bs"
proof (induction bs rule: wsum.induct)
  case (1 a b bs)
  then show ?case using unat16_less [of "word16 a b"] by simp
next
  case (2 a)
  then show ?case using unat8_less [of a] by simp
qed simp

lemma unat_ucast16: "unat (ucast (w :: u16) :: u32) = unat w"
  using unat16_less [of w] by (simp add: unsigned_ucast_eq unsigned_take_bit_eq take_bit_eq_mod)

lemma unat_ucast8: "unat (ucast (w :: u8) :: u32) = unat w"
  using unat8_less [of w] by (simp add: unsigned_ucast_eq unsigned_take_bit_eq take_bit_eq_mod)

lemma unat_sum_words: "unat acc + wsum bs < 2 ^ 32 \<Longrightarrow> unat (sum_words bs acc) = unat acc + wsum bs"
proof (induction bs acc rule: sum_words.induct)
  case (1 a b bs acc)
  then have "unat (acc + ucast (word16 a b)) = unat acc + unat (word16 a b)"
    by (subst unat_add_small) (simp_all add: unat_ucast16)
  with 1 show ?case by simp
next
  case (2 a acc)
  then show ?case by (simp add: unat_add_small unat_ucast8)
qed simp

lemma wsum_append: "even (length xs) \<Longrightarrow> wsum (xs @ ys) = wsum xs + wsum ys"
  by (induction xs rule: wsum.induct) simp_all

definition fold16 :: "nat \<Rightarrow> nat" where
  "fold16 t = (if t div 65536 + t mod 65536 < 65536 then t div 65536 + t mod 65536
     else t div 65536 + t mod 65536 - 65535)"

lemma unat_and_FFFF: "unat (s AND 0xFFFF :: u32) = unat s mod 65536"
proof -
  have "(0xFFFF :: u32) = mask 16" by (simp add: mask_eq_exp_minus_1)
  then show ?thesis by (simp only: take_bit_eq_mask [symmetric] unsigned_take_bit_eq) (simp add: take_bit_eq_mod)
qed

lemma unat_drop_16: "unat (drop_bit 16 (s :: u32)) = unat s div 65536"
  by (simp add: drop_bit_eq_div unat_div_distrib)

lemma unat_not16: "unat (NOT (v :: u16)) = 65535 - unat v"
proof -
  have m: "unat (- 1 :: u16) = 65535" by (simp add: unsigned_minus_1_eq_mask mask_eq_exp_minus_1)
  have "v \<le> - 1" unfolding word_le_nat_alt m using unat16_less [of v] by simp
  then have "unat (- 1 - v) = 65535 - unat v" by (simp only: unat_sub m)
  moreover have "NOT v = - 1 - v" by (simp add: not_eq_complement)
  ultimately show ?thesis by simp
qed

lemma unat_csum_fold: "unat (csum_fold s) = 65535 - fold16 (unat s)"
proof -
  define h l where "h = unat s div 65536" and "l = unat s mod 65536"
  define s1 where "s1 = drop_bit 16 s + (s AND 0xFFFF)"
  have hl: "h < 65536" "l < 65536" using unat_lt_2p32 [of s] by (auto simp: h_def l_def)
  have s1: "unat s1 = h + l"
    unfolding s1_def using hl by (subst unat_add_small) (simp_all add: unat_drop_16 unat_and_FFFF h_def l_def)
  have s2: "unat (s1 + drop_bit 16 s1) = h + l + (h + l) div 65536"
    using hl by (subst unat_add_small) (simp_all add: unat_drop_16 s1)
  have "unat (ucast (NOT (s1 + drop_bit 16 s1)) :: u16) = 65535 - (h + l + (h + l) div 65536) mod 65536"
  proof -
    have "(ucast (NOT w) :: u16) = NOT (ucast w)" for w :: u32
      by (rule bit_word_eqI) (auto simp: bit_simps)
    then show ?thesis
      by (simp add: unat_not16 unsigned_ucast_eq unsigned_take_bit_eq take_bit_eq_mod s2)
  qed
  moreover have "(h + l + (h + l) div 65536) mod 65536 = fold16 (unat s)"
  proof (cases "h + l < 65536")
    case True
    then show ?thesis by (simp add: fold16_def h_def [symmetric] l_def [symmetric])
  next
    case False
    have "(h + l) div 65536 = 1" using hl False by (intro div_nat_eqI) simp_all
    moreover have "(h + l + 1) mod 65536 = h + l + 1 - 65536" using hl False by (subst mod_if) simp
    ultimately show ?thesis using False by (simp add: fold16_def h_def [symmetric] l_def [symmetric])
  qed
  ultimately show ?thesis by (simp add: csum_fold_def Let_def s1_def)
qed

text \<open>Folding computes the residue modulo 65535, represented by 65535 instead of 0.\<close>

lemma fold16_cong: "\<exists>k. t = fold16 t + 65535 * k"
proof -
  have "t = t mod 65536 + 65536 * (t div 65536)" by simp
  then show ?thesis
    by (cases "t div 65536 + t mod 65536 < 65536")
      (auto simp: fold16_def intro: exI [of _ "t div 65536"] exI [of _ "t div 65536 + 1"])
qed

lemma fold16_le: "t < 2 ^ 32 \<Longrightarrow> fold16 t \<le> 65535"
  by (auto simp: fold16_def)

lemma fold16_zero: "fold16 t = 0 \<Longrightarrow> t = 0"
  by (auto simp: fold16_def split: if_splits)

lemma fold16_multiple:
  assumes "t = 65535 * Suc k" "t < 2 ^ 32"
  shows "fold16 t = 65535"
proof -
  obtain j where j: "65535 * Suc k = fold16 t + 65535 * j" using fold16_cong [of t] assms(1) by auto
  then have "65535 * int (Suc k) = int (fold16 t) + 65535 * int j" by (metis of_nat_add of_nat_mult of_nat_numeral)
  then have "int (fold16 t) = 65535 * (int (Suc k) - int j)" by (simp add: algebra_simps)
  moreover have "0 < fold16 t" "fold16 t \<le> 65535" using fold16_zero [of t] fold16_le [of t] assms by auto
  ultimately have "0 < int (Suc k) - int j" "int (Suc k) - int j \<le> 1" by (auto simp: zero_less_mult_iff)
  with \<open>int (fold16 t) = 65535 * (int (Suc k) - int j)\<close> show ?thesis by auto
qed

lemma TCPCalcChecksum_fold:
  assumes "length buf < 65536"
  shows "\<exists>p. (\<forall>bs. length bs = length buf \<longrightarrow>
      unat (TCPCalcChecksum bs sa da) = 65535 - fold16 (wsum bs + p)) \<and> p \<le> 6 * 65536"
proof -
  let ?a = "(sa AND 0x0000FFFF) + drop_bit 16 sa" and ?b = "(da AND 0x0000FFFF) + drop_bit 16 da"
  let ?c = "ucast (htons (of_nat (length buf))) :: u32" and ?d = "ucast (htons 6) :: u32"
  have half: "unat ((x AND 0x0000FFFF) + drop_bit 16 x) \<le> 2 * 65535" for x :: u32
  proof -
    have "unat (x AND 0x0000FFFF) \<le> 65535" "unat (drop_bit 16 x) \<le> 65535"
      using unat_lt_2p32 [of x] by (simp_all add: unat_and_FFFF [simplified] unat_drop_16)
    then show ?thesis by (subst unat_add_small) simp_all
  qed
  have cd: "unat ?c \<le> 65535" "unat ?d \<le> 65535"
    using unat16_less [of "htons (of_nat (length buf))"] unat16_less [of "htons 6"] by (simp_all add: unat_ucast16)
  define p where "p = unat ?a + unat ?b + unat ?c + unat ?d"
  have p: "p \<le> 6 * 65535" using half [of sa] half [of da] cd by (simp add: p_def)
  have "unat (TCPCalcChecksum bs sa da) = 65535 - fold16 (wsum bs + p)" if len: "length bs = length buf" for bs
  proof -
    have w: "wsum bs \<le> 32768 * 65535" using wsum_le [of bs] len assms by simp
    then have s: "unat (sum_words bs 0) = wsum bs" by (subst unat_sum_words) simp_all
    have "unat (sum_words bs 0 + ?a + ?b + ?c + ?d) = wsum bs + p"
      using w p s by (simp add: unat_add_small p_def)
    then show ?thesis by (simp add: TCPCalcChecksum_def Let_def len unat_csum_fold)
  qed
  with p show ?thesis by (intro exI [of _ p]) simp
qed

lemma word16_zero [simp]: "word16 0 0 = 0"
  by (simp add: word16_def)

text \<open>Storing the computed value where the field was zero makes the checksum of the whole zero.\<close>

lemma checksum_verifies:
  assumes "even (length pre)" "length (pre @ [0, 0] @ post) < 65536"
    and "c = TCPCalcChecksum (pre @ [0, 0] @ post) sa da"
  shows "TCPCalcChecksum (pre @ bytes16 c @ post) sa da = 0"
proof -
  let ?b0 = "pre @ [0, 0] @ post" and ?b1 = "pre @ bytes16 c @ post"
  obtain p where p: "\<And>bs. length bs = length ?b0 \<Longrightarrow> unat (TCPCalcChecksum bs sa da) = 65535 - fold16 (wsum bs + p)"
    "p \<le> 6 * 65536" using TCPCalcChecksum_fold [OF assms(2)] by blast
  have w0: "wsum ?b0 = wsum pre + wsum post" using assms(1) by (simp add: wsum_append word16_def)
  have w1: "wsum ?b1 = wsum ?b0 + unat c" using assms(1) by (simp add: wsum_append bytes16_def w0)
  have c: "unat c = 65535 - fold16 (wsum ?b0 + p)" using p(1) [of ?b0] assms(3) by simp
  have small: "wsum ?b1 \<le> 32768 * 65535" using wsum_le [of ?b1] assms(2) by simp
  have small0: "wsum ?b0 + p < 2 ^ 32" using small w1 p(2) by simp
  obtain k where k: "wsum ?b0 + p = fold16 (wsum ?b0 + p) + 65535 * k" using fold16_cong by blast
  have "wsum ?b1 + p = 65535 * Suc k" using k c w1 fold16_le [OF small0] by simp
  then have "fold16 (wsum ?b1 + p) = 65535" using small p(2) by (intro fold16_multiple) simp_all
  then have "unat (TCPCalcChecksum ?b1 sa da) = 0" using p(1) [of ?b1] by simp
  then show ?thesis by (simp add: unat_eq_zero)
qed

section \<open>The header round trip\<close>

lemma flag_byte_bits:
  "bit (flag_byte h) 0 = th_fin h" "bit (flag_byte h) 1 = th_syn h" "bit (flag_byte h) 2 = th_rst h"
  "bit (flag_byte h) 3 = th_psh h" "bit (flag_byte h) 4 = th_ack h"
  by (auto simp: flag_byte_def bit_simps)

lemma length_tcphdr_bytes [simp]: "length (tcphdr_bytes h) = 20"
  by (simp add: tcphdr_bytes_def)

lemma tcphdr_of_bytes:
  assumes "th_doff h < 16"
  shows "tcphdr_of (tcphdr_bytes h @ rest) = h"
proof -
  have "unat (drop_bit 4 (push_bit 4 (of_nat n :: u8))) = n" if "n < 16" for n
    using that by (simp add: drop_bit_eq_div push_bit_eq_mult unat_div_distrib unat_word_ariths unat_of_nat)
  with assms show ?thesis
    by (cases h) (simp add: tcphdr_of_def tcphdr_bytes_def bytes16_def bytes32_def flag_byte_bits [simplified])
qed

section \<open>Options: reads, progress and the round trip\<close>

lemma rd_SomeI: "0 \<le> i \<Longrightarrow> i < int (length mem) \<Longrightarrow> rd mem i = Some (mem ! nat i)"
  by (simp add: rd_def)

lemma rd32_SomeI: "0 \<le> i \<Longrightarrow> i + 3 < int (length mem) \<Longrightarrow>
    rd32 mem i = Some (word32 (mem ! nat i) (mem ! (nat i + 1)) (mem ! (nat i + 2)) (mem ! (nat i + 3)))"
  by (simp add: rd32_def)

text \<open>The lengths of all options from \<open>i\<close> on make the parser move forward: no option that is skipped by its
  length has a length below 2. Kinds with a fixed size move by that size.\<close>

definition skips_forward :: "u8 list \<Rightarrow> bool" where
  "skips_forward mem \<longleftrightarrow> (\<forall>i. i + 1 < length mem \<longrightarrow>
     mem ! i \<notin> {TCP_OPT_END, TCP_OPT_NOP, TCP_OPT_MSS, TCP_OPT_WSCALE, TCP_OPT_SACK_PERMIT, TCP_OPT_TIMESTAMP} \<longrightarrow>
     0 < unat (mem ! (i + 1)))"

lemma parse_option_progress:
  assumes fwd: "skips_forward mem" and mem: "len + 5 \<le> int (length mem)" and i: "0 \<le> i" "i < len"
    and opt: "opt = mem ! nat i" "opt \<noteq> TCP_OPT_END" "opt \<noteq> TCP_OPT_NOP" and optlen: "optlen = mem ! (nat i + 1)"
    and ok: "\<not> len < i + 2 + uint optlen - 2"
  shows "\<exists>j s'. parse_option now mem opt optlen (i + 2) s = Inr (j, s') \<and> i < j"
proof -
  have r: "rd mem (i + 2) = Some (mem ! nat (i + 2))" "rd mem (i + 2 + 1) = Some (mem ! nat (i + 2 + 1))"
    "\<exists>v. rd32 mem (i + 2) = Some v"
    using i mem by (simp_all add: rd_SomeI rd32_SomeI)
  have "i < i + 2 + (uint optlen - 2)" if "opt \<notin> {TCP_OPT_MSS, TCP_OPT_WSCALE, TCP_OPT_SACK_PERMIT, TCP_OPT_TIMESTAMP}"
  proof -
    have "nat i + 1 < length mem" using i mem by simp
    then have "0 < unat optlen" using fwd that opt optlen by (auto simp: skips_forward_def)
    then have "0 < uint optlen" by (metis of_nat_0_less_iff of_nat_unat)
    then show ?thesis by simp
  qed
  with r show ?thesis by (auto simp: parse_option_def Let_def)
qed

text \<open>Then the parser returns, and it reads at most five bytes past the options.\<close>

lemma parse_options_returns:
  assumes fwd: "skips_forward mem" and mem: "len + 5 \<le> int (length mem)"
  shows "0 \<le> i \<Longrightarrow> \<exists>s'. parse_options now mem len i s = Some (Inr s')"
proof (induction "nat (len - i)" arbitrary: i s rule: less_induct)
  case less
  show ?case
  proof (cases "i < len")
    case False
    then show ?thesis by (subst parse_options.simps) simp
  next
    case True
    define opt optlen where "opt = mem ! nat i" and "optlen = mem ! (nat i + 1)"
    have r: "rd mem i = Some opt" "rd mem (i + 1) = Some optlen"
      using less.prems True mem by (simp_all add: rd_SomeI opt_def optlen_def nat_add_distrib)
    show ?thesis
    proof (cases "opt = TCP_OPT_END \<or> opt \<noteq> TCP_OPT_NOP \<and> len < i + 2 + uint optlen - 2")
      case True
      with r show ?thesis by (subst parse_options.simps) auto
    next
      case go: False
      show ?thesis
      proof (cases "opt = TCP_OPT_NOP")
        case True
        with less.hyps [of "i + 1" s] less.prems \<open>i < len\<close> r go show ?thesis
          by (subst parse_options.simps) auto
      next
        case False
        then obtain j s' where "parse_option now mem opt optlen (i + 2) s = Inr (j, s')" "i < j"
          using parse_option_progress [OF fwd mem less.prems True opt_def _ _ optlen_def, of now s] go by auto
        with less.hyps [of j s'] less.prems \<open>i < len\<close> r go False show ?thesis
          by (subst parse_options.simps) auto
      qed
    qed
  qed
qed

text \<open>An unknown option of length 0 is never left.\<close>

lemma parse_options_stuck:
  assumes "parse_options now mem len i s = Some r"
    and "i < len" "0 \<le> i" "i + 1 < int (length mem)" "mem ! nat (i + 1) = 0"
    and "mem ! nat i \<notin> {TCP_OPT_END, TCP_OPT_NOP, TCP_OPT_MSS, TCP_OPT_WSCALE, TCP_OPT_SACK_PERMIT, TCP_OPT_TIMESTAMP}"
  shows False
proof -
  let ?stuck = "\<lambda>mem len i. i < len \<and> 0 \<le> i \<and> i + 1 < int (length mem) \<and> mem ! nat (i + 1) = 0 \<and>
    mem ! nat i \<notin> {TCP_OPT_END, TCP_OPT_NOP, TCP_OPT_MSS, TCP_OPT_WSCALE, TCP_OPT_SACK_PERMIT, TCP_OPT_TIMESTAMP}"
  have "\<not> ?stuck mem len i"
  proof (rule parse_options.raw_induct [where P = "\<lambda>now mem len i s r. \<not> ?stuck mem len i", OF _ assms(1)], rule notI)
    fix f now mem len i s r
    assume IH: "\<And>now mem len i s r. f now mem len i s = Some r \<Longrightarrow> \<not> ?stuck mem len i"
      and body: "(if \<not> i < len then Some (Inr s)
        else case rd mem i of None \<Rightarrow> Some (Inl OutOfBounds)
        | Some opt \<Rightarrow>
          if opt = TCP_OPT_END then Some (Inr s)
          else if opt = TCP_OPT_NOP then f now mem len (i + 1) s
          else case rd mem (i + 1) of None \<Rightarrow> Some (Inl OutOfBounds)
          | Some optlen \<Rightarrow>
            if len < i + 2 + uint optlen - 2 then Some (Inr s)
            else case parse_option now mem opt optlen (i + 2) s of
              Inl e \<Rightarrow> Some (Inl e)
            | Inr (j, s') \<Rightarrow> f now mem len j s') = Some r"
      and stuck: "?stuck mem len i"
    then have "rd mem i = Some (mem ! nat i)" "rd mem (i + 1) = Some 0" by (simp_all add: rd_SomeI)
    with body stuck have "f now mem len i s = Some r" by (auto simp: parse_option_def)
    with IH stuck show False by blast
  qed
  with assms(2-) show False by blast
qed

lemma mss_bytes: "push_bit 8 (ucast (ucast (drop_bit 8 m) :: u8)) + ucast (ucast (m mod 256) :: u8) = (m :: u16)"
proof -
  have lo: "ucast (ucast w :: u8) = take_bit 8 (w :: u16)" for w
    by (rule bit_word_eqI) (auto simp: bit_simps)
  have "take_bit 8 (drop_bit 8 m) = drop_bit 8 m"
    by (rule bit_word_eqI) (auto simp: bit_simps dest: bit_imp_le_length [of m])
  moreover have "m mod 256 = take_bit 8 m" by (simp add: take_bit_eq_mod)
  ultimately show ?thesis by (simp only: lo take_bit_take_bit) (simp add: bits_ident)
qed

lemma parse_options_end: "\<not> i < len \<Longrightarrow> parse_options now mem len i s = Some (Inr s)"
  by (subst parse_options.simps) simp

lemma parse_options_nop:
  "i < len \<Longrightarrow> rd mem i = Some TCP_OPT_NOP \<Longrightarrow> parse_options now mem len i s = parse_options now mem len (i + 1) s"
  by (subst parse_options.simps) (simp add: tcp_opt_defs)

lemma parse_options_opt:
  "i < len \<Longrightarrow> rd mem i = Some opt \<Longrightarrow> opt \<noteq> TCP_OPT_END \<Longrightarrow> opt \<noteq> TCP_OPT_NOP \<Longrightarrow> rd mem (i + 1) = Some optlen \<Longrightarrow>
    i + uint optlen \<le> len \<Longrightarrow> parse_option now mem opt optlen (i + 2) s = Inr (j, s') \<Longrightarrow>
    parse_options now mem len i s = parse_options now mem len j s'"
  by (subst parse_options.simps) simp

lemma parse_SYN_options:
  assumes "opts = GenerateTCPOptions t ts (flags OR TCP_FLAG_SYN)"
  shows "parse_options now (opts @ rest) 20 0 s = Some (Inr (s \<lparr>
    sndvar := (sndvar s) \<lparr> mss := mss (sndvar t), eff_mss := mss (sndvar t) - 12, wscale_peer := wscale_mine (sndvar t) \<rparr>,
    saw_timestamp := True, rcvvar := (rcvvar s) \<lparr> ts_recent := ts, ts_last_ts_upd := now \<rparr> \<rparr>))"
proof -
  let ?mem = "opts @ rest"
  have "(flags OR TCP_FLAG_SYN) AND TCP_FLAG_SYN \<noteq> 0"
    by (auto simp: TCP_FLAG_SYN_def bit_eq_iff bit_simps intro: exI [of _ 1])
  then have opts: "opts = [2, 4, ucast (drop_bit 8 (mss (sndvar t))), ucast (mss (sndvar t) mod 256), 1, 1, 8, 10] @
      bytes32 (htonl ts) @ bytes32 (htonl (ts_recent (rcvvar t))) @ [1, 3, 3, wscale_mine (sndvar t)]"
    using assms by (simp add: GenerateTCPOptions_def GenerateTCPTimestamp_def tcp_opt_defs)
  let ?s1 = "s \<lparr> sndvar := (sndvar s) \<lparr> mss := mss (sndvar t), eff_mss := mss (sndvar t) - 12 \<rparr> \<rparr>"
  let ?s2 = "?s1 \<lparr> saw_timestamp := True, rcvvar := (rcvvar s) \<lparr> ts_recent := ts, ts_last_ts_upd := now \<rparr> \<rparr>"
  have 1: "parse_options now ?mem 20 0 s = parse_options now ?mem 20 4 ?s1"
    by (rule parse_options_opt [where opt = 2 and optlen = 4])
      (simp_all add: opts rd_def bytes32_def parse_option_def Let_def mss_bytes tcp_opt_defs)
  have 2: "parse_options now ?mem 20 4 x = parse_options now ?mem 20 5 x"
      "parse_options now ?mem 20 5 x = parse_options now ?mem 20 6 x"
      "parse_options now ?mem 20 16 x = parse_options now ?mem 20 17 x" for x
    by (subst parse_options_nop; simp add: opts rd_def bytes32_def tcp_opt_defs)+
  have 3: "parse_options now ?mem 20 6 ?s1 = parse_options now ?mem 20 16 ?s2"
    by (rule parse_options_opt [where opt = 8 and optlen = 10])
      (simp_all add: opts rd_def rd32_def bytes32_def parse_option_def Let_def tcp_opt_defs)
  have 4: "parse_options now ?mem 20 17 ?s2 = parse_options now ?mem 20 20
      (?s2 \<lparr> sndvar := (sndvar ?s2) \<lparr> wscale_peer := wscale_mine (sndvar t) \<rparr> \<rparr>)"
    by (rule parse_options_opt [where opt = 3 and optlen = 3])
      (simp_all add: opts rd_def bytes32_def parse_option_def Let_def tcp_opt_defs)
  show ?thesis by (simp only: 1 2 3 4) (simp add: parse_options_end)
qed

lemma parse_ACK_timestamp:
  assumes "opts = GenerateTCPOptions t ts flags" "flags AND TCP_FLAG_SYN = 0"
  shows "parse_timestamp (opts @ rest) 12 0 = Some (Inr (Some (ts, ts_recent (rcvvar t))))"
proof -
  have opts: "opts = [1, 1, 8, 10] @ bytes32 (htonl ts) @ bytes32 (htonl (ts_recent (rcvvar t)))"
    using assms by (simp add: GenerateTCPOptions_def GenerateTCPTimestamp_def tcp_opt_defs)
  have nop: "parse_timestamp (opts @ rest) 12 i = parse_timestamp (opts @ rest) 12 (i + 1)" if "i = 0 \<or> i = 1" for i
    using that by (subst parse_timestamp.simps) (auto simp: opts rd_def tcp_opt_defs)
  have "parse_timestamp (opts @ rest) 12 2 = Some (Inr (Some (ts, ts_recent (rcvvar t))))"
    by (subst parse_timestamp.simps) (simp add: opts rd_def rd32_def bytes32_def tcp_opt_defs)
  with nop [of 0] nop [of 1] show ?thesis by simp
qed

section \<open>Properties\<close>

text \<open>C24. A segment whose checksum field was computed over the segment with the field zero verifies: the
  receiver's checksum of the whole segment is 0, whatever the payload, of even or odd length, and the addresses.\<close>

theorem segment_checksum_verifies:
  assumes "20 + length rest < 65536"
    and "c = TCPCalcChecksum (tcphdr_bytes (h \<lparr> th_check := 0 \<rparr>) @ rest) sa da"
  shows "TCPCalcChecksum (tcphdr_bytes (h \<lparr> th_check := c \<rparr>) @ rest) sa da = 0"
proof -
  let ?pre = "bytes16 (th_source h) @ bytes16 (th_dest h) @ bytes32 (th_seq h) @ bytes32 (th_ack_seq h) @
     [push_bit 4 (of_nat (th_doff h)), flag_byte h] @ bytes16 (th_window h)"
  have split: "tcphdr_bytes (h \<lparr> th_check := x \<rparr>) @ rest = ?pre @ bytes16 x @ ([0, 0] @ rest)" for x
    by (simp add: tcphdr_bytes_def flag_byte_def)
  have zero: "bytes16 0 = [0, 0]" by (simp add: bytes16_def)
  show ?thesis
    unfolding split using assms unfolding split zero by (intro checksum_verifies) simp_all
qed

theorem segment_checksum_verifies_witness:
  "\<exists>c. c = TCPCalcChecksum (tcphdr_bytes \<lparr> th_source = 80, th_dest = 81, th_seq = 7, th_ack_seq = 9, th_doff = 5,
      th_fin = False, th_syn = True, th_rst = False, th_psh = False, th_ack = False, th_window = 512, th_check = 0 \<rparr> @ [1, 2, 3])
      0x0100000A 0x0200000A \<and>
    TCPCalcChecksum (tcphdr_bytes \<lparr> th_source = 80, th_dest = 81, th_seq = 7, th_ack_seq = 9, th_doff = 5,
      th_fin = False, th_syn = True, th_rst = False, th_psh = False, th_ack = False, th_window = 512, th_check = c \<rparr> @ [1, 2, 3])
      0x0100000A 0x0200000A = 0"
  using segment_checksum_verifies [of "[1, 2, 3]" _ "\<lparr> th_source = 80, th_dest = 81, th_seq = 7, th_ack_seq = 9,
    th_doff = 5, th_fin = False, th_syn = True, th_rst = False, th_psh = False, th_ack = False, th_window = 512, th_check = 0 \<rparr>"
    "0x0100000A" "0x0200000A"] by simp

text \<open>What the receiver reads from the header is what the sender wrote, for every header.\<close>

theorem tcphdr_round_trip:
  assumes "th_doff h < 16"
  shows "tcphdr_of (tcphdr_bytes h @ rest) = h \<and> length (tcphdr_bytes h) = TCP_HEADER_LEN"
  using tcphdr_of_bytes [OF assms] by (simp add: TCP_HEADER_LEN_def)

theorem tcphdr_round_trip_witness:
  "tcphdr_of (tcphdr_bytes \<lparr> th_source = 80, th_dest = 81, th_seq = 7, th_ack_seq = 9, th_doff = 5, th_fin = False,
      th_syn = True, th_rst = False, th_psh = False, th_ack = True, th_window = 512, th_check = 0 \<rparr> @ [1])
    = \<lparr> th_source = 80, th_dest = 81, th_seq = 7, th_ack_seq = 9, th_doff = 5, th_fin = False,
      th_syn = True, th_rst = False, th_psh = False, th_ack = True, th_window = 512, th_check = 0 \<rparr>"
  using tcphdr_round_trip [of "\<lparr> th_source = 80, th_dest = 81, th_seq = 7, th_ack_seq = 9, th_doff = 5, th_fin = False,
      th_syn = True, th_rst = False, th_psh = False, th_ack = True, th_window = 512, th_check = 0 \<rparr>" "[1]"] by simp

text \<open>C22. The options of a SYN, as long as announced, parse back: the receiver learns the sender's segment size, window
  scale and timestamp, and its effective segment size is 12 less. The options of any other segment give
  back the timestamp and its echo.\<close>

theorem options_round_trip:
  "length (GenerateTCPOptions t ts flags) = CalculateOptionLength flags \<and>
   (if flags AND TCP_FLAG_SYN \<noteq> 0
    then ParseTCPOptions s now (GenerateTCPOptions t ts flags @ rest) (int (CalculateOptionLength flags)) =
      Some (Inr (s \<lparr> sndvar := (sndvar s) \<lparr> mss := mss (sndvar t), eff_mss := mss (sndvar t) - 12,
        wscale_peer := wscale_mine (sndvar t) \<rparr>, saw_timestamp := True,
        rcvvar := (rcvvar s) \<lparr> ts_recent := ts, ts_last_ts_upd := now \<rparr> \<rparr>))
    else ParseTCPTimestamp (GenerateTCPOptions t ts flags @ rest) (int (CalculateOptionLength flags)) =
      Some (Inr (Some (ts, ts_recent (rcvvar t)))))"
proof (cases "flags AND TCP_FLAG_SYN = 0")
  case True
  then show ?thesis
    using parse_ACK_timestamp [OF refl True, of t ts rest]
    by (simp add: ParseTCPTimestamp_def CalculateOptionLength_def GenerateTCPOptions_def GenerateTCPTimestamp_def tcp_opt_defs)
next
  case False
  have "flags OR TCP_FLAG_SYN = flags"
  proof (rule bit_word_eqI)
    fix n assume "n < LENGTH(8)"
    have b: "bit TCP_FLAG_SYN k \<longleftrightarrow> k = 1" for k by (auto simp: TCP_FLAG_SYN_def bit_2_iff)
    have "flags AND TCP_FLAG_SYN = 0" if "\<not> bit flags 1"
      using that by (intro bit_word_eqI) (auto simp: bit_and_iff b)
    then have "bit flags 1" using False by blast
    then show "bit (flags OR TCP_FLAG_SYN) n = bit flags n" by (auto simp: bit_or_iff b)
  qed
  then show ?thesis
    using parse_SYN_options [OF refl, of now t ts flags rest s] False
    by (simp add: ParseTCPOptions_def CalculateOptionLength_def GenerateTCPOptions_def GenerateTCPTimestamp_def tcp_opt_defs)
qed



text \<open>C36. A SYN with an unknown option of length 0 makes the parser loop for ever.\<close>

theorem ParseTCPOptions_loops_on_length_0:
  assumes "0 \<le> len" "2 \<le> length tcpopt" "0 < len" "tcpopt ! 1 = 0"
    and "tcpopt ! 0 \<notin> {TCP_OPT_END, TCP_OPT_NOP, TCP_OPT_MSS, TCP_OPT_WSCALE, TCP_OPT_SACK_PERMIT, TCP_OPT_TIMESTAMP}"
  shows "ParseTCPOptions s now tcpopt len = None"
proof (rule ccontr)
  assume "ParseTCPOptions s now tcpopt len \<noteq> None"
  then obtain r where "parse_options now tcpopt len 0 s = Some r" by (auto simp: ParseTCPOptions_def)
  from parse_options_stuck [OF this] assms show False by simp
qed

theorem ParseTCPOptions_loops_on_length_0_witness:
  "ParseTCPOptions zero_stream 0 [254, 0, 0, 0] 4 = None"
  using ParseTCPOptions_loops_on_length_0 [of 4 "[254, 0, 0, 0]" zero_stream 0] by (simp add: tcp_opt_defs)

end
