(* ===== verification/IpLayer.thy ===== *)
theory IpLayer
  imports TcpWire
begin

text \<open>
  Everything between TCP and the device: Ethernet output (\<^verbatim>\<open>eth_out.c\<close>), the ARP table and
  protocol (\<^verbatim>\<open>arp.c\<close>), routing and IP output (\<^verbatim>\<open>ip_out.c\<close>), the IP checksum
  (\<^verbatim>\<open>ps.h\<close>, x86 version), ICMP echo (\<^verbatim>\<open>icmp.c\<close>) and the routing table set up by
  \<^verbatim>\<open>config.c\<close>. An output function returns the bytes of the frame written so far and where
  they go; the layer above appends its own, and the complete frame is added to \<open>tx\<close>.
\<close>

section \<open>Ethernet\<close>

definition ETH_P_IP :: u16 where "ETH_P_IP = 0x0800"
definition ETH_P_ARP :: u16 where "ETH_P_ARP = 0x0806"
definition IP_HEADER_LEN :: nat where "IP_HEADER_LEN = 20"
definition ETHERNET_HEADER_LEN :: nat where "ETHERNET_HEADER_LEN = 14"
definition IPPROTO_ICMP :: u8 where "IPPROTO_ICMP = 1"
definition IPPROTO_TCP :: u8 where "IPPROTO_TCP = 6"

definition emit :: "frame \<Rightarrow> mtcp_manager \<Rightarrow> mtcp_manager" where
  "emit f m = m \<lparr> tx := tx m @ [f] \<rparr>"

definition EthernetOutput :: "stack_env \<Rightarrow> u16 \<Rightarrow> int \<Rightarrow> u8 list \<Rightarrow> mtcp_manager \<Rightarrow> frame option \<times> mtcp_manager" where
  "EthernetOutput env h_proto nif dst m =
    (if nif < 0 then (None, m)
     else
       let eidx = nif_to_eidx env nif in
       if eidx < 0 then (None, m)
       else if \<not> wptr env (wptr_calls m) then (None, m \<lparr> wptr_calls := Suc (wptr_calls m) \<rparr>)
       else
         let m1 = m \<lparr> wptr_calls := Suc (wptr_calls m) \<rparr> in
         if int (length (eths env)) \<le> eidx then (None, raise OutOfBounds m1)
         else (Some (eidx, dst @ eth_haddr (eths env ! nat eidx) @ bytes16 (htons h_proto)), m1))"

section \<open>ARP\<close>

definition MAX_ARPENTRY :: nat where "MAX_ARPENTRY = 1024"

definition GetHWaddr :: "stack_env \<Rightarrow> u32 \<Rightarrow> u8 list option" where
  "GetHWaddr env ip = map_option eth_haddr (find (\<lambda>e. ip = eth_ip_addr e) (eths env))"

text \<open>The loop of \<^verbatim>\<open>GetDestinationHWaddr\<close>. An entry of prefix length 1 stands for one host and ends the
  search.\<close>

fun arp_loop :: "u32 \<Rightarrow> arp_entry list \<Rightarrow> int \<Rightarrow> u8 list option \<Rightarrow> u8 list option" where
  "arp_loop dip [] prefix d_haddr = d_haddr"
| "arp_loop dip (e # es) prefix d_haddr =
    (if arp_prefix e = 1
     then if arp_ip e = dip then Some (arp_haddr e) else arp_loop dip es prefix d_haddr
     else if dip AND arp_ip_mask e = arp_ip_masked e \<and> prefix < arp_prefix e
     then arp_loop dip es (arp_prefix e) (Some (arp_haddr e))
     else arp_loop dip es prefix d_haddr)"

definition GetDestinationHWaddr :: "u32 \<Rightarrow> bool \<Rightarrow> mtcp_manager \<Rightarrow> u8 list option" where
  "GetDestinationHWaddr dip is_gateway m =
    (case arp_gateway m of
       Some g \<Rightarrow> if is_gateway then Some (arp_haddr g) else arp_loop dip (arp_entries m) 0 None
     | None \<Rightarrow> arp_loop dip (arp_entries m) 0 None)"

text \<open>The ARP message as the bytes of \<^verbatim>\<open>struct arphdr\<close>, padding included.\<close>

record arphdr =
  ar_op :: u16
  ar_sha :: "u8 list"
  ar_sip :: u32
  ar_tha :: "u8 list"
  ar_tip :: u32

definition arphdr_bytes :: "arphdr \<Rightarrow> u8 list" where
  "arphdr_bytes h = bytes16 (htons 1) @ bytes16 (htons ETH_P_IP) @ [6, 4] @ bytes16 (ar_op h) @
     ar_sha h @ bytes32 (ar_sip h) @ ar_tha h @ bytes32 (ar_tip h) @ replicate 18 0"

definition arphdr_of :: "u8 list \<Rightarrow> arphdr" where
  "arphdr_of b = \<lparr> ar_op = word16 (b ! 6) (b ! 7), ar_sha = take 6 (drop 8 b),
     ar_sip = word32 (b ! 14) (b ! 15) (b ! 16) (b ! 17), ar_tha = take 6 (drop 18 b),
     ar_tip = word32 (b ! 24) (b ! 25) (b ! 26) (b ! 27) \<rparr>"

definition arp_op_request :: u16 where "arp_op_request = 1"
definition arp_op_reply :: u16 where "arp_op_reply = 2"

definition ARPOutput :: "stack_env \<Rightarrow> int \<Rightarrow> u16 \<Rightarrow> u32 \<Rightarrow> u8 list \<Rightarrow> u8 list option \<Rightarrow> mtcp_manager \<Rightarrow> int \<times> mtcp_manager" where
  "ARPOutput env nif opcode dst_ip dst_haddr target m =
    (case EthernetOutput env ETH_P_ARP nif dst_haddr m of
       (None, m1) \<Rightarrow> (- 1, m1)
     | (Some (eidx, pre), m1) \<Rightarrow>
         let e = eths env ! nat (nif_to_eidx env nif) in
         (0, emit (eidx, pre @ arphdr_bytes \<lparr> ar_op = htons opcode, ar_sha = eth_haddr e, ar_sip = eth_ip_addr e,
             ar_tha = (case target of Some t \<Rightarrow> t | None \<Rightarrow> dst_haddr), ar_tip = dst_ip \<rparr>) m1))"

text \<open>The array of entries has \<^verbatim>\<open>MAX_ARPENTRY\<close> elements; nothing tests the index.\<close>

definition RegisterARPEntry :: "stack_env \<Rightarrow> u32 \<Rightarrow> u8 list \<Rightarrow> mtcp_manager \<Rightarrow> mtcp_manager" where
  "RegisterARPEntry env ip haddr m =
    (if MAX_ARPENTRY \<le> length (arp_entries m) then raise OutOfBounds m
     else
       let e = \<lparr> arp_ip = ip, arp_prefix = 32, arp_ip_mask = - 1, arp_ip_masked = ip, arp_haddr = haddr \<rparr>;
           m1 = (case gateway env of
                   Some g \<Rightarrow> if rt_daddr g AND arp_ip_mask e = arp_ip_masked e then m \<lparr> arp_gateway := Some e \<rparr> else m
                 | None \<Rightarrow> m) in
       m1 \<lparr> arp_entries := arp_entries m1 @ [e] \<rparr>)"

definition RequestARP :: "stack_env \<Rightarrow> u32 \<Rightarrow> int \<Rightarrow> u32 \<Rightarrow> mtcp_manager \<Rightarrow> mtcp_manager" where
  "RequestARP env ip nif now m =
    (if \<exists>e\<in>set (arp_queue m). aq_ip e = ip then m
     else
       let m1 = m \<lparr> arp_queue := arp_queue m @ [\<lparr> aq_ip = ip, aq_nif_out = nif, aq_ts_out = now \<rparr>] \<rparr> in
       snd (ARPOutput env nif arp_op_request ip (replicate 6 0xFF) (Some (replicate 6 0)) m1))"

definition ProcessARPRequest :: "stack_env \<Rightarrow> arphdr \<Rightarrow> int \<Rightarrow> mtcp_manager \<Rightarrow> mtcp_manager" where
  "ProcessARPRequest env arph nif m =
    (let m1 = (case GetDestinationHWaddr (ar_sip arph) False m of
                 None \<Rightarrow> RegisterARPEntry env (ar_sip arph) (ar_sha arph) m | Some _ \<Rightarrow> m) in
     snd (ARPOutput env nif arp_op_reply (ar_sip arph) (ar_sha arph) None m1))"

definition remove_first :: "('a \<Rightarrow> bool) \<Rightarrow> 'a list \<Rightarrow> 'a list" where
  "remove_first P xs = takeWhile (\<lambda>x. \<not> P x) xs @ tl (dropWhile (\<lambda>x. \<not> P x) xs)"

definition ProcessARPReply :: "stack_env \<Rightarrow> arphdr \<Rightarrow> mtcp_manager \<Rightarrow> mtcp_manager" where
  "ProcessARPReply env arph m =
    (let m1 = (case GetDestinationHWaddr (ar_sip arph) False m of
                 None \<Rightarrow> RegisterARPEntry env (ar_sip arph) (ar_sha arph) m | Some _ \<Rightarrow> m) in
     m1 \<lparr> arp_queue := remove_first (\<lambda>e. aq_ip e = ar_sip arph) (arp_queue m1) \<rparr>)"

text \<open>\<open>pkt_data\<close> is the receive buffer.\<close>

definition ProcessARPPacket :: "stack_env \<Rightarrow> nat \<Rightarrow> u8 list \<Rightarrow> mtcp_manager \<Rightarrow> mtcp_manager" where
  "ProcessARPPacket env ifidx pkt_data m =
    (if length pkt_data < ETHERNET_HEADER_LEN + 28 then raise OutOfBounds m
     else
       let arph = arphdr_of (drop ETHERNET_HEADER_LEN pkt_data) in
       if \<not> (\<exists>e\<in>set (eths env). ar_tip arph = eth_ip_addr e) then m
       else if ntohs (ar_op arph) = arp_op_request
       then if length (eths env) \<le> ifidx then raise OutOfBounds m
            else ProcessARPRequest env arph (eth_ifindex (eths env ! ifidx)) m
       else if ntohs (ar_op arph) = arp_op_reply then ProcessARPReply env arph m
       else m)"

text \<open>\<^verbatim>\<open>ARPTimer\<close> drops the requests that are a second old.\<close>

definition ARPTimer :: "u32 \<Rightarrow> mtcp_manager \<Rightarrow> mtcp_manager" where
  "ARPTimer now m = m \<lparr> arp_queue := filter (\<lambda>e. \<not> TCP_SEQ_GT now (aq_ts_out e + 1000)) (arp_queue m) \<rparr>"

section \<open>Routing\<close>

text \<open>\<^verbatim>\<open>MaskFromPrefix\<close>: the inner loop sets the leading bits of byte \<open>i\<close>.\<close>

definition mask_byte :: "int \<Rightarrow> nat \<Rightarrow> u8" where
  "mask_byte prefix i = fold (\<lambda>j b. if int j < prefix - int i * 8 then b OR push_bit (7 - j) 1 else b) [0..<8] 0"

definition MaskFromPrefix :: "int \<Rightarrow> u32" where
  "MaskFromPrefix prefix =
    (let b = (\<lambda>i. if int i \<le> prefix div 8 then mask_byte prefix i else 0) in word32 (b 0) (b 1) (b 2) (b 3))"

text \<open>The number of turns of the loop \<^verbatim>\<open>while ((c = (c >> 1)))\<close>.\<close>

function shift_count :: "u32 \<Rightarrow> nat" where
  "shift_count c = (if drop_bit 1 c = 0 then 0 else Suc (shift_count (drop_bit 1 c)))"
  by auto
termination
proof (relation "measure unat")
  fix c :: u32 assume "drop_bit 1 c \<noteq> 0"
  then have "unat c \<noteq> 0" by (auto simp: unat_eq_0)
  moreover have "unat (drop_bit 1 c) = unat c div 2" by (simp only: unat_drop_bit_eq) (simp add: drop_bit_Suc)
  ultimately show "(drop_bit 1 c, c) \<in> measure unat" by simp
qed simp

text \<open>The part of \<^verbatim>\<open>SetRoutingTable\<close> that enters the interfaces, and of \<^verbatim>\<open>EnrollRouteTableEntry\<close> that
  stores a parsed line: the new table and gateway, or \<^verbatim>\<open>exit\<close>.\<close>

definition interface_route :: "eth_table \<Rightarrow> route_table" where
  "interface_route e = \<lparr> rt_daddr = eth_ip_addr e AND eth_netmask e, rt_mask = eth_netmask e,
     rt_masked = eth_ip_addr e AND eth_netmask e, rt_prefix = int (shift_count (eth_netmask e)) + 1,
     rt_nif = eth_ifindex e \<rparr>"

definition MAX_ROUTE_ENTRY :: nat where "MAX_ROUTE_ENTRY = 64"

definition EnrollRouteTableEntry :: "u32 \<Rightarrow> int \<Rightarrow> int \<Rightarrow> route_table list \<times> route_table option \<Rightarrow>
    (route_table list \<times> route_table option) c_result" where
  "EnrollRouteTableEntry da prefix ifidx rg =
    (case rg of (rt, gw) \<Rightarrow>
     if length rt = MAX_ROUTE_ENTRY then Inl ProcessExit
     else if prefix > 32 \<or> prefix < 0 then Inl ProcessExit
     else
       let mask = MaskFromPrefix prefix;
           r = \<lparr> rt_daddr = da, rt_mask = mask, rt_masked = da AND mask, rt_prefix = prefix, rt_nif = ifidx \<rparr> in
       Inr (rt @ [r], if mask = 0 then Some r else gw))"

text \<open>The loop of \<^verbatim>\<open>GetOutputInterface\<close> leaves at the first route that matches.\<close>

definition GetOutputInterface :: "stack_env \<Rightarrow> u32 \<Rightarrow> (int \<times> bool) c_result" where
  "GetOutputInterface env da =
    (let (nif, ext) =
       (case find (\<lambda>r. da AND rt_mask r = rt_masked r) (rtable env) of
          None \<Rightarrow> (- 1, False)
        | Some r \<Rightarrow>
            if rt_prefix r > 0 then (rt_nif r, False)
            else (case gateway env of Some g \<Rightarrow> (rt_nif g, True) | None \<Rightarrow> (- 1, False))) in
     if nif < 0 then Inl AssertFail else Inr (nif, ext))"

section \<open>The IP header\<close>

text \<open>\<^verbatim>\<open>ip_fast_csum\<close> in the instructions of its x86 version: additions with carry over the 32-bit words of
  the header.\<close>

definition adc :: "u32 \<times> bool \<Rightarrow> u32 \<Rightarrow> u32 \<times> bool" where
  "adc sc w = (let n = unat (fst sc) + unat w + of_bool (snd sc) in (of_nat n, 2 ^ 32 \<le> n))"

definition hdr_word :: "u8 list \<Rightarrow> nat \<Rightarrow> u32" where
  "hdr_word b i = word32 (b ! (4 * i)) (b ! (4 * i + 1)) (b ! (4 * i + 2)) (b ! (4 * i + 3))"

definition csum_tail :: "u32 \<Rightarrow> u16" where
  "csum_tail s = (let hi = drop_bit 16 s; n = unat hi + unat (s AND 0xFFFF);
     lo = n mod 65536 + of_bool (65536 \<le> n) in ucast (NOT (of_nat lo :: u32)))"

definition ip_fast_csum :: "u8 list \<Rightarrow> nat \<Rightarrow> u16 c_result" where
  "ip_fast_csum b ihl =
    (if length b < 4 \<or> length b < 4 * ihl then Inl OutOfBounds
     else if ihl \<le> 4 then Inr (ucast (hdr_word b 0))
     else Inr (csum_tail (fst (adc (foldl adc (hdr_word b 0, False) (map (hdr_word b) [1..<ihl])) 0))))"

definition iphdr_bytes :: "u16 \<Rightarrow> u16 \<Rightarrow> u8 \<Rightarrow> u16 \<Rightarrow> u32 \<Rightarrow> u32 \<Rightarrow> u8 list" where
  "iphdr_bytes tot_len idn protocol check sa da =
     [0x45, 0] @ bytes16 tot_len @ bytes16 idn @ bytes16 (htons 0x4000) @ [64, protocol] @ bytes16 check @
     bytes32 sa @ bytes32 da"

text \<open>The header both output functions write, with the checksum left to the device or computed here.\<close>

definition fill_iphdr :: "stack_env \<Rightarrow> u16 \<Rightarrow> u8 \<Rightarrow> u32 \<Rightarrow> u32 \<Rightarrow> u16 \<Rightarrow> u8 list c_result" where
  "fill_iphdr env idn protocol sa da payloadlen =
    (let h = iphdr_bytes (htons (of_nat IP_HEADER_LEN + payloadlen)) (htons idn) protocol in
     if hw_csum env then Inr (h 0 sa da)
     else case ip_fast_csum (h 0 sa da) 5 of Inl e \<Rightarrow> Inl e | Inr c \<Rightarrow> Inr (h c sa da))"

definition IPOutputStandalone :: "stack_env \<Rightarrow> u8 \<Rightarrow> u16 \<Rightarrow> u32 \<Rightarrow> u32 \<Rightarrow> u16 \<Rightarrow> mtcp_manager \<Rightarrow> frame option \<times> mtcp_manager" where
  "IPOutputStandalone env protocol idn sa da payloadlen m =
    (case GetOutputInterface env da of Inl e \<Rightarrow> (None, raise e m)
     | Inr (nif, ext) \<Rightarrow>
       (case GetDestinationHWaddr da ext m of
          None \<Rightarrow>
            (if ext
             then (case gateway env of None \<Rightarrow> (None, raise NullDeref m)
                   | Some g \<Rightarrow> (None, RequestARP env (rt_daddr g) nif (cur_ts m) m))
             else (None, RequestARP env da nif (cur_ts m) m))
        | Some haddr \<Rightarrow>
            (case EthernetOutput env ETH_P_IP nif haddr m of
               (None, m1) \<Rightarrow> (None, m1)
             | (Some (eidx, pre), m1) \<Rightarrow>
                 (case fill_iphdr env idn protocol sa da payloadlen of Inl e \<Rightarrow> (None, raise e m1)
                  | Inr h \<Rightarrow> (Some (eidx, pre @ h), m1)))))"

text \<open>\<^verbatim>\<open>IPOutput\<close>: the interface found for the first packet is kept in the stream.\<close>

definition IPOutput :: "stack_env \<Rightarrow> sid \<Rightarrow> u16 \<Rightarrow> mtcp_manager \<Rightarrow> frame option \<times> mtcp_manager" where
  "IPOutput env s tcplen m =
    (case (if nif_out (snd_v m s) \<ge> 0 then Inr m
           else case GetOutputInterface env (daddr (streams m s)) of Inl e \<Rightarrow> Inl e
             | Inr (nif, ext) \<Rightarrow> Inr (upd_stream s (\<lambda>t. t \<lparr> is_external := ext \<rparr>) (upd_snd s (\<lambda>v. v \<lparr> nif_out := nif \<rparr>) m))) of
       Inl e \<Rightarrow> (None, raise e m)
     | Inr m1 \<Rightarrow>
       let t = streams m1 s; nif = nif_out (sndvar t) in
       (case GetDestinationHWaddr (daddr t) (is_external t) m1 of
          None \<Rightarrow>
            (if is_external t
             then (case gateway env of None \<Rightarrow> (None, raise NullDeref m1)
                   | Some g \<Rightarrow> (None, RequestARP env (rt_daddr g) nif (cur_ts m1) m1))
             else (None, RequestARP env (daddr t) nif (cur_ts m1) m1))
        | Some haddr \<Rightarrow>
            (case EthernetOutput env ETH_P_IP nif haddr m1 of
               (None, m2) \<Rightarrow> (None, m2)
             | (Some (eidx, pre), m2) \<Rightarrow>
                 let m3 = upd_snd s (\<lambda>v. v \<lparr> ip_id := ip_id v + 1 \<rparr>) m2 in
                 (case fill_iphdr env (ip_id (snd_v m2 s)) IPPROTO_TCP (saddr t) (daddr t) tcplen of
                    Inl e \<Rightarrow> (None, raise e m3)
                  | Inr h \<Rightarrow> (Some (eidx, pre @ h), m3)))))"

section \<open>ICMP\<close>

definition ICMP_ECHOREPLY :: u8 where "ICMP_ECHOREPLY = 0"
definition ICMP_ECHO :: u8 where "ICMP_ECHO = 8"

text \<open>\<^verbatim>\<open>ICMPChecksum\<close> over \<open>len\<close> bytes; after an odd number of bytes it adds a word whose upper byte it
  never sets.\<close>

fun icmp_sum :: "u8 \<Rightarrow> u8 list \<Rightarrow> u32 \<Rightarrow> u32" where
  "icmp_sum junk (a # b # bs) acc = icmp_sum junk bs (acc + ucast (word16 a b))"
| "icmp_sum junk [a] acc = acc + ucast (word16 a junk)"
| "icmp_sum junk [] acc = acc"

definition ICMPChecksum :: "stack_env \<Rightarrow> u8 list \<Rightarrow> int \<Rightarrow> u16 c_result" where
  "ICMPChecksum env icmph len =
    (if len < 0 then Inl AssertFail
     else if length icmph < nat len then Inl OutOfBounds
     else Inr (csum_fold (icmp_sum (icmp_junk env) (take (nat len) icmph) 0)))"

text \<open>The buffer was requested for a length cut to 16 bits; copying more than that runs over its end.\<close>

definition ICMPOutput :: "stack_env \<Rightarrow> u32 \<Rightarrow> u32 \<Rightarrow> u8 \<Rightarrow> u8 \<Rightarrow> u16 \<Rightarrow> u16 \<Rightarrow> u8 list \<Rightarrow> mtcp_manager \<Rightarrow> int \<times> mtcp_manager" where
  "ICMPOutput env sa da icmp_type icmp_code icmp_id icmp_seq icmpd m =
    (case IPOutputStandalone env IPPROTO_ICMP 0 sa da (of_nat (8 + length icmpd)) m of
       (None, m1) \<Rightarrow> (- 1, m1)
     | (Some (eidx, pre), m1) \<Rightarrow>
       if 65536 \<le> 8 + length icmpd then (- 1, raise OutOfBounds m1)
       else
         let h = (\<lambda>c. [icmp_type, icmp_code] @ bytes16 c @ bytes16 (htons icmp_id) @ bytes16 (htons icmp_seq) @ icmpd) in
         (case ICMPChecksum env (h 0) (int (8 + length icmpd)) of Inl e \<Rightarrow> (- 1, raise e m1)
          | Inr c \<Rightarrow> (0, emit (eidx, pre @ h c) m1)))"

text \<open>\<open>pkt\<close> is the receive buffer from the IP header on, \<open>ip_len\<close> the length in that header.\<close>

definition ip_saddr :: "u8 list \<Rightarrow> u32" where "ip_saddr pkt = hdr_word pkt 3"
definition ip_daddr :: "u8 list \<Rightarrow> u32" where "ip_daddr pkt = hdr_word pkt 4"
definition ip_ihl :: "u8 list \<Rightarrow> nat" where "ip_ihl pkt = unat (pkt ! 0 AND 0x0F)"

definition ProcessICMPECHORequest :: "stack_env \<Rightarrow> u8 list \<Rightarrow> int \<Rightarrow> mtcp_manager \<Rightarrow> int \<times> mtcp_manager" where
  "ProcessICMPECHORequest env pkt ip_len m =
    (let off = 4 * ip_ihl pkt; icmph = drop off pkt in
     case ICMPChecksum env icmph (ip_len - int off) of Inl e \<Rightarrow> (- 1, raise e m)
     | Inr c \<Rightarrow>
       if c \<noteq> 0 then (- 1, m)
       else
         let n = unat (of_int (ip_len - int off - 8) :: u16) in
         if length icmph < 8 + n then (0, raise OutOfBounds m)
         else (0, snd (ICMPOutput env (ip_daddr pkt) (ip_saddr pkt) ICMP_ECHOREPLY 0
                (ntohs (word16 (icmph ! 4) (icmph ! 5))) (ntohs (word16 (icmph ! 6) (icmph ! 7)))
                (take n (drop 8 icmph)) m)))"

definition ProcessICMPPacket :: "stack_env \<Rightarrow> u8 list \<Rightarrow> int \<Rightarrow> mtcp_manager \<Rightarrow> mtcp_manager" where
  "ProcessICMPPacket env pkt ip_len m =
    (if \<not> (\<exists>e\<in>set (eths env). ip_daddr pkt = eth_ip_addr e) then m
     else if length pkt \<le> 4 * ip_ihl pkt then raise OutOfBounds m
     else if pkt ! (4 * ip_ihl pkt) = ICMP_ECHO then snd (ProcessICMPECHORequest env pkt ip_len m)
     else m)"

section \<open>The checksum adds in one's complement\<close>

lemma unat32_less: "unat (w :: u32) < 4294967296"
  using unsigned_less [of w] by simp

definition adc_val :: "u32 \<times> bool \<Rightarrow> nat" where
  "adc_val sc = unat (fst sc) + of_bool (snd sc)"

text \<open>\<open>v\<close> is the one's complement sum, in 32 bits, of numbers that add up to \<open>s\<close>.\<close>

definition oc_sum :: "nat \<Rightarrow> nat \<Rightarrow> bool" where
  "oc_sum v s \<longleftrightarrow> v < 4294967296 \<and> (\<exists>k. s = v + 4294967295 * k) \<and> (v = 0 \<longrightarrow> s = 0)"

lemma oc_sumE:
  assumes "oc_sum v s"
  obtains k where "v < 4294967296" "s = v + 4294967295 * k" "v = 0 \<longrightarrow> s = 0"
  using assms that unfolding oc_sum_def by (elim conjE exE)

lemma oc_sum_add: "oc_sum v s \<Longrightarrow> oc_sum u (v + t) \<Longrightarrow> oc_sum u (s + t)"
  unfolding oc_sum_def
proof (elim conjE exE, intro conjI)
  fix k l assume "s = v + 4294967295 * k" "v + t = u + 4294967295 * l"
  then have "s + t = u + 4294967295 * (k + l)" by (simp add: distrib_left)
  then show "\<exists>k. s + t = u + 4294967295 * k" ..
next
  assume "v = 0 \<longrightarrow> s = 0" "u = 0 \<longrightarrow> v + t = 0"
  then show "u = 0 \<longrightarrow> s + t = 0" by simp
qed

lemma oc_sum_adc:
  assumes "adc_val sc < 4294967296"
  shows "oc_sum (adc_val (adc sc w)) (adc_val sc + unat w)"
proof -
  define n where "n = unat (fst sc) + unat w + of_bool (snd sc)"
  have n: "n = adc_val sc + unat w" by (simp add: n_def adc_val_def)
  have w: "unat w < 4294967296" using unat32_less [of w] by simp
  have a: "adc sc w = (of_nat n, 2 ^ 32 \<le> n)" by (simp add: adc_def n_def Let_def)
  show ?thesis
  proof (cases "4294967296 \<le> n")
    case True
    then have m: "n mod 4294967296 = n - 4294967296" using n w assms by (subst mod_if) (simp add: mod_less)
    have v: "adc_val (adc sc w) = n - 4294967296 + 1"
      using True m by (simp add: a adc_val_def unsigned_of_nat take_bit_eq_mod)
    have "adc_val sc + unat w = (n - 4294967296 + 1) + 4294967295 * 1" using True n by simp
    then have "\<exists>k. adc_val sc + unat w = (n - 4294967296 + 1) + 4294967295 * k" ..
    moreover have "n - 4294967296 + 1 < 4294967296" using n w assms by linarith
    ultimately show ?thesis unfolding oc_sum_def v by simp
  next
    case False
    then have "adc_val (adc sc w) = n" by (simp add: a adc_val_def unsigned_of_nat take_bit_eq_mod)
    with False n show ?thesis by (simp add: oc_sum_def)
  qed
qed

lemma oc_sum_chain:
  assumes "adc_val sc < 4294967296"
  shows "oc_sum (adc_val (foldl adc sc ws)) (adc_val sc + sum_list (map unat ws))"
  using assms
proof (induction ws arbitrary: sc)
  case Nil
  then show ?case by (simp add: oc_sum_def)
next
  case (Cons w ws)
  have s: "oc_sum (adc_val (adc sc w)) (adc_val sc + unat w)" by (rule oc_sum_adc [OF Cons.prems])
  then have "adc_val (adc sc w) < 4294967296" by (simp only: oc_sum_def)
  from oc_sum_add [OF s Cons.IH [OF this]] show ?case by (simp add: add.assoc)
qed

definition fold_hi_lo :: "nat \<Rightarrow> nat" where
  "fold_hi_lo s = (let n = s div 65536 + s mod 65536 in n mod 65536 + of_bool (65536 \<le> n))"

lemma fold_hi_lo:
  assumes "s < 4294967296"
  shows "fold_hi_lo s \<le> 65535 \<and> (\<exists>k. s = fold_hi_lo s + 65535 * k) \<and> (fold_hi_lo s = 0 \<longrightarrow> s = 0)"
proof -
  define h l where "h = s div 65536" and "l = s mod 65536"
  have s: "s = 65536 * h + l" by (simp add: h_def l_def)
  have "h < 65536" "l < 65536" using assms by (simp_all add: h_def l_def)
  show ?thesis
  proof (cases "65536 \<le> h + l")
    case True
    then have "(h + l) mod 65536 = h + l - 65536" using \<open>h < 65536\<close> \<open>l < 65536\<close> by (subst mod_if) simp
    with True have "fold_hi_lo s = h + l - 65536 + 1" by (simp add: fold_hi_lo_def h_def l_def Let_def)
    also have "\<dots> = h + l - 65535" using True by simp
    finally have "fold_hi_lo s = h + l - 65535" .
    with True s \<open>h < 65536\<close> \<open>l < 65536\<close> show ?thesis by (auto intro!: exI [of _ "h + 1"])
  next
    case False
    then have "fold_hi_lo s = h + l" by (simp add: fold_hi_lo_def h_def l_def Let_def)
    with False s show ?thesis by (auto intro!: exI [of _ h])
  qed
qed

lemma fold_twice: "s = v + 4294967295 * k \<Longrightarrow> v = f + 65535 * j \<Longrightarrow> s = f + 65535 * (j + 65537 * (k :: nat))"
  by simp

lemma unat_csum_tail: "unat (csum_tail s) = 65535 - fold_hi_lo (unat s)"
proof -
  let ?f = "fold_hi_lo (unat s)"
  have f: "?f \<le> 65535" using fold_hi_lo [of "unat s"] unat32_less [of s] by simp
  have "csum_tail s = ucast (NOT (of_nat ?f :: u32))"
    by (simp add: csum_tail_def fold_hi_lo_def unat_drop_16 unat_and_FFFF Let_def)
  also have "\<dots> = NOT (of_nat ?f)" by (rule bit_word_eqI) (auto simp: bit_simps)
  finally show ?thesis using f by (simp add: unat_not16 unsigned_of_nat take_bit_eq_mod)
qed

lemma ip_fast_csum_5:
  assumes "20 \<le> length b"
  defines "S \<equiv> sum_list (map (unat \<circ> hdr_word b) [0..<5])"
  shows "\<exists>c F k. ip_fast_csum b 5 = Inr c \<and> unat c = 65535 - F \<and> F \<le> 65535 \<and> S = F + 65535 * k \<and> (F = 0 \<longrightarrow> S = 0)"
proof -
  define r where "r = foldl adc (hdr_word b 0, False) (map (hdr_word b) [1..<5])"
  have v0: "adc_val (hdr_word b 0, False) = unat (hdr_word b 0)" "adc_val (hdr_word b 0, False) < 4294967296"
    using unat32_less [of "hdr_word b 0"] by (simp_all add: adc_val_def)
  have S: "S = unat (hdr_word b 0) + sum_list (map unat (map (hdr_word b) [1..<5]))"
    by (simp add: S_def upt_rec)
  have k: "oc_sum (adc_val r) S"
    using oc_sum_chain [OF v0(2), of "map (hdr_word b) [1..<5]"] by (simp only: S r_def v0(1))
  then obtain k where lt: "adc_val r < 4294967296" and k: "S = adc_val r + 4294967295 * k"
    and z: "adc_val r = 0 \<longrightarrow> S = 0" by (rule oc_sumE)
  have "fst (adc r 0) = of_nat (adc_val r)" by (simp only: adc_def adc_val_def Let_def fst_conv unsigned_0 add_0_right)
  then have t: "unat (fst (adc r 0)) = adc_val r"
    using lt by (simp only: unsigned_of_nat) (simp add: take_bit_nat_eq_self)
  obtain j where j: "adc_val r = fold_hi_lo (adc_val r) + 65535 * j" "fold_hi_lo (adc_val r) \<le> 65535"
    "fold_hi_lo (adc_val r) = 0 \<longrightarrow> adc_val r = 0"
    using fold_hi_lo [OF lt] by (elim conjE exE)
  have "ip_fast_csum b 5 = Inr (csum_tail (fst (adc r 0)))" using assms(1) by (simp add: ip_fast_csum_def r_def)
  moreover have "unat (csum_tail (fst (adc r 0))) = 65535 - fold_hi_lo (adc_val r)" by (simp only: unat_csum_tail t)
  moreover have "S = fold_hi_lo (adc_val r) + 65535 * (j + 65537 * k)" by (rule fold_twice [OF k j(1)])
  moreover have "fold_hi_lo (adc_val r) = 0 \<longrightarrow> S = 0" using j(3) z by simp
  ultimately show ?thesis using j(2) by (intro exI conjI)
qed

lemma length_iphdr_bytes [simp]: "length (iphdr_bytes l i p c sa da) = 20"
  by (simp add: iphdr_bytes_def)

lemma hdr_word_iphdr:
  "hdr_word (iphdr_bytes l i p c sa da) 3 = sa" "hdr_word (iphdr_bytes l i p c sa da) 4 = da"
  by (simp_all add: hdr_word_def iphdr_bytes_def bytes16_def bytes32_def)

lemma unat_word32: "unat (word32 a b c d) = unat (word16 a b) + 65536 * unat (word16 c d)"
proof -
  have "word32 a b c d = ucast (word16 a b) OR push_bit 16 (ucast (word16 c d))"
    by (rule bit_word_eqI) (auto simp: word32_def word16_def bit_simps dest: bit_imp_le_length)
  also have "\<dots> = ucast (word16 a b) + push_bit 16 (ucast (word16 c d))"
    by (rule disjunctive_add [symmetric]) (auto simp: bit_simps dest: bit_imp_le_length)
  also have "\<dots> = of_nat (unat (word16 a b) + 65536 * unat (word16 c d))"
    by (simp add: push_bit_eq_mult mult.commute)
  finally have e: "word32 a b c d = of_nat (unat (word16 a b) + 65536 * unat (word16 c d))" .
  have "unat (word16 a b) + 65536 * unat (word16 c d) < 2 ^ 32"
    using unat16_less [of "word16 a b"] unat16_less [of "word16 c d"] by simp
  then show ?thesis unfolding e unsigned_of_nat by (simp add: take_bit_nat_eq_self)
qed

lemma iphdr_sum:
  "sum_list (map (unat \<circ> hdr_word (iphdr_bytes l i p c sa da)) [0..<5]) =
   sum_list (map (unat \<circ> hdr_word (iphdr_bytes l i p 0 sa da)) [0..<5]) + 65536 * unat c"
  by (simp add: upt_rec hdr_word_def iphdr_bytes_def bytes16_def bytes32_def unat_word32)

lemma iphdr_sum_pos: "sum_list (map (unat \<circ> hdr_word (iphdr_bytes l i p c sa da)) [0..<5]) > 0"
proof -
  have "unat (word16 0x45 (0 :: u8)) = 69" by (simp add: word16_def)
  then show ?thesis
    by (simp add: upt_rec hdr_word_def iphdr_bytes_def bytes16_def bytes32_def unat_word32)
qed

lemma iphdr_verifies:
  assumes "ip_fast_csum (iphdr_bytes l i p 0 sa da) 5 = Inr c"
  shows "ip_fast_csum (iphdr_bytes l i p c sa da) 5 = Inr 0"
proof -
  define S where "S = (\<lambda>c. sum_list (map (unat \<circ> hdr_word (iphdr_bytes l i p c sa da)) [0..<5]))"
  obtain F k where F: "unat c = 65535 - F" "F \<le> 65535" "S 0 = F + 65535 * k"
    using ip_fast_csum_5 [of "iphdr_bytes l i p 0 sa da"] assms by (auto simp: S_def)
  obtain c' F' k' where F': "ip_fast_csum (iphdr_bytes l i p c sa da) 5 = Inr c'" "unat c' = 65535 - F'" "F' \<le> 65535"
    "S c = F' + 65535 * k'" "F' = 0 \<longrightarrow> S c = 0"
    using ip_fast_csum_5 [of "iphdr_bytes l i p c sa da"] unfolding S_def length_iphdr_bytes by blast
  have "S c = S 0 + 65536 * unat c" unfolding S_def by (rule iphdr_sum)
  then have "S c = 65535 * (k + unat c + 1)" using F by simp
  then have "F' + 65535 * k' = 65535 * (k + unat c + 1)" using F' by simp
  then have "F' mod 65535 = 0" by (metis mod_mult_self2 mod_mult_self1_is_0)
  moreover have "F' \<noteq> 0" using F'(5) iphdr_sum_pos [of l i p c sa da] unfolding S_def by linarith
  ultimately have "F' = 65535" using F'(3) by (metis le_neq_implies_less mod_less)
  then have "c' = 0" using F'(2) by (simp add: unat_eq_0)
  with F'(1) show ?thesis by simp
qed

section \<open>Masks and routes\<close>

lemma bit_mask_byte:
  assumes "n < 8"
  shows "bit (mask_byte p i) n \<longleftrightarrow> 7 - int n < p - int i * 8"
proof -
  have u: "[0..<8] = [0, 1, 2, 3, 4, 5, 6, 7]" by (simp add: upt_rec)
  have "n \<in> {0, 1, 2, 3, 4, 5, 6, 7}" using assms by auto
  then show ?thesis unfolding mask_byte_def u by (auto simp: bit_simps)
qed

lemma bit_word32:
  "n < 8 \<Longrightarrow> bit (word32 a b c d) n = bit a n"
  "n < 8 \<Longrightarrow> bit (word32 a b c d) (n + 8) = bit b n"
  "n < 8 \<Longrightarrow> bit (word32 a b c d) (n + 16) = bit c n"
  "n < 8 \<Longrightarrow> bit (word32 a b c d) (n + 24) = bit d n"
  "n < 8 \<Longrightarrow> bit (word32 a b c d) (8 + n) = bit b n"
  "n < 8 \<Longrightarrow> bit (word32 a b c d) (16 + n) = bit c n"
  by (auto simp: word32_def bit_simps dest: bit_imp_le_length)

lemma htonl_word32: "htonl (word32 a b c d) = word32 d c b a"
proof (rule bit_word_eqI)
  fix n assume "n < LENGTH(32)"
  then consider k where "k < 8" "n = k" | k where "k < 8" "n = k + 8" | k where "k < 8" "n = k + 16" | k where "k < 8" "n = k + 24"
    using that(1) [of n] that(2) [of "n - 8"] that(3) [of "n - 16"] that(4) [of "n - 24"] by force
  then show "bit (htonl (word32 a b c d)) n = bit (word32 d c b a) n"
    by cases (simp_all add: bit_htonl bit_word32)
qed

lemma bit_MaskFromPrefix:
  assumes "0 \<le> p" "p \<le> 32" "n < 32"
  shows "bit (htonl (MaskFromPrefix p)) n \<longleftrightarrow> 32 - p \<le> int n"
proof -
  define B where "B = (\<lambda>i. if int i \<le> p div 8 then mask_byte p i else 0)"
  have M: "MaskFromPrefix p = word32 (B 0) (B 1) (B 2) (B 3)" by (simp add: MaskFromPrefix_def B_def Let_def)
  have b: "bit (B i) k \<longleftrightarrow> 7 - int k < p - int i * 8" if "k < 8" for i k
  proof (cases "int i \<le> p div 8")
    case False
    then have "p < int i * 8" using assms(1) by (auto simp: not_le)
    with False that show ?thesis by (simp add: B_def)
  qed (use bit_mask_byte [OF that] in \<open>simp add: B_def\<close>)
  consider k where "k < 8" "n = k" | k where "k < 8" "n = k + 8" | k where "k < 8" "n = k + 16" | k where "k < 8" "n = k + 24"
    using assms(3) that(1) [of n] that(2) [of "n - 8"] that(3) [of "n - 16"] that(4) [of "n - 24"] by force
  then show ?thesis
    by cases (auto simp: M htonl_word32 bit_word32 b)
qed

lemma find_sorted_max:
  assumes "sorted_wrt (\<lambda>r r'. f r' \<le> f r) rs" "find P rs = Some r" "r' \<in> set rs" "P r'"
  shows "f r' \<le> (f r :: int)"
  using assms by (induction rs) (auto split: if_splits)

section \<open>The ARP table\<close>

definition arp_match :: "u32 \<Rightarrow> arp_entry \<Rightarrow> bool" where
  "arp_match dip e \<longleftrightarrow> dip AND arp_ip_mask e = arp_ip_masked e"

lemma arp_loop_best:
  assumes "\<forall>e\<in>set es. arp_prefix e \<noteq> 1"
  shows "(arp_loop dip es prefix d = d \<and> (\<forall>e\<in>set es. arp_match dip e \<longrightarrow> arp_prefix e \<le> prefix)) \<or>
    (\<exists>e\<in>set es. arp_loop dip es prefix d = Some (arp_haddr e) \<and> arp_match dip e \<and> prefix < arp_prefix e \<and>
       (\<forall>e'\<in>set es. arp_match dip e' \<longrightarrow> arp_prefix e' \<le> arp_prefix e))"
  using assms
proof (induction es arbitrary: prefix d)
  case (Cons e es)
  define q where "q = (if arp_match dip e \<and> prefix < arp_prefix e then arp_prefix e else prefix)"
  define d' where "d' = (if arp_match dip e \<and> prefix < arp_prefix e then Some (arp_haddr e) else d)"
  have l: "arp_loop dip (e # es) prefix d = arp_loop dip es q d'"
    using Cons.prems by (simp add: q_def d'_def arp_match_def)
  have le: "prefix \<le> q" "arp_match dip e \<longrightarrow> arp_prefix e \<le> q" by (simp_all add: q_def)
  have d': "d' = d \<and> q = prefix \<or> d' = Some (arp_haddr e) \<and> arp_match dip e \<and> prefix < arp_prefix e \<and> q = arp_prefix e"
    by (auto simp: q_def d'_def)
  from Cons.IH [of q d'] Cons.prems consider
      "arp_loop dip es q d' = d'" "\<forall>e\<in>set es. arp_match dip e \<longrightarrow> arp_prefix e \<le> q"
    | e' where "e' \<in> set es" "arp_loop dip es q d' = Some (arp_haddr e')" "arp_match dip e'" "q < arp_prefix e'"
        "\<forall>e\<in>set es. arp_match dip e \<longrightarrow> arp_prefix e \<le> arp_prefix e'" by auto
  then show ?case
  proof cases
    case 1
    then show ?thesis unfolding l using d' le by auto
  next
    case 2
    then show ?thesis unfolding l using le by (intro disjI2 bexI [of _ e']) auto
  qed
qed simp

lemma arp_loop_Some: "arp_loop dip es p (Some h) \<noteq> None"
  by (induction es arbitrary: p h) auto

lemma arp_loop_snoc:
  assumes "arp_loop dip es prefix None = None"
  shows "arp_loop dip (es @ [x]) prefix None = arp_loop dip [x] prefix None"
  using assms
proof (induction es)
  case (Cons e es)
  have "\<not> (arp_prefix e = 1 \<and> arp_ip e = dip)"
    "arp_prefix e \<noteq> 1 \<longrightarrow> \<not> (dip AND arp_ip_mask e = arp_ip_masked e \<and> prefix < arp_prefix e)"
    using Cons.prems arp_loop_Some [of dip es "arp_prefix e" "arp_haddr e"] by auto
  then have "arp_loop dip (e # ys) prefix None = arp_loop dip ys prefix None" for ys by auto
  with Cons show ?case by simp
qed simp

lemma remove_first_simps [simp]:
  "remove_first P [] = []" "remove_first P (x # xs) = (if P x then xs else x # remove_first P xs)"
  by (simp_all add: remove_first_def)

section \<open>Results\<close>

text \<open>C25. The IP header written in software carries a checksum that the receive side accepts: summed with its
  checksum the header gives 0.\<close>

theorem ip_header_checksum_verifies:
  assumes "\<not> hw_csum env"
  shows "\<exists>h. fill_iphdr env idn protocol sa da n = Inr h \<and> length h = 20 \<and> ip_ihl h = 5 \<and>
    ip_fast_csum h (ip_ihl h) = Inr 0 \<and> ip_saddr h = sa \<and> ip_daddr h = da"
proof -
  let ?h = "iphdr_bytes (htons (of_nat IP_HEADER_LEN + n)) (htons idn) protocol"
  obtain c where c: "ip_fast_csum (?h 0 sa da) 5 = Inr c" using ip_fast_csum_5 [of "?h 0 sa da"] by auto
  have i: "ip_ihl (iphdr_bytes l i p c sa da) = 5" for l i p c
    by (simp add: ip_ihl_def iphdr_bytes_def)
  show ?thesis
    using assms c iphdr_verifies [OF c] i by (simp add: fill_iphdr_def ip_saddr_def ip_daddr_def hdr_word_iphdr Let_def)
qed

theorem ip_header_checksum_verifies_witness:
  "\<exists>h. fill_iphdr (undefined \<lparr> hw_csum := False \<rparr>) 7 6 0x0100000A 0x0200000A 40 = Inr h \<and> ip_fast_csum h (ip_ihl h) = Inr 0"
  using ip_header_checksum_verifies [of "undefined \<lparr> hw_csum := False \<rparr>" 7 6 "0x0100000A" "0x0200000A" 40] by auto


definition example_routes :: "route_table list" where
  "example_routes = [\<lparr> rt_daddr = 0x0000010A, rt_mask = MaskFromPrefix 16, rt_masked = 0x0000010A, rt_prefix = 16, rt_nif = 2 \<rparr>,
     \<lparr> rt_daddr = 0x0000000A, rt_mask = MaskFromPrefix 8, rt_masked = 0x0000000A, rt_prefix = 8, rt_nif = 1 \<rparr>]"

lemma example_masks: "MaskFromPrefix 16 = 0xFFFF" "MaskFromPrefix 8 = 0xFF"
  by code_simp+


text \<open>The same routes in the other order: the shorter prefix wins.\<close>

lemma GetOutputInterface_first_match:
  "GetOutputInterface (undefined \<lparr> rtable := rev example_routes, gateway := None \<rparr>) 0x0504010A = Inr (1, False)"
  by (simp add: GetOutputInterface_def example_routes_def example_masks)

text \<open>The prefix length entered for an interface counts the bits of a netmask in network order: a mask of 20 bits
  is entered with length 24.\<close>

lemma interface_route_prefix:
  "rt_prefix (interface_route \<lparr> eth_ifindex = 0, eth_haddr = [], eth_ip_addr = 0x0100000A, eth_netmask = MaskFromPrefix 20 \<rparr>) = 24"
  by code_simp

text \<open>C30. An answer to an ARP request fills the table: afterwards the sender's address resolves to its hardware
  address and the request is no longer pending.\<close>

theorem ProcessARPReply_resolves:
  assumes "length (arp_entries m) < MAX_ARPENTRY" "GetDestinationHWaddr (ar_sip arph) False m = None"
    "distinct (map aq_ip (arp_queue m))"
  shows "GetDestinationHWaddr (ar_sip arph) False (ProcessARPReply env arph m) = Some (ar_sha arph) \<and>
    fault (ProcessARPReply env arph m) = fault m \<and>
    (\<forall>e\<in>set (arp_queue (ProcessARPReply env arph m)). aq_ip e \<noteq> ar_sip arph)"
proof -
  let ?e = "\<lparr> arp_ip = ar_sip arph, arp_prefix = 32, arp_ip_mask = - 1, arp_ip_masked = ar_sip arph, arp_haddr = ar_sha arph \<rparr>"
  have n: "arp_loop (ar_sip arph) (arp_entries m) 0 None = None"
    using assms(2) by (simp add: GetDestinationHWaddr_def split: option.splits)
  define m1 where "m1 = RegisterARPEntry env (ar_sip arph) (ar_sha arph) m"
  have m1: "arp_entries m1 = arp_entries m @ [?e]" "arp_queue m1 = arp_queue m" "fault m1 = fault m"
    using assms(1) by (simp_all add: m1_def RegisterARPEntry_def Let_def split: option.splits)
  have p: "ProcessARPReply env arph m = m1 \<lparr> arp_queue := remove_first (\<lambda>e. aq_ip e = ar_sip arph) (arp_queue m) \<rparr>"
    using assms(2) m1(2) by (simp add: ProcessARPReply_def m1_def)
  have "arp_loop (ar_sip arph) (arp_entries m1) 0 None = Some (ar_sha arph)"
    using arp_loop_snoc [OF n, of ?e] by (simp add: m1)
  moreover have "\<forall>e\<in>set (remove_first (\<lambda>e. aq_ip e = ar_sip arph) q). aq_ip e \<noteq> ar_sip arph"
    if "distinct (map aq_ip q)" for q :: "arp_queue_entry list"
    using that by (induction q) (auto simp: image_def)
  ultimately show ?thesis
    using m1(3) assms(3) by (simp add: p GetDestinationHWaddr_def split: option.splits)
qed

theorem ProcessARPReply_resolves_witness:
  "GetDestinationHWaddr 9 False (ProcessARPReply (undefined \<lparr> gateway := None \<rparr>)
      \<lparr> ar_op = 2, ar_sha = [1, 2, 3, 4, 5, 6], ar_sip = 9, ar_tha = [], ar_tip = 8 \<rparr>
      (undefined \<lparr> arp_entries := [], arp_gateway := None, arp_queue := [] \<rparr>)) = Some [1, 2, 3, 4, 5, 6]"
  using ProcessARPReply_resolves [of "undefined \<lparr> arp_entries := [], arp_gateway := None, arp_queue := [] \<rparr>"
      "\<lparr> ar_op = 2, ar_sha = [1, 2, 3, 4, 5, 6], ar_sip = 9, ar_tha = [], ar_tip = 8 \<rparr>" "undefined \<lparr> gateway := None \<rparr>"]
  by (simp add: MAX_ARPENTRY_def GetDestinationHWaddr_def)

text \<open>C40. An echo request whose IP header length exceeds its total length makes the stack fail an assertion.\<close>

theorem ICMP_short_echo_aborts:
  assumes "\<exists>e\<in>set (eths env). ip_daddr pkt = eth_ip_addr e" "4 * ip_ihl pkt < length pkt"
    "pkt ! (4 * ip_ihl pkt) = ICMP_ECHO" "ip_len < 4 * int (ip_ihl pkt)" "fault m = None"
  shows "fault (ProcessICMPPacket env pkt ip_len m) = Some AssertFail"
  using assms by (simp add: ProcessICMPPacket_def ProcessICMPECHORequest_def ICMPChecksum_def raise_def Let_def)

definition short_echo :: "u8 list" where
  "short_echo = [0x4F, 0, 0, 20, 0, 0, 0, 0, 64, 1, 0, 0, 10, 0, 0, 1, 10, 0, 0, 2] @ replicate 40 0 @ [8, 0, 0, 0]"

theorem ICMP_short_echo_aborts_witness:
  "fault (ProcessICMPPacket (undefined \<lparr> eths := [\<lparr> eth_ifindex = 0, eth_haddr = [], eth_ip_addr = 0x0200000A, eth_netmask = 0 \<rparr>] \<rparr>)
     short_echo 20 (undefined \<lparr> fault := None \<rparr>)) = Some AssertFail"
proof (rule ICMP_short_echo_aborts)
  have "ip_daddr short_echo = 0x0200000A" by code_simp
  then show "\<exists>e\<in>set (eths (undefined \<lparr> eths := [\<lparr> eth_ifindex = 0, eth_haddr = [], eth_ip_addr = 0x0200000A, eth_netmask = 0 \<rparr>] \<rparr>)).
    ip_daddr short_echo = eth_ip_addr e" by simp
  have i: "ip_ihl short_echo = 15" by code_simp
  show "4 * ip_ihl short_echo < length short_echo" unfolding i by (simp add: short_echo_def)
  show "20 < 4 * int (ip_ihl short_echo)" unfolding i by simp
  show "short_echo ! (4 * ip_ihl short_echo) = ICMP_ECHO" unfolding i by code_simp
qed simp

end
