(* ===== verification/FlowTable.thy ===== *)
theory FlowTable
  imports Stream
begin

text \<open>
  The two chained hash tables (\<^verbatim>\<open>fhash.c\<close>, and \<^verbatim>\<open>HashFlow\<close> and
  \<^verbatim>\<open>EqualFlow\<close> of \<^verbatim>\<open>tcp_stream.c\<close>): established flows by their four-tuple and
  listeners by their port. \<open>keyed_table\<close> is their contract, a finite map from keys to elements;
  both tables are interpretations of it.
\<close>

section \<open>Hashing\<close>

definition NUM_BINS_FLOWS :: nat where "NUM_BINS_FLOWS = 131072"
definition NUM_BINS_LISTENERS :: nat where "NUM_BINS_LISTENERS = 1024"
definition TCP_AR_CNT :: nat where "TCP_AR_CNT = 3"

text \<open>The twelve bytes from \<^verbatim>\<open>saddr\<close> on: the two addresses and the two ports are adjacent. A
  byte is a \<^verbatim>\<open>char\<close>, so it is sign-extended before it is added.\<close>

definition hash_step :: "u8 \<Rightarrow> u32 \<Rightarrow> u32" where
  "hash_step k h = (let h1 = h + scast k; h2 = h1 + push_bit 10 h1 in h2 XOR drop_bit 6 h2)"

definition HashFlow :: "tcp_stream \<Rightarrow> nat" where
  "HashFlow flow =
    (let key = bytes32 (saddr flow) @ bytes32 (daddr flow) @ bytes16 (sport flow) @ bytes16 (dport flow);
         h = fold hash_step key 0;
         h1 = h + push_bit 3 h;
         h2 = h1 XOR drop_bit 11 h1;
         h3 = h2 + push_bit 15 h2 in
     unat (h3 AND (of_nat NUM_BINS_FLOWS - 1)))"

definition EqualFlow :: "tcp_stream \<Rightarrow> tcp_stream \<Rightarrow> bool" where
  "EqualFlow flow1 flow2 \<longleftrightarrow> saddr flow1 = saddr flow2 \<and> sport flow1 = sport flow2 \<and>
     daddr flow1 = daddr flow2 \<and> dport flow1 = dport flow2"

definition HashListener :: "u16 \<Rightarrow> nat" where
  "HashListener port = unat (port AND (of_nat NUM_BINS_LISTENERS - 1))"

section \<open>The table of flows\<close>

definition StreamHTInsert :: "sid \<Rightarrow> mtcp_manager \<Rightarrow> int \<times> mtcp_manager" where
  "StreamHTInsert s m =
    (let idx = HashFlow (streams m s) in
     if \<not> idx < NUM_BINS_FLOWS then (0, raise AssertFail m)
     else (0, upd_stream s (\<lambda>t. t \<lparr> ht_idx := TCP_AR_CNT \<rparr>)
            (m \<lparr> flow_table := (flow_table m)(idx := flow_table m idx @ [s]) \<rparr>)))"

definition StreamHTRemove :: "sid \<Rightarrow> mtcp_manager \<Rightarrow> mtcp_manager" where
  "StreamHTRemove s m =
    (let idx = HashFlow (streams m s) in
     tq_remove s (flow_table m idx) (\<lambda>ys m. m \<lparr> flow_table := (flow_table m)(idx := ys) \<rparr>) m)"

definition StreamHTSearch :: "tcp_stream \<Rightarrow> mtcp_manager \<Rightarrow> sid option" where
  "StreamHTSearch item m = List.find (\<lambda>w. EqualFlow (streams m w) item) (flow_table m (HashFlow item))"

section \<open>The table of listeners\<close>

definition listener_port :: "mtcp_manager \<Rightarrow> lid \<Rightarrow> u16" where
  "listener_port m l = sin_port (sock_saddr (smap m (l_sockid (listener_mem m l))))"

definition ListenerHTInsert :: "lid \<Rightarrow> mtcp_manager \<Rightarrow> int \<times> mtcp_manager" where
  "ListenerHTInsert l m =
    (let idx = HashListener (listener_port m l) in
     if \<not> idx < NUM_BINS_LISTENERS then (0, raise AssertFail m)
     else (0, m \<lparr> listeners := (listeners m)(idx := listeners m idx @ [l]) \<rparr>))"

definition ListenerHTRemove :: "lid \<Rightarrow> mtcp_manager \<Rightarrow> mtcp_manager" where
  "ListenerHTRemove l m =
    (let idx = HashListener (listener_port m l) in
     case tailq_remove (listeners m idx) l of Inl e \<Rightarrow> raise e m
     | Inr ys \<Rightarrow> m \<lparr> listeners := (listeners m)(idx := ys) \<rparr>)"

definition EqualListener :: "u16 \<Rightarrow> u16 \<Rightarrow> bool" where
  "EqualListener port1 port2 \<longleftrightarrow> port1 = port2"

definition ListenerHTSearch :: "u16 \<Rightarrow> mtcp_manager \<Rightarrow> lid option" where
  "ListenerHTSearch port m =
    List.find (\<lambda>l. EqualListener (listener_port m l) port) (listeners m (HashListener port))"

section \<open>The contract\<close>

datatype ('x, 'k) table_op = TInsert 'x | TRemove 'x | TSearch 'k

text \<open>A client that inserts an element only when its key is absent and removes only what it has
  inserted; the answers of its searches are collected.\<close>

fun table_run :: "('x \<Rightarrow> 't \<Rightarrow> 't) \<Rightarrow> ('x \<Rightarrow> 't \<Rightarrow> 't c_result) \<Rightarrow> ('k \<Rightarrow> 't \<Rightarrow> 'x option) \<Rightarrow>
    ('x, 'k) table_op list \<Rightarrow> 't \<Rightarrow> 'x option list c_result" where
  "table_run ins rem srch [] t = Inr []"
| "table_run ins rem srch (TInsert x # ops) t = table_run ins rem srch ops (ins x t)"
| "table_run ins rem srch (TRemove x # ops) t =
    (case rem x t of Inl e \<Rightarrow> Inl e | Inr t' \<Rightarrow> table_run ins rem srch ops t')"
| "table_run ins rem srch (TSearch k # ops) t =
    (case table_run ins rem srch ops t of Inl e \<Rightarrow> Inl e | Inr rs \<Rightarrow> Inr (srch k t # rs))"

text \<open>What a finite map answers; \<open>None\<close> when the client breaks its side.\<close>

fun table_spec :: "('x \<Rightarrow> 'k) \<Rightarrow> ('x, 'k) table_op list \<Rightarrow> ('k \<Rightarrow> 'x option) \<Rightarrow> 'x option list option" where
  "table_spec key [] f = Some []"
| "table_spec key (TInsert x # ops) f =
    (if f (key x) = None then table_spec key ops (f(key x \<mapsto> x)) else None)"
| "table_spec key (TRemove x # ops) f =
    (if f (key x) = Some x then table_spec key ops (f(key x := None)) else None)"
| "table_spec key (TSearch k # ops) f = map_option ((#) (f k)) (table_spec key ops f)"

locale keyed_table =
  fixes key :: "'x \<Rightarrow> 'k"
    and ins :: "'x \<Rightarrow> 't \<Rightarrow> 't"
    and rem :: "'x \<Rightarrow> 't \<Rightarrow> 't c_result"
    and srch :: "'k \<Rightarrow> 't \<Rightarrow> 'x option"
    and wf :: "'t \<Rightarrow> bool"
    and elems :: "'t \<Rightarrow> 'x set"
  assumes wf_insert: "wf t \<Longrightarrow> key x \<notin> key ` elems t \<Longrightarrow> wf (ins x t) \<and> elems (ins x t) = insert x (elems t)"
    and wf_remove: "wf t \<Longrightarrow> x \<in> elems t \<Longrightarrow> \<exists>t'. rem x t = Inr t' \<and> wf t' \<and> elems t' = elems t - {x}"
    and search_iff: "wf t \<Longrightarrow> srch k t = Some x \<longleftrightarrow> x \<in> elems t \<and> key x = k"
begin

lemma key_inj: "wf t \<Longrightarrow> x \<in> elems t \<Longrightarrow> y \<in> elems t \<Longrightarrow> key x = key y \<Longrightarrow> x = y"
  using search_iff by (metis option.inject)

lemma search_none: "wf t \<Longrightarrow> srch k t = None \<longleftrightarrow> k \<notin> key ` elems t"
  using search_iff by (metis (full_types) image_iff not_None_eq)

lemma search_insert:
  assumes "wf t" "key x \<notin> key ` elems t"
  shows "srch k (ins x t) = (if k = key x then Some x else srch k t)"
proof (cases "srch k t")
  case None
  with assms show ?thesis using wf_insert [OF assms] search_none [of "ins x t" k] search_iff [of "ins x t" k x]
    search_none [of t k] by auto
next
  case (Some y)
  then have "y \<in> elems t" "key y = k" using search_iff [OF assms(1)] by auto
  moreover from this have "k \<noteq> key x" using assms(2) by (metis imageI)
  ultimately show ?thesis using Some wf_insert [OF assms] search_iff [of "ins x t" k y] by simp
qed

lemma search_remove:
  assumes "wf t" "x \<in> elems t" "rem x t = Inr t'"
  shows "srch k t' = (if k = key x then None else srch k t)"
proof -
  have t': "wf t'" "elems t' = elems t - {x}" using wf_remove [OF assms(1,2)] assms(3) by auto
  have inj: "y = x" if "y \<in> elems t" "key y = key x" for y using key_inj [OF assms(1) that(1) assms(2)] that by simp
  show ?thesis
  proof (cases "srch k t'")
    case None
    then have "k \<notin> key ` (elems t - {x})" using search_none [OF t'(1)] t'(2) by simp
    then have "k = key x \<or> srch k t = None" using search_none [OF assms(1)] by auto
    with None show ?thesis by auto
  next
    case (Some y)
    then have y: "y \<in> elems t" "y \<noteq> x" "key y = k" using search_iff [OF t'(1)] t'(2) by auto
    with Some inj have "k \<noteq> key x" "srch k t = Some y" using search_iff [OF assms(1)] by auto
    with Some show ?thesis by simp
  qed
qed

text \<open>Any legal sequence of calls answers what a map answers.\<close>

lemma table_run_refines:
  assumes "wf t" "\<And>k. srch k t = f k" "table_spec key ops f = Some rs"
  shows "table_run ins rem srch ops t = Inr rs"
  using assms
proof (induction ops arbitrary: t f rs)
  case Nil
  then show ?case by simp
next
  case (Cons op ops)
  show ?case
  proof (cases op)
    case (TInsert x)
    with Cons.prems(3) have new: "f (key x) = None" and spec: "table_spec key ops (f(key x \<mapsto> x)) = Some rs"
      by (auto split: if_splits)
    then have fresh: "key x \<notin> key ` elems t" using search_none [OF Cons.prems(1)] Cons.prems(2) by metis
    have "srch k (ins x t) = (f(key x \<mapsto> x)) k" for k
      using search_insert [OF Cons.prems(1) fresh] Cons.prems(2) by simp
    from Cons.IH [OF _ this spec] wf_insert [OF Cons.prems(1) fresh] TInsert show ?thesis by simp
  next
    case (TRemove x)
    with Cons.prems(3) have old: "f (key x) = Some x" and spec: "table_spec key ops (f(key x := None)) = Some rs"
      by (auto split: if_splits)
    then have x: "x \<in> elems t" using search_iff [OF Cons.prems(1)] Cons.prems(2) by metis
    obtain t' where t': "rem x t = Inr t'" "wf t'" using wf_remove [OF Cons.prems(1) x] by auto
    have "srch k t' = (f(key x := None)) k" for k
      using search_remove [OF Cons.prems(1) x t'(1)] Cons.prems(2) by simp
    from Cons.IH [OF t'(2) this spec] t'(1) TRemove show ?thesis by simp
  next
    case (TSearch k)
    with Cons show ?thesis by auto
  qed
qed

end

section \<open>Chained buckets meet the contract\<close>

lemma find_SomeD: "List.find P xs = Some x \<Longrightarrow> x \<in> set xs \<and> P x"
  by (induction xs) (auto split: if_splits)

text \<open>Buckets indexed by a hash of the key.\<close>

definition bucket_insert :: "('k \<Rightarrow> nat) \<Rightarrow> ('x \<Rightarrow> 'k) \<Rightarrow> 'x \<Rightarrow> (nat \<Rightarrow> 'x list) \<Rightarrow> (nat \<Rightarrow> 'x list)" where
  "bucket_insert hash key x tab = tab(hash (key x) := tab (hash (key x)) @ [x])"

definition bucket_remove :: "('k \<Rightarrow> nat) \<Rightarrow> ('x \<Rightarrow> 'k) \<Rightarrow> 'x \<Rightarrow> (nat \<Rightarrow> 'x list) \<Rightarrow> (nat \<Rightarrow> 'x list) c_result" where
  "bucket_remove hash key x tab = (case tailq_remove (tab (hash (key x))) x of Inl e \<Rightarrow> Inl e
     | Inr ys \<Rightarrow> Inr (tab(hash (key x) := ys)))"

definition bucket_search :: "('k \<Rightarrow> nat) \<Rightarrow> ('x \<Rightarrow> 'k) \<Rightarrow> 'k \<Rightarrow> (nat \<Rightarrow> 'x list) \<Rightarrow> 'x option" where
  "bucket_search hash key k tab = List.find (\<lambda>x. key x = k) (tab (hash k))"

definition bucket_elems :: "(nat \<Rightarrow> 'x list) \<Rightarrow> 'x set" where
  "bucket_elems tab = (\<Union>b. set (tab b))"

definition bucket_wf :: "('k \<Rightarrow> nat) \<Rightarrow> ('x \<Rightarrow> 'k) \<Rightarrow> (nat \<Rightarrow> 'x list) \<Rightarrow> bool" where
  "bucket_wf hash key tab \<longleftrightarrow>
    (\<forall>b. distinct (tab b) \<and> (\<forall>x\<in>set (tab b). hash (key x) = b)) \<and> inj_on key (bucket_elems tab)"

lemma bucket_elem_iff: "bucket_wf hash key tab \<Longrightarrow> x \<in> bucket_elems tab \<longleftrightarrow> x \<in> set (tab (hash (key x)))"
  by (auto simp: bucket_wf_def bucket_elems_def)

lemma bucket_insert_elems: "bucket_elems (bucket_insert hash key x tab) = insert x (bucket_elems tab)"
  by (auto simp: bucket_elems_def bucket_insert_def split: if_splits)

lemma bucket_insert_wf:
  assumes "bucket_wf hash key tab" "key x \<notin> key ` bucket_elems tab"
  shows "bucket_wf hash key (bucket_insert hash key x tab)"
proof -
  have "x \<notin> bucket_elems tab" using assms(2) by auto
  then have "x \<notin> set (tab b)" for b by (auto simp: bucket_elems_def)
  then show ?thesis
    using assms unfolding bucket_wf_def bucket_insert_elems by (auto simp: bucket_insert_def)
qed

lemma bucket_remove_OK:
  assumes "bucket_wf hash key tab" "x \<in> bucket_elems tab"
  shows "\<exists>t'. bucket_remove hash key x tab = Inr t' \<and> bucket_wf hash key t' \<and> bucket_elems t' = bucket_elems tab - {x}"
proof -
  let ?b = "hash (key x)"
  let ?t = "tab(?b := remove1 x (tab ?b))"
  have x: "x \<in> set (tab ?b)" using assms bucket_elem_iff by metis
  have b: "distinct (tab b)" "y \<in> set (tab b) \<Longrightarrow> hash (key y) = b" for b y
    using assms(1) by (auto simp: bucket_wf_def)
  have "set (?t c) = set (tab c) - {x}" for c
  proof (cases "c = ?b")
    case True
    with b(1) show ?thesis by simp
  next
    case False
    then have "x \<notin> set (tab c)" using b(2) by blast
    with False show ?thesis by simp
  qed
  then have el: "bucket_elems ?t = bucket_elems tab - {x}" by (simp add: bucket_elems_def)
  have "inj_on key (bucket_elems tab - {x})" using assms(1) by (auto simp: bucket_wf_def intro: inj_on_subset)
  then have "bucket_wf hash key ?t" unfolding bucket_wf_def el using b by auto
  with x el show ?thesis by (auto simp: bucket_remove_def tailq_remove_def)
qed

lemma bucket_search_iff:
  assumes "bucket_wf hash key tab"
  shows "bucket_search hash key k tab = Some x \<longleftrightarrow> x \<in> bucket_elems tab \<and> key x = k"
proof
  assume "bucket_search hash key k tab = Some x"
  then show "x \<in> bucket_elems tab \<and> key x = k"
    by (auto simp: bucket_search_def bucket_elems_def dest: find_SomeD)
next
  assume x: "x \<in> bucket_elems tab \<and> key x = k"
  then have in_b: "x \<in> set (tab (hash k))" using bucket_elem_iff [OF assms] by metis
  have inj: "inj_on key (bucket_elems tab)" using assms by (simp add: bucket_wf_def)
  show "bucket_search hash key k tab = Some x"
  proof (cases "bucket_search hash key k tab")
    case None
    with in_b x show ?thesis by (simp add: bucket_search_def find_None_iff)
  next
    case (Some y)
    then have "y \<in> set (tab (hash k))" "key y = k" using find_SomeD [of "\<lambda>x. key x = k" "tab (hash k)" y] by (simp_all add: bucket_search_def)
    then have "y = x" using inj x by (metis UNIV_I UN_I bucket_elems_def inj_onD)
    with Some show ?thesis by simp
  qed
qed

interpretation bucket: keyed_table key "bucket_insert hash key" "bucket_remove hash key" "bucket_search hash key"
    "bucket_wf hash key" bucket_elems
  for hash :: "'k \<Rightarrow> nat" and key :: "'x \<Rightarrow> 'k"
  by unfold_locales (simp_all add: bucket_insert_wf bucket_insert_elems bucket_remove_OK bucket_search_iff)

section \<open>The flow table and the listener table are maps\<close>

type_synonym flow_key = "u32 \<times> u16 \<times> u32 \<times> u16"

definition flow_key :: "tcp_stream \<Rightarrow> flow_key" where
  "flow_key t = (saddr t, sport t, daddr t, dport t)"

text \<open>The stack variable \<^verbatim>\<open>s_stream\<close> that a search is done with.\<close>

definition key_stream :: "flow_key \<Rightarrow> tcp_stream" where
  "key_stream k = (case k of (sa, sp, da, dp) \<Rightarrow> zero_stream \<lparr> saddr := sa, sport := sp, daddr := da, dport := dp \<rparr>)"

definition flow_hash :: "flow_key \<Rightarrow> nat" where
  "flow_hash k = HashFlow (key_stream k)"

lemma HashFlow_key: "HashFlow t = flow_hash (flow_key t)"
  by (simp add: flow_hash_def HashFlow_def flow_key_def key_stream_def)

lemma EqualFlow_key: "EqualFlow t u \<longleftrightarrow> flow_key t = flow_key u"
  by (auto simp: EqualFlow_def flow_key_def)

lemma flow_key_key_stream [simp]: "flow_key (key_stream k) = k"
  by (cases k) (simp add: key_stream_def flow_key_def)

lemma HashFlow_less: "HashFlow t < NUM_BINS_FLOWS"
proof -
  have mask: "(of_nat NUM_BINS_FLOWS - 1 :: u32) = mask 17"
    by (simp add: NUM_BINS_FLOWS_def mask_eq_exp_minus_1)
  have "unat (take_bit 17 w) < 2 ^ 17" for w :: u32
    unfolding unsigned_take_bit_eq by (rule take_bit_nat_less_exp)
  then show ?thesis
    unfolding HashFlow_def Let_def mask take_bit_eq_mask [symmetric] by (simp add: NUM_BINS_FLOWS_def)
qed

lemma HashListener_less: "HashListener port < NUM_BINS_LISTENERS"
proof -
  have mask: "(of_nat NUM_BINS_LISTENERS - 1 :: u16) = mask 10"
    by (simp add: NUM_BINS_LISTENERS_def mask_eq_exp_minus_1)
  have "unat (take_bit 10 w) < 2 ^ 10" for w :: u16
    unfolding unsigned_take_bit_eq by (rule take_bit_nat_less_exp)
  then show ?thesis
    unfolding HashListener_def mask take_bit_eq_mask [symmetric] by (simp add: NUM_BINS_LISTENERS_def)
qed

lemma StreamHTInsert_eq:
  "StreamHTInsert s m = (0, upd_stream s (\<lambda>t. t \<lparr> ht_idx := TCP_AR_CNT \<rparr>)
    (m \<lparr> flow_table := bucket_insert flow_hash (\<lambda>s. flow_key (streams m s)) s (flow_table m) \<rparr>))"
  by (simp add: StreamHTInsert_def HashFlow_less Let_def bucket_insert_def HashFlow_key [symmetric])

lemma StreamHTRemove_eq:
  "StreamHTRemove s m = (case bucket_remove flow_hash (\<lambda>s. flow_key (streams m s)) s (flow_table m) of
     Inl e \<Rightarrow> raise e m | Inr tab \<Rightarrow> m \<lparr> flow_table := tab \<rparr>)"
  by (auto simp: StreamHTRemove_def Let_def tq_remove_def bucket_remove_def HashFlow_key split: sum.splits)

lemma StreamHTSearch_eq:
  "StreamHTSearch item m = bucket_search flow_hash (\<lambda>s. flow_key (streams m s)) (flow_key item) (flow_table m)"
  by (simp add: StreamHTSearch_def bucket_search_def EqualFlow_key HashFlow_key)

definition ht_wf :: "mtcp_manager \<Rightarrow> bool" where
  "ht_wf m \<longleftrightarrow> bucket_wf flow_hash (\<lambda>s. flow_key (streams m s)) (flow_table m)"

definition ht_streams :: "mtcp_manager \<Rightarrow> sid set" where
  "ht_streams m = bucket_elems (flow_table m)"

text \<open>A removal that corrupts the bucket is an error.\<close>

definition ht_remove :: "sid \<Rightarrow> mtcp_manager \<Rightarrow> mtcp_manager c_result" where
  "ht_remove s m = (let m' = StreamHTRemove s m in case fault m' of None \<Rightarrow> Inr m' | Some e \<Rightarrow> Inl e)"

definition ht_state :: "(sid \<Rightarrow> flow_key) \<Rightarrow> mtcp_manager \<Rightarrow> bool" where
  "ht_state K m \<longleftrightarrow> fault m = None \<and> (\<lambda>s. flow_key (streams m s)) = K \<and> bucket_wf flow_hash K (flow_table m)"

lemma ht_insert_OK:
  assumes "ht_state K m" "K s \<notin> K ` ht_streams m"
  shows "ht_state K (snd (StreamHTInsert s m)) \<and> ht_streams (snd (StreamHTInsert s m)) = insert s (ht_streams m)"
proof -
  have K: "(\<lambda>s. flow_key (streams m s)) = K" using assms(1) by (simp add: ht_state_def)
  have "(\<lambda>t. flow_key (((streams m)(s := streams m s \<lparr> ht_idx := TCP_AR_CNT \<rparr>)) t)) = K"
    by (auto simp: K [symmetric] flow_key_def fun_eq_iff)
  then show ?thesis
    using assms bucket_insert_wf [of flow_hash K "flow_table m" s]
    by (simp add: StreamHTInsert_eq ht_state_def ht_streams_def bucket_insert_elems)
qed

lemma ht_remove_OK:
  assumes "ht_state K m" "s \<in> ht_streams m"
  shows "\<exists>m'. ht_remove s m = Inr m' \<and> ht_state K m' \<and> ht_streams m' = ht_streams m - {s}"
proof -
  have K: "(\<lambda>s. flow_key (streams m s)) = K" using assms(1) by (simp add: ht_state_def)
  obtain tab where "bucket_remove flow_hash K s (flow_table m) = Inr tab" "bucket_wf flow_hash K tab"
      "bucket_elems tab = ht_streams m - {s}"
    using bucket_remove_OK [of flow_hash K "flow_table m" s] assms by (auto simp: ht_state_def ht_streams_def)
  with assms(1) K show ?thesis by (auto simp: ht_remove_def StreamHTRemove_eq ht_state_def ht_streams_def)
qed

lemma ht_search_iff:
  assumes "ht_state K m"
  shows "StreamHTSearch (key_stream k) m = Some s \<longleftrightarrow> s \<in> ht_streams m \<and> K s = k"
  using assms bucket_search_iff [of flow_hash K "flow_table m" k s]
  by (auto simp: StreamHTSearch_eq ht_state_def ht_streams_def)

interpretation ht: keyed_table K "\<lambda>s m. snd (StreamHTInsert s m)" ht_remove "\<lambda>k m. StreamHTSearch (key_stream k) m"
    "ht_state K" ht_streams
  for K :: "sid \<Rightarrow> flow_key"
  by unfold_locales (simp_all add: ht_insert_OK ht_remove_OK ht_search_iff)

text \<open>The same for listeners: their ports live in the sockets.\<close>

definition lt_remove :: "lid \<Rightarrow> mtcp_manager \<Rightarrow> mtcp_manager c_result" where
  "lt_remove l m = (let m' = ListenerHTRemove l m in case fault m' of None \<Rightarrow> Inr m' | Some e \<Rightarrow> Inl e)"

definition lt_state :: "(lid \<Rightarrow> u16) \<Rightarrow> mtcp_manager \<Rightarrow> bool" where
  "lt_state K m \<longleftrightarrow> fault m = None \<and> listener_port m = K \<and> bucket_wf HashListener K (listeners m)"

definition lt_listeners :: "mtcp_manager \<Rightarrow> lid set" where
  "lt_listeners m = bucket_elems (listeners m)"

lemma listener_port_listeners [simp]: "listener_port (m \<lparr> listeners := t \<rparr>) = listener_port m"
  by (rule ext) (simp add: listener_port_def)

lemma ListenerHTInsert_eq:
  "ListenerHTInsert l m = (0, m \<lparr> listeners := bucket_insert HashListener (listener_port m) l (listeners m) \<rparr>)"
  by (simp add: ListenerHTInsert_def Let_def HashListener_less bucket_insert_def)

lemma lt_insert_OK:
  "lt_state K m \<Longrightarrow> K l \<notin> K ` lt_listeners m \<Longrightarrow>
    lt_state K (snd (ListenerHTInsert l m)) \<and> lt_listeners (snd (ListenerHTInsert l m)) = insert l (lt_listeners m)"
  by (auto simp: lt_state_def lt_listeners_def ListenerHTInsert_eq bucket_insert_wf bucket_insert_elems)

lemma lt_remove_OK:
  assumes "lt_state K m" "l \<in> lt_listeners m"
  shows "\<exists>m'. lt_remove l m = Inr m' \<and> lt_state K m' \<and> lt_listeners m' = lt_listeners m - {l}"
proof -
  obtain tab where tab: "bucket_remove HashListener K l (listeners m) = Inr tab" "bucket_wf HashListener K tab"
      "bucket_elems tab = lt_listeners m - {l}"
    using bucket_remove_OK [of HashListener K "listeners m" l] assms by (auto simp: lt_state_def lt_listeners_def)
  have "ListenerHTRemove l m = m \<lparr> listeners := tab \<rparr>"
    using tab(1) assms(1) by (auto simp: ListenerHTRemove_def Let_def bucket_remove_def lt_state_def split: sum.splits)
  with assms(1) tab show ?thesis by (auto simp: lt_remove_def lt_state_def lt_listeners_def)
qed

lemma lt_search_iff:
  assumes "lt_state K m"
  shows "ListenerHTSearch port m = Some l \<longleftrightarrow> l \<in> lt_listeners m \<and> K l = port"
proof -
  have "ListenerHTSearch port m = bucket_search HashListener K port (listeners m)"
    using assms by (simp add: ListenerHTSearch_def bucket_search_def EqualListener_def lt_state_def)
  with assms bucket_search_iff [of HashListener K "listeners m" port l] show ?thesis
    by (simp add: lt_state_def lt_listeners_def)
qed

interpretation lt: keyed_table K "\<lambda>l m. snd (ListenerHTInsert l m)" lt_remove ListenerHTSearch "lt_state K" lt_listeners
  for K :: "lid \<Rightarrow> u16"
  by unfold_locales (simp_all add: lt_insert_OK lt_remove_OK lt_search_iff)

section \<open>Properties\<close>



text \<open>The listener table is a map from ports to listeners in the same sense.\<close>

theorem listener_table_is_map:
  assumes "fault m = None" "listeners m = (\<lambda>_. [])"
    and "table_spec (listener_port m) ops (\<lambda>_. None) = Some rs"
  shows "table_run (\<lambda>l m. snd (ListenerHTInsert l m)) lt_remove ListenerHTSearch ops m = Inr rs"
proof (rule lt.table_run_refines)
  show "lt_state (listener_port m) m"
    using assms(1,2) by (simp add: lt_state_def bucket_wf_def bucket_elems_def)
  show "ListenerHTSearch k m = None" for k using assms(2) by (simp add: ListenerHTSearch_def)
qed (rule assms(3))

theorem listener_table_is_map_witness:
  "\<exists>m. fault m = None \<and> listener_port m 7 = 80 \<and>
    table_run (\<lambda>l m. snd (ListenerHTInsert l m)) lt_remove ListenerHTSearch
      [TSearch 80, TInsert 7, TSearch 80, TSearch 81, TRemove 7, TSearch 80] m = Inr [None, Some 7, None, None]"
proof -
  let ?m = "undefined \<lparr> fault := None, listeners := \<lambda>_. [],
    smap := \<lambda>_. undefined \<lparr> sock_saddr := \<lparr> sin_addr = 0, sin_port = 80 \<rparr> \<rparr> \<rparr>"
  have p: "listener_port ?m = (\<lambda>_. 80)" by (rule ext) (simp add: listener_port_def)
  show ?thesis
    using listener_table_is_map [of ?m "[TSearch 80, TInsert 7, TSearch 80, TSearch 81, TRemove 7, TSearch 80]"]
    by (intro exI [of _ ?m]) (simp add: p)
qed

end
