(* ===== verification/EventPoll.thy ===== *)
theory EventPoll
  imports Stream "HOL-Library.Sublist"
begin

text \<open>
  Sockets and readiness events: the free list of sockets (\<^verbatim>\<open>socket.c\<close>), the three event queues and the
  epoll calls (\<^verbatim>\<open>eventpoll.c\<close>), the events the stack raises (\<^verbatim>\<open>tcp_stream.c\<close>) and their
  transfer to the application (\<^verbatim>\<open>FlushEpollEvents\<close> in \<^verbatim>\<open>core.c\<close>). An event queue is an
  interpretation of \<open>bounded_fifo\<close>, the sockets of \<open>resource_pool\<close>. Sleeping and waking a
  waiting application are not modelled: \<^verbatim>\<open>mtcp_epoll_wait\<close> is modelled for timeout 0.
\<close>

section \<open>Event bits\<close>

definition MTCP_EPOLLNONE :: u32 where "MTCP_EPOLLNONE = 0"
definition MTCP_EPOLLIN :: u32 where "MTCP_EPOLLIN = 0x001"
definition MTCP_EPOLLOUT :: u32 where "MTCP_EPOLLOUT = 0x004"
definition MTCP_EPOLLERR :: u32 where "MTCP_EPOLLERR = 0x008"
definition MTCP_EPOLLHUP :: u32 where "MTCP_EPOLLHUP = 0x010"
definition MTCP_EPOLLRDHUP :: u32 where "MTCP_EPOLLRDHUP = 0x2000"

lemmas epoll_bits = MTCP_EPOLLNONE_def MTCP_EPOLLIN_def MTCP_EPOLLOUT_def MTCP_EPOLLERR_def MTCP_EPOLLHUP_def MTCP_EPOLLRDHUP_def

datatype event_queue_type = USR_EVENT_QUEUE | USR_SHADOW_EVENT_QUEUE | MTCP_EVENT_QUEUE

section \<open>Event queues\<close>

definition zero_event :: mtcp_epoll_event_int where
  "zero_event = \<lparr> ev = \<lparr> ev_events = 0, ev_data = 0 \<rparr>, ev_sockid = 0 \<rparr>"

definition CreateEventQueue :: "bool \<Rightarrow> bool \<Rightarrow> int \<Rightarrow> event_queue option" where
  "CreateEventQueue eq_ok events_ok sz =
    (if \<not> eq_ok \<or> \<not> events_ok then None
     else Some \<lparr> eq_events = replicate (nat sz) zero_event, eq_start = 0, eq_end = 0, eq_size = sz, eq_num_events = 0 \<rparr>)"

definition EventQueLen :: "event_queue \<Rightarrow> int" where
  "EventQueLen eq = (eq_end eq - eq_start eq) AND (eq_size eq - 1)"

definition EventQueFull :: "event_queue \<Rightarrow> bool" where
  "EventQueFull eq \<longleftrightarrow> (eq_end eq + 1) mod eq_size eq = eq_start eq"

text \<open>The tail of \<^verbatim>\<open>AddEpollEvent\<close>: fullness is tested twice, and the second test would drop
  everything.\<close>

definition eq_put :: "event_queue \<Rightarrow> mtcp_epoll_event_int \<Rightarrow> (int \<times> event_queue) c_result" where
  "eq_put eq x =
    (if EventQueFull eq then Inr (- 1, eq)
     else if \<not> (0 \<le> eq_end eq \<and> nat (eq_end eq) < length (eq_events eq)) then Inl OutOfBounds
     else
       let eq1 = eq \<lparr> eq_events := (eq_events eq)[nat (eq_end eq) := x] \<rparr>;
           end1 = (if EventQueFull eq1 then eq_start eq1 else eq_end eq1);
           eq2 = eq1 \<lparr> eq_end := (end1 + 1) mod eq_size eq1 \<rparr> in
       Inr (0, eq2 \<lparr> eq_num_events := EventQueLen eq2 \<rparr>))"

text \<open>The tail of one turn of the fetch loops of \<^verbatim>\<open>mtcp_epoll_wait\<close>, with the event at the
  start of the queue.\<close>

definition eq_get :: "event_queue \<Rightarrow> (mtcp_epoll_event_int option \<times> event_queue) c_result" where
  "eq_get eq =
    (if eq_end eq = eq_start eq then Inr (None, eq)
     else if \<not> (0 \<le> eq_start eq \<and> nat (eq_start eq) < length (eq_events eq)) then Inl OutOfBounds
     else
       let x = eq_events eq ! nat (eq_start eq);
           eq1 = eq \<lparr> eq_start := (eq_start eq + 1) mod eq_size eq \<rparr>;
           eq2 = eq1 \<lparr> eq_num_events := EventQueLen eq1 \<rparr> in
       Inr (Some x, if EventQueFull eq2 then eq2 \<lparr> eq_start := eq_end eq2 \<rparr> else eq2))"

section \<open>Raising events\<close>

definition ep_queue :: "event_queue_type \<Rightarrow> mtcp_epoll \<Rightarrow> event_queue" where
  "ep_queue qt e = (case qt of USR_EVENT_QUEUE \<Rightarrow> usr_queue e | USR_SHADOW_EVENT_QUEUE \<Rightarrow> usr_shadow_queue e
     | MTCP_EVENT_QUEUE \<Rightarrow> mtcp_queue e)"

definition set_ep_queue :: "event_queue_type \<Rightarrow> event_queue \<Rightarrow> mtcp_epoll \<Rightarrow> mtcp_epoll" where
  "set_ep_queue qt q e = (case qt of USR_EVENT_QUEUE \<Rightarrow> e \<lparr> usr_queue := q \<rparr>
     | USR_SHADOW_EVENT_QUEUE \<Rightarrow> e \<lparr> usr_shadow_queue := q \<rparr> | MTCP_EVENT_QUEUE \<Rightarrow> e \<lparr> mtcp_queue := q \<rparr>)"

definition AddEpollEvent :: "event_queue_type \<Rightarrow> nat \<Rightarrow> u32 \<Rightarrow> mtcp_manager \<Rightarrow> int \<times> mtcp_manager" where
  "AddEpollEvent qt sockid event m =
    (case ep m of None \<Rightarrow> (- 1, m)
     | Some e \<Rightarrow>
       let s = smap m sockid in
       if event = 0 then (- 1, m)
       else if sock_events s AND event \<noteq> 0 then (0, m)
       else
         case eq_put (ep_queue qt e) \<lparr> ev = \<lparr> ev_events = event, ev_data = sock_ep_data s \<rparr>, ev_sockid = int sockid \<rparr> of
           Inl err \<Rightarrow> (0, raise err m)
         | Inr (r, q) \<Rightarrow>
             if r < 0 then (- 1, m)
             else (0, m \<lparr> ep := Some (set_ep_queue qt q e),
                 smap := (smap m)(sockid := s \<lparr> sock_events := sock_events s OR event \<rparr>) \<rparr>))"

definition RaiseReadEvent :: "sid \<Rightarrow> mtcp_manager \<Rightarrow> mtcp_manager" where
  "RaiseReadEvent s m = (case sock (streams m s) of None \<Rightarrow> m
     | Some k \<Rightarrow> if sock_epoll (smap m k) AND MTCP_EPOLLIN \<noteq> 0
         then snd (AddEpollEvent MTCP_EVENT_QUEUE k MTCP_EPOLLIN m) else m)"

definition RaiseWriteEvent :: "sid \<Rightarrow> mtcp_manager \<Rightarrow> mtcp_manager" where
  "RaiseWriteEvent s m = (case sock (streams m s) of None \<Rightarrow> m
     | Some k \<Rightarrow> if sock_epoll (smap m k) AND MTCP_EPOLLOUT \<noteq> 0
         then snd (AddEpollEvent MTCP_EVENT_QUEUE k MTCP_EPOLLOUT m) else m)"

definition RaiseCloseEvent :: "sid \<Rightarrow> mtcp_manager \<Rightarrow> mtcp_manager" where
  "RaiseCloseEvent s m = (case sock (streams m s) of None \<Rightarrow> m
     | Some k \<Rightarrow> if sock_epoll (smap m k) AND MTCP_EPOLLRDHUP \<noteq> 0
         then snd (AddEpollEvent MTCP_EVENT_QUEUE k MTCP_EPOLLRDHUP m)
         else if sock_epoll (smap m k) AND MTCP_EPOLLIN \<noteq> 0
         then snd (AddEpollEvent MTCP_EVENT_QUEUE k MTCP_EPOLLIN m) else m)"

definition RaiseErrorEvent :: "sid \<Rightarrow> mtcp_manager \<Rightarrow> mtcp_manager" where
  "RaiseErrorEvent s m = (case sock (streams m s) of None \<Rightarrow> m
     | Some k \<Rightarrow> if sock_epoll (smap m k) AND MTCP_EPOLLERR \<noteq> 0
         then snd (AddEpollEvent MTCP_EVENT_QUEUE k MTCP_EPOLLERR m) else m)"

section \<open>From the stack to the application\<close>

text \<open>The copy loop of \<^verbatim>\<open>FlushEpollEvents\<close>. It ends within \<^verbatim>\<open>size\<close> turns or never.\<close>

fun flush_loop :: "nat \<Rightarrow> event_queue \<Rightarrow> event_queue \<Rightarrow> (event_queue \<times> event_queue) c_result" where
  "flush_loop fuel mtcpq usrq =
    (if eq_end mtcpq = eq_start mtcpq \<or> EventQueFull usrq then Inr (mtcpq, usrq)
     else case fuel of 0 \<Rightarrow> Inl Diverges
     | Suc fuel' \<Rightarrow>
       if \<not> (0 \<le> eq_start mtcpq \<and> nat (eq_start mtcpq) < length (eq_events mtcpq) \<and>
             0 \<le> eq_end usrq \<and> nat (eq_end usrq) < length (eq_events usrq)) then Inl OutOfBounds
       else
         let usrq1 = usrq \<lparr> eq_events := (eq_events usrq)[nat (eq_end usrq) := eq_events mtcpq ! nat (eq_start mtcpq)] \<rparr>;
             mtcpq1 = mtcpq \<lparr> eq_start := (eq_start mtcpq + 1) mod eq_size mtcpq \<rparr>;
             usrq2 = usrq1 \<lparr> eq_end := (eq_end usrq1 + 1) mod eq_size usrq1 \<rparr> in
         if EventQueFull usrq2 then flush_loop fuel' mtcpq1 usrq2
         else flush_loop fuel' (mtcpq1 \<lparr> eq_num_events := EventQueLen mtcpq1 \<rparr>)
                (usrq2 \<lparr> eq_num_events := EventQueLen usrq2 \<rparr>))"

definition FlushEpollEvents :: "u32 \<Rightarrow> mtcp_manager \<Rightarrow> mtcp_manager" where
  "FlushEpollEvents now m =
    (case ep m of None \<Rightarrow> raise NullDeref m
     | Some e \<Rightarrow>
       case (if EventQueLen (mtcp_queue e) > 0
             then flush_loop (nat (eq_size (mtcp_queue e))) (mtcp_queue e) (usr_queue e)
             else Inr (mtcp_queue e, usr_queue e)) of
         Inl err \<Rightarrow> raise err m
       | Inr (mtcpq, usrq) \<Rightarrow>
           let e1 = e \<lparr> mtcp_queue := mtcpq, usr_queue := usrq \<rparr>;
               m1 = m \<lparr> ep := Some e1 \<rparr> in
           if ep_waiting e1 \<and> (eq_end usrq \<noteq> eq_start usrq \<or>
               eq_end (usr_shadow_queue e1) \<noteq> eq_start (usr_shadow_queue e1))
           then m1 \<lparr> ts_last_event := now \<rparr> else m1)"

section \<open>Sockets\<close>

text \<open>The search of \<^verbatim>\<open>AllocateSocket\<close>: sockets with undelivered events go to the end of the list. One
  turn per free socket decides it.\<close>

fun alloc_loop :: "nat \<Rightarrow> (nat \<Rightarrow> socket_map) \<Rightarrow> nat list \<Rightarrow> (nat option \<times> nat list) c_result" where
  "alloc_loop fuel sm [] = Inr (None, [])"
| "alloc_loop 0 sm (k # ks) = Inl Diverges"
| "alloc_loop (Suc fuel) sm (k # ks) =
    (if sock_events (sm k) \<noteq> 0 then alloc_loop fuel sm (ks @ [k]) else Inr (Some k, ks))"

definition AllocateSocket :: "socktype \<Rightarrow> mtcp_manager \<Rightarrow> nat option \<times> mtcp_manager" where
  "AllocateSocket ty m =
    (case alloc_loop (length (free_smap m)) (smap m) (free_smap m) of
       Inl err \<Rightarrow> (None, raise err m)
     | Inr (None, ks) \<Rightarrow> (None, m \<lparr> free_smap := ks \<rparr>)
     | Inr (Some k, ks) \<Rightarrow>
         (Some k, m \<lparr> free_smap := ks, smap := (smap m)(k := (smap m k) \<lparr> sock_type := ty, sock_opts := 0,
           sock_obj := SockNull, sock_epoll := 0, sock_events := 0,
           sock_saddr := \<lparr> sin_addr = 0, sin_port = 0 \<rparr>, sock_ep_data := 0 \<rparr>) \<rparr>))"

definition FreeSocket :: "nat \<Rightarrow> mtcp_manager \<Rightarrow> mtcp_manager" where
  "FreeSocket k m =
    (if sock_type (smap m k) = MTCP_SOCK_UNUSED then m
     else m \<lparr> smap := (smap m)(k := (smap m k) \<lparr> sock_type := MTCP_SOCK_UNUSED, sock_epoll := MTCP_EPOLLNONE,
              sock_events := 0, sock_obj := SockNull \<rparr>),
            free_smap := free_smap m @ [k] \<rparr>)"

definition GetSocket :: "stack_env \<Rightarrow> int \<Rightarrow> nat option" where
  "GetSocket env sockid = (if sockid < 0 \<or> max_concurrency env \<le> sockid then None else Some (nat sockid))"

section \<open>The epoll calls\<close>

definition mtcp_epoll_create :: "bool \<Rightarrow> int \<Rightarrow> mtcp_manager \<Rightarrow> int \<times> mtcp_manager" where
  "mtcp_epoll_create calloc_ok sz m =
    (if sz \<le> 0 then (- 1, m)
     else case AllocateSocket MTCP_SOCK_EPOLL m of
       (None, m1) \<Rightarrow> (- 1, m1)
     | (Some k, m1) \<Rightarrow>
         (case CreateEventQueue calloc_ok calloc_ok sz of
            None \<Rightarrow> (- 1, FreeSocket k m1)
          | Some q \<Rightarrow> (int k, m1 \<lparr> ep := Some \<lparr> usr_queue = q, usr_shadow_queue = q, mtcp_queue = q, ep_waiting = False \<rparr>,
              smap := (smap m1)(k := (smap m1 k) \<lparr> sock_obj := SockEp \<rparr>) \<rparr>)))"

definition RaisePendingStreamEvents :: "nat \<Rightarrow> mtcp_manager \<Rightarrow> int \<times> mtcp_manager" where
  "RaisePendingStreamEvents k m =
    (case obj_stream (sock_obj (smap m k)) of None \<Rightarrow> (- 1, m)
     | Some s \<Rightarrow>
       if st m s < TCP_ST_ESTABLISHED then (- 1, m)
       else
         let m1 = (if sock_epoll (smap m k) AND MTCP_EPOLLIN \<noteq> 0
                   then if (case rcvbuf (rcv_v m s) of None \<Rightarrow> False | Some b \<Rightarrow> 0 < sint (rb_merged_len b))
                        then snd (AddEpollEvent USR_SHADOW_EVENT_QUEUE k MTCP_EPOLLIN m)
                        else if st m s = TCP_ST_CLOSE_WAIT
                        then snd (AddEpollEvent USR_SHADOW_EVENT_QUEUE k MTCP_EPOLLIN m) else m
                   else m);
             m2 = (if sock_epoll (smap m1 k) AND MTCP_EPOLLOUT \<noteq> 0
                   then if sndbuf (snd_v m1 s) = None \<or> 0 < snd_wnd (snd_v m1 s)
                        then if sock_events (smap m1 k) AND MTCP_EPOLLOUT = 0
                             then snd (AddEpollEvent USR_SHADOW_EVENT_QUEUE k MTCP_EPOLLOUT m1) else m1
                        else m1
                   else m1) in
         (0, m2))"

datatype epoll_op = MTCP_EPOLL_CTL_ADD | MTCP_EPOLL_CTL_DEL | MTCP_EPOLL_CTL_MOD

definition RaisePendingPipeEvents :: "nat \<Rightarrow> mtcp_manager \<Rightarrow> int \<times> mtcp_manager" where
  "RaisePendingPipeEvents k m =
    (case obj_pipe (sock_obj (smap m k)) of None \<Rightarrow> (- 1, m)
     | Some a \<Rightarrow>
       (case pipes m a of None \<Rightarrow> (- 1, raise UseAfterFree m)
        | Some pp \<Rightarrow>
          if pp_state pp = PIPE_CLOSED then (- 1, m)
          else
            let m1 = (if sock_epoll (smap m k) AND MTCP_EPOLLIN \<noteq> 0
                      then if pp_len pp > 0 \<or> pp_state pp = PIPE_CLOSE_WAIT
                           then snd (AddEpollEvent USR_SHADOW_EVENT_QUEUE k MTCP_EPOLLIN m) else m
                      else m);
                m2 = (if sock_epoll (smap m1 k) AND MTCP_EPOLLOUT \<noteq> 0
                      then if pp_len pp < pp_size pp
                           then snd (AddEpollEvent USR_SHADOW_EVENT_QUEUE k MTCP_EPOLLOUT m1) else m1
                      else m1) in
            (0, m2)))"

text \<open>The stray unlock in the branch of \<^verbatim>\<open>MTCP_EPOLL_CTL_MOD\<close> has no effect on this state.\<close>

definition raise_pending :: "nat \<Rightarrow> mtcp_manager \<Rightarrow> mtcp_manager" where
  "raise_pending k m =
    (if sock_type (smap m k) = MTCP_SOCK_STREAM then snd (RaisePendingStreamEvents k m)
     else if sock_type (smap m k) = MTCP_SOCK_PIPE then snd (RaisePendingPipeEvents k m) else m)"

definition register_events :: "mtcp_epoll_event \<Rightarrow> nat \<Rightarrow> mtcp_manager \<Rightarrow> mtcp_manager" where
  "register_events event k m = m \<lparr> smap := (smap m)(k := (smap m k) \<lparr> sock_ep_data := ev_data event,
     sock_epoll := ev_events event OR (MTCP_EPOLLERR OR MTCP_EPOLLHUP) \<rparr>) \<rparr>"

definition mtcp_epoll_ctl :: "stack_env \<Rightarrow> int \<Rightarrow> epoll_op \<Rightarrow> int \<Rightarrow>
    mtcp_epoll_event option \<Rightarrow> mtcp_manager \<Rightarrow> int \<times> mtcp_manager" where
  "mtcp_epoll_ctl env epid op sockid event m =
    (if epid < 0 \<or> max_concurrency env \<le> epid then (- 1, m)
     else if sockid < 0 \<or> max_concurrency env \<le> sockid then (- 1, m)
     else if sock_type (smap m (nat epid)) \<noteq> MTCP_SOCK_EPOLL then (- 1, m)
     else if sock_obj (smap m (nat epid)) \<noteq> SockEp \<or> (event = None \<and> op \<noteq> MTCP_EPOLL_CTL_DEL) then (- 1, m)
     else
       let k = nat sockid; s = smap m k in
       case op of
         MTCP_EPOLL_CTL_ADD \<Rightarrow>
           if sock_epoll s \<noteq> 0 then (- 1, m)
           else (0, raise_pending k (register_events (the event) k m))
       | MTCP_EPOLL_CTL_MOD \<Rightarrow>
           if sock_epoll s = 0 then (- 1, m)
           else (0, raise_pending k (register_events (the event) k m))
       | MTCP_EPOLL_CTL_DEL \<Rightarrow>
           if sock_epoll s = 0 then (- 1, m)
           else (0, m \<lparr> smap := (smap m)(k := s \<lparr> sock_epoll := MTCP_EPOLLNONE \<rparr>) \<rparr>))"

text \<open>A fetch loop: an event is delivered if its socket is in use, waits for it and still has it pending; it
  is cleared in either case. \<open>room\<close> is \<^verbatim>\<open>maxevents - cnt\<close>.\<close>

definition event_valid :: "socket_map \<Rightarrow> mtcp_epoll_event_int \<Rightarrow> bool" where
  "event_valid s x \<longleftrightarrow> sock_type s \<noteq> MTCP_SOCK_UNUSED \<and> sock_epoll s AND ev_events (ev x) \<noteq> 0 \<and>
     sock_events s AND ev_events (ev x) \<noteq> 0"

definition clear_event :: "mtcp_epoll_event_int \<Rightarrow> (nat \<Rightarrow> socket_map) \<Rightarrow> nat \<Rightarrow> socket_map" where
  "clear_event x sm = (let k = nat (ev_sockid x) in
     sm(k := (sm k) \<lparr> sock_events := sock_events (sm k) AND NOT (ev_events (ev x)) \<rparr>))"

fun fetch_loop :: "nat \<Rightarrow> nat \<Rightarrow> (nat \<Rightarrow> socket_map) \<Rightarrow> event_queue \<Rightarrow>
    (mtcp_epoll_event list \<times> (nat \<Rightarrow> socket_map) \<times> event_queue) c_result" where
  "fetch_loop fuel room sm q =
    (if eq_end q = eq_start q \<or> room = 0 then Inr ([], sm, q)
     else case fuel of 0 \<Rightarrow> Inl Diverges
     | Suc fuel' \<Rightarrow>
       (case eq_get q of Inl err \<Rightarrow> Inl err
        | Inr (None, q') \<Rightarrow> Inr ([], sm, q')
        | Inr (Some x, q') \<Rightarrow>
          if ev_sockid x < 0 then Inl OutOfBounds
          else
            if event_valid (sm (nat (ev_sockid x))) x
            then (case fetch_loop fuel' (room - 1) (clear_event x sm) q' of Inl err \<Rightarrow> Inl err
                  | Inr (es, r) \<Rightarrow> Inr (ev x # es, r))
            else fetch_loop fuel' room (clear_event x sm) q'))"

text \<open>\<^verbatim>\<open>mtcp_epoll_wait\<close> with timeout 0, the two loops one after the other.\<close>

definition mtcp_epoll_wait :: "stack_env \<Rightarrow> int \<Rightarrow> int \<Rightarrow> mtcp_manager \<Rightarrow> int \<times> mtcp_epoll_event list \<times> mtcp_manager" where
  "mtcp_epoll_wait env epid maxevents m =
    (if epid < 0 \<or> max_concurrency env \<le> epid then (- 1, [], m)
     else if sock_type (smap m (nat epid)) \<noteq> MTCP_SOCK_EPOLL then (- 1, [], m)
     else case ep m of None \<Rightarrow> (- 1, [], m)
     | Some e \<Rightarrow>
       if sock_obj (smap m (nat epid)) \<noteq> SockEp \<or> maxevents \<le> 0 then (- 1, [], m)
       else
         case fetch_loop (nat (eq_size (usr_queue e))) (nat maxevents) (smap m) (usr_queue e) of
           Inl err \<Rightarrow> (0, [], raise err m)
         | Inr (es1, sm1, q1) \<Rightarrow>
           (case fetch_loop (nat (eq_size (usr_shadow_queue e))) (nat maxevents - length es1) sm1 (usr_shadow_queue e) of
              Inl err \<Rightarrow> (0, [], raise err m)
            | Inr (es2, sm2, q2) \<Rightarrow>
                (int (length es1 + length es2), es1 @ es2,
                 m \<lparr> smap := sm2, ep := Some (e \<lparr> usr_queue := q1, usr_shadow_queue := q2 \<rparr>) \<rparr>)))"

section \<open>An event queue is a bounded queue\<close>

definition eq_inv :: "event_queue \<Rightarrow> bool" where
  "eq_inv q \<longleftrightarrow> int (length (eq_events q)) = eq_size q \<and> 0 \<le> eq_start q \<and> eq_start q < eq_size q \<and>
     0 \<le> eq_end q \<and> eq_end q < eq_size q"

definition eq_content :: "event_queue \<Rightarrow> mtcp_epoll_event_int list" where
  "eq_content q = ring_slots (eq_events q) (nat (eq_start q)) (nat (eq_end q))"

definition eq_cap :: "event_queue \<Rightarrow> nat" where
  "eq_cap q = nat (eq_size q) - 1"

lemma eq_invE:
  assumes "eq_inv q"
  obtains n h t where "length (eq_events q) = n" "eq_size q = int n" "eq_start q = int h" "eq_end q = int t" "h < n" "t < n"
  using assms that [of "length (eq_events q)" "nat (eq_start q)" "nat (eq_end q)"] by (auto simp: eq_inv_def)

lemma ring_next: "i < n \<Longrightarrow> (int i + 1) mod int n = int (ring_idx n i (Suc 0))"
  by (cases "Suc i = n") (auto simp: ring_idx_def ac_simps)

lemma eq_full_iff:
  assumes "eq_inv q"
  shows "EventQueFull q \<longleftrightarrow> length (eq_content q) = eq_cap q"
proof -
  from assms obtain n h t where "length (eq_events q) = n" "eq_size q = int n" "eq_start q = int h" "eq_end q = int t" "h < n" "t < n"
    by (rule eq_invE)
  then show ?thesis
    using ring_dist_full [of h n t] by (auto simp: EventQueFull_def ring_next eq_content_def eq_cap_def)
qed

lemma eq_content_le:
  assumes "eq_inv q"
  shows "length (eq_content q) \<le> eq_cap q"
proof -
  from assms obtain n h t where "length (eq_events q) = n" "eq_size q = int n" "eq_start q = int h" "eq_end q = int t" "h < n" "t < n"
    by (rule eq_invE)
  then show ?thesis using ring_dist_less [of h n t] by (auto simp: eq_content_def eq_cap_def)
qed

lemma eq_empty_iff:
  assumes "eq_inv q"
  shows "eq_content q = [] \<longleftrightarrow> eq_end q = eq_start q"
proof -
  from assms obtain n h t where "length (eq_events q) = n" "eq_size q = int n" "eq_start q = int h" "eq_end q = int t" "h < n" "t < n"
    by (rule eq_invE)
  then show ?thesis using ring_dist_eq_0 [of h n t] by (auto simp: eq_content_def ring_slots_def)
qed

text \<open>Writing behind the last event, and dropping the first one.\<close>

lemma eq_push:
  assumes inv: "eq_inv q" and room: "length (eq_content q) < eq_cap q"
    and q': "eq_events q' = (eq_events q)[nat (eq_end q) := x]" "eq_end q' = (eq_end q + 1) mod eq_size q"
      "eq_start q' = eq_start q" "eq_size q' = eq_size q"
  shows "eq_inv q' \<and> eq_content q' = eq_content q @ [x] \<and> eq_cap q' = eq_cap q"
proof -
  from inv obtain n h t where q: "length (eq_events q) = n" "eq_size q = int n" "eq_start q = int h" "eq_end q = int t" "h < n" "t < n"
    by (rule eq_invE)
  have "\<not> EventQueFull q" using eq_full_iff [OF inv] room by simp
  then have nx: "ring_idx n t (Suc 0) \<noteq> h" using q by (simp add: EventQueFull_def ring_next)
  have "ring_idx n t (Suc 0) < n" using q room by (intro ring_idx_less) (auto simp: eq_cap_def)
  then show ?thesis
    using q q' ring_slots_push [of h "eq_events q" t x] nx
    by (simp add: eq_inv_def eq_content_def eq_cap_def ring_next)
qed

lemma eq_pop:
  assumes inv: "eq_inv q" and ne: "eq_content q = x # xs"
    and q': "eq_events q' = eq_events q" "eq_end q' = eq_end q" "eq_start q' = (eq_start q + 1) mod eq_size q" "eq_size q' = eq_size q"
  shows "eq_inv q' \<and> eq_content q' = xs \<and> eq_cap q' = eq_cap q \<and> x = eq_events q ! nat (eq_start q)"
proof -
  from inv obtain n h t where q: "length (eq_events q) = n" "eq_size q = int n" "eq_start q = int h" "eq_end q = int t" "h < n" "t < n"
    by (rule eq_invE)
  have ht: "h \<noteq> t" using eq_empty_iff [OF inv] ne q by auto
  have "ring_idx n h (Suc 0) < n" using q ht by (intro ring_idx_less) auto
  then show ?thesis
    using q q' ne ring_slots_pop [of h "eq_events q" t] ht
    by (auto simp: eq_inv_def eq_content_def eq_cap_def ring_next)
qed

lemma eq_put_room:
  assumes inv: "eq_inv q" and room: "length (eq_content q) < eq_cap q"
  shows "\<exists>q'. eq_put q x = Inr (0, q') \<and> eq_inv q' \<and> eq_content q' = eq_content q @ [x] \<and> eq_cap q' = eq_cap q"
proof -
  have nf: "\<not> EventQueFull q" using eq_full_iff [OF inv] room by simp
  let ?q1 = "q \<lparr> eq_events := (eq_events q)[nat (eq_end q) := x], eq_end := (eq_end q + 1) mod eq_size q \<rparr>"
  have nf1: "\<not> EventQueFull (q \<lparr> eq_events := (eq_events q)[nat (eq_end q) := x] \<rparr>)" using nf by (simp add: EventQueFull_def)
  from inv have "nat (eq_end q) < length (eq_events q)" "0 \<le> eq_end q" by (auto elim: eq_invE)
  then have "eq_put q x = Inr (0, ?q1 \<lparr> eq_num_events := EventQueLen ?q1 \<rparr>)"
    using nf nf1 by (simp add: eq_put_def Let_def)
  with eq_push [OF inv room, of "?q1 \<lparr> eq_num_events := EventQueLen ?q1 \<rparr>" x] show ?thesis by simp
qed

lemma eq_put_full: "eq_inv q \<Longrightarrow> length (eq_content q) = eq_cap q \<Longrightarrow> eq_put q x = Inr (- 1, q)"
  by (simp add: eq_put_def eq_full_iff)

lemma eq_get_empty: "eq_inv q \<Longrightarrow> eq_content q = [] \<Longrightarrow> eq_get q = Inr (None, q)"
  by (simp add: eq_get_def eq_empty_iff)

text \<open>After a removal the queue is not full, so the last test of the loop never drops anything.\<close>

lemma eq_get_cons:
  assumes inv: "eq_inv q" and ne: "eq_content q = x # xs"
  shows "\<exists>q'. eq_get q = Inr (Some x, q') \<and> eq_inv q' \<and> eq_content q' = xs \<and> eq_cap q' = eq_cap q"
proof -
  let ?q1 = "q \<lparr> eq_start := (eq_start q + 1) mod eq_size q \<rparr>"
  let ?q2 = "?q1 \<lparr> eq_num_events := EventQueLen ?q1 \<rparr>"
  have q2: "eq_inv ?q2" "eq_content ?q2 = xs" "eq_cap ?q2 = eq_cap q" "x = eq_events q ! nat (eq_start q)"
    using eq_pop [OF inv ne, of ?q2] by auto
  have "length (eq_content ?q2) < eq_cap ?q2" using eq_content_le [OF inv] ne q2 by simp
  then have nf: "\<not> EventQueFull ?q2" using eq_full_iff [OF q2(1)] by simp
  from inv have "nat (eq_start q) < length (eq_events q)" "0 \<le> eq_start q" by (auto elim: eq_invE)
  with nf eq_empty_iff [OF inv] ne q2(4) have "eq_get q = Inr (Some x, ?q2)" by (simp add: eq_get_def Let_def)
  with q2 show ?thesis by blast
qed

interpretation evq: bounded_fifo "\<lambda>q e. case e of None \<Rightarrow> Inl NullDeref | Some x \<Rightarrow> eq_put q x" eq_get eq_inv eq_content eq_cap
  by unfold_locales (simp_all add: eq_content_le eq_put_room eq_put_full eq_get_empty eq_get_cons)

section \<open>Flushing\<close>

lemma flush_loop_OK:
  assumes "eq_inv mq" "eq_inv uq" "length (eq_content mq) \<le> fuel"
  shows "\<exists>mq' uq'. flush_loop fuel mq uq = Inr (mq', uq') \<and> eq_inv mq' \<and> eq_inv uq' \<and>
    eq_cap mq' = eq_cap mq \<and> eq_cap uq' = eq_cap uq \<and>
    (let k = min (length (eq_content mq)) (eq_cap uq - length (eq_content uq)) in
     eq_content uq' = eq_content uq @ take k (eq_content mq) \<and> eq_content mq' = drop k (eq_content mq))"
  using assms
proof (induction fuel arbitrary: mq uq)
  case 0
  then show ?case using eq_empty_iff [of mq] by simp
next
  case (Suc fuel)
  show ?case
  proof (cases "eq_end mq = eq_start mq \<or> EventQueFull uq")
    case True
    then have "eq_content mq = [] \<or> length (eq_content uq) = eq_cap uq"
      using eq_empty_iff [OF Suc.prems(1)] eq_full_iff [OF Suc.prems(2)] by simp
    with Suc.prems True show ?thesis by (subst flush_loop.simps) auto
  next
    case False
    then obtain x xs where x: "eq_content mq = x # xs"
      using eq_empty_iff [OF Suc.prems(1)] by (cases "eq_content mq") auto
    have room: "length (eq_content uq) < eq_cap uq"
      using False eq_full_iff [OF Suc.prems(2)] eq_content_le [OF Suc.prems(2)] by simp
    let ?m1 = "mq \<lparr> eq_start := (eq_start mq + 1) mod eq_size mq \<rparr>"
    let ?u2 = "uq \<lparr> eq_events := (eq_events uq)[nat (eq_end uq) := eq_events mq ! nat (eq_start mq)],
      eq_end := (eq_end uq + 1) mod eq_size uq \<rparr>"
    have m1: "eq_inv m' \<and> eq_content m' = xs \<and> eq_cap m' = eq_cap mq \<and> x = eq_events mq ! nat (eq_start mq)"
      if "m' = ?m1 \<or> m' = ?m1 \<lparr> eq_num_events := EventQueLen ?m1 \<rparr>" for m'
      using eq_pop [OF Suc.prems(1) x, of m'] that by auto
    have u2: "eq_inv u' \<and> eq_content u' = eq_content uq @ [x] \<and> eq_cap u' = eq_cap uq"
      if "u' = ?u2 \<or> u' = ?u2 \<lparr> eq_num_events := EventQueLen ?u2 \<rparr>" for u'
      using eq_push [OF Suc.prems(2) room, of u' x] that m1 [of ?m1] by auto
    have b: "0 \<le> eq_start mq" "nat (eq_start mq) < length (eq_events mq)" "0 \<le> eq_end uq" "nat (eq_end uq) < length (eq_events uq)"
      using Suc.prems(1,2) by (auto elim: eq_invE)
    define m' u' where "m' = (if EventQueFull ?u2 then ?m1 else ?m1 \<lparr> eq_num_events := EventQueLen ?m1 \<rparr>)"
      and "u' = (if EventQueFull ?u2 then ?u2 else ?u2 \<lparr> eq_num_events := EventQueLen ?u2 \<rparr>)"
    have step: "flush_loop (Suc fuel) mq uq = flush_loop fuel m' u'"
      using False b by (subst flush_loop.simps) (simp add: Let_def m'_def u'_def)
    have m': "eq_inv m'" "eq_content m' = xs" "eq_cap m' = eq_cap mq" and u': "eq_inv u'" "eq_content u' = eq_content uq @ [x]" "eq_cap u' = eq_cap uq"
      using m1 [of m'] u2 [of u'] by (auto simp: m'_def u'_def)
    have k: "min (length (x # xs)) (eq_cap uq - length (eq_content uq)) =
        Suc (min (length xs) (eq_cap uq - length (eq_content uq @ [x])))" using room by simp
    from Suc.IH [OF m'(1) u'(1)] Suc.prems(3) show ?thesis
      unfolding step x k m' u' by (simp add: Let_def)
  qed
qed

text \<open>With a size that is a power of two the length test is exact.\<close>

lemma EventQueLen_pow2:
  assumes inv: "eq_inv q" and sz: "eq_size q = 2 ^ k"
  shows "EventQueLen q = int (length (eq_content q))"
proof -
  from inv obtain n h t where q: "length (eq_events q) = n" "eq_size q = int n" "eq_start q = int h" "eq_end q = int t" "h < n" "t < n"
    by (rule eq_invE)
  have "EventQueLen q = take_bit k (eq_end q - eq_start q)"
    by (simp add: EventQueLen_def sz take_bit_eq_mask mask_eq_exp_minus_1)
  also have "\<dots> = (int t - int h) mod int n"
    using q by (simp add: take_bit_eq_mod sz [symmetric])
  also have "\<dots> = int (ring_dist n h t)"
  proof (cases "h \<le> t")
    case True
    with q show ?thesis by (simp add: ring_dist_def)
  next
    case False
    then have "(int t - int h) mod int n = (int t - int h + int n) mod int n" by simp
    also have "\<dots> = int t - int h + int n" using False q by (intro mod_pos_pos_trivial) simp_all
    finally show ?thesis using False q by (simp add: ring_dist_def)
  qed
  finally show ?thesis using q by (simp add: eq_content_def)
qed

section \<open>Fetching\<close>

text \<open>What the fetch loops deliver, over the list of queued events: valid ones in order, at most \<open>room\<close>.\<close>

fun deliver :: "nat \<Rightarrow> (nat \<Rightarrow> socket_map) \<Rightarrow> mtcp_epoll_event_int list \<Rightarrow>
    mtcp_epoll_event list \<times> (nat \<Rightarrow> socket_map) \<times> mtcp_epoll_event_int list" where
  "deliver room sm [] = ([], sm, [])"
| "deliver 0 sm xs = ([], sm, xs)"
| "deliver (Suc r) sm (x # xs) =
    (if event_valid (sm (nat (ev_sockid x))) x
     then (let (es, sm', ys) = deliver r (clear_event x sm) xs in (ev x # es, sm', ys))
     else deliver (Suc r) (clear_event x sm) xs)"

lemma fetch_loop_deliver:
  assumes "eq_inv q" "length (eq_content q) \<le> fuel" "\<forall>x\<in>set (eq_content q). 0 \<le> ev_sockid x"
  shows "\<exists>q'. fetch_loop fuel room sm q =
      Inr (fst (deliver room sm (eq_content q)), fst (snd (deliver room sm (eq_content q))), q') \<and>
    eq_inv q' \<and> eq_cap q' = eq_cap q \<and> eq_content q' = snd (snd (deliver room sm (eq_content q)))"
  using assms
proof (induction fuel arbitrary: room sm q)
  case 0
  then have "eq_content q = []" by simp
  moreover from this 0 have "eq_end q = eq_start q" using eq_empty_iff [of q] by simp
  ultimately show ?case using 0 by (subst fetch_loop.simps) simp
next
  case (Suc fuel)
  show ?case
  proof (cases "eq_content q")
    case Nil
    then have "eq_end q = eq_start q" using eq_empty_iff [OF Suc.prems(1)] by simp
    with Nil Suc.prems show ?thesis by (subst fetch_loop.simps) simp
  next
    case (Cons x xs)
    show ?thesis
    proof (cases room)
      case 0
      with Cons Suc.prems show ?thesis by (subst fetch_loop.simps) simp
    next
      case r: (Suc r)
      obtain q' where q': "eq_get q = Inr (Some x, q')" "eq_inv q'" "eq_content q' = xs" "eq_cap q' = eq_cap q"
        using eq_get_cons [OF Suc.prems(1) Cons] by auto
      have ne: "eq_end q \<noteq> eq_start q" using eq_empty_iff [OF Suc.prems(1)] Cons by simp
      have x: "0 \<le> ev_sockid x" using Suc.prems(3) Cons by simp
      define sm' where "sm' = clear_event x sm"
      have IH: "\<exists>q''. fetch_loop fuel room' sm' q' = Inr (fst (deliver room' sm' xs), fst (snd (deliver room' sm' xs)), q'') \<and>
          eq_inv q'' \<and> eq_cap q'' = eq_cap q \<and> eq_content q'' = snd (snd (deliver room' sm' xs))" for room'
        using Suc.IH [OF q'(2), of room' sm'] Suc.prems(2,3) q'(3,4) Cons by simp
      show ?thesis
      proof (cases "event_valid (sm (nat (ev_sockid x))) x")
        case True
        have "fetch_loop (Suc fuel) room sm q = (case fetch_loop fuel r sm' q' of Inl err \<Rightarrow> Inl err
            | Inr (es, r) \<Rightarrow> Inr (ev x # es, r))"
          using ne q'(1) x True r by (subst fetch_loop.simps) (simp add: Let_def sm'_def)
        moreover have "deliver room sm (eq_content q) = (let (es, sm'', ys) = deliver r sm' xs in (ev x # es, sm'', ys))"
          using True by (simp add: Cons r Let_def sm'_def)
        ultimately show ?thesis using IH [of r] by (auto simp: Let_def split: prod.splits)
      next
        case False
        have "fetch_loop (Suc fuel) room sm q = fetch_loop fuel room sm' q'"
          using ne q'(1) x False r by (subst fetch_loop.simps) (simp add: Let_def sm'_def)
        moreover have "deliver room sm (eq_content q) = deliver room sm' xs"
          using False by (simp add: Cons r Let_def sm'_def)
        ultimately show ?thesis using IH [of room] by simp
      qed
    qed
  qed
qed

lemma deliver_length: "length (fst (deliver room sm xs)) \<le> room"
  by (induction room sm xs rule: deliver.induct) (auto split: prod.splits)

text \<open>Nothing but events of the queue is delivered, in the queue's order, and what is kept is a suffix.\<close>

lemma deliver_order:
  "\<exists>used. xs = used @ snd (snd (deliver room sm xs)) \<and> subseq (fst (deliver room sm xs)) (map ev used)"
proof (induction room sm xs rule: deliver.induct)
  case (3 r sm x xs)
  show ?case
  proof (cases "event_valid (sm (nat (ev_sockid x))) x")
    case True
    with "3.IH"(1) obtain used where "xs = used @ snd (snd (deliver r (clear_event x sm) xs))"
      "subseq (fst (deliver r (clear_event x sm) xs)) (map ev used)" by blast
    with True show ?thesis by (intro exI [of _ "x # used"]) (auto split: prod.splits)
  next
    case False
    with "3.IH"(2) obtain used where "xs = used @ snd (snd (deliver (Suc r) (clear_event x sm) xs))"
      "subseq (fst (deliver (Suc r) (clear_event x sm) xs)) (map ev used)" by blast
    with False show ?thesis by (intro exI [of _ "x # used"]) auto
  qed
qed auto

section \<open>The socket table is a pool\<close>

text \<open>Sockets not handed out wait in \<open>free_smap\<close> with nothing pending; the others have a type.\<close>

definition sock_free_ok :: "nat \<times> mtcp_manager \<Rightarrow> nat list \<Rightarrow> bool" where
  "sock_free_ok nm ks \<longleftrightarrow> (case nm of (n, m) \<Rightarrow> free_smap m = ks \<and> distinct ks \<and> set ks \<subseteq> {..<n} \<and>
     (\<forall>k\<in>set ks. sock_events (smap m k) = 0) \<and>
     (\<forall>k<n. sock_type (smap m k) = MTCP_SOCK_UNUSED \<longleftrightarrow> k \<in> set ks))"

definition sock_alloc :: "socktype \<Rightarrow> nat \<times> mtcp_manager \<Rightarrow> (nat option \<times> nat \<times> mtcp_manager) c_result" where
  "sock_alloc ty nm = (case AllocateSocket ty (snd nm) of (r, m) \<Rightarrow> Inr (r, fst nm, m))"

definition sock_free :: "nat \<times> mtcp_manager \<Rightarrow> nat \<Rightarrow> (nat \<times> mtcp_manager) c_result" where
  "sock_free nm k = Inr (fst nm, FreeSocket k (snd nm))"

lemma sock_alloc_head:
  assumes "sock_free_ok (n, m) (k # ks)" "ty \<noteq> MTCP_SOCK_UNUSED"
  shows "\<exists>m'. AllocateSocket ty m = (Some k, m') \<and> sock_free_ok (n, m') ks"
  using assms by (auto simp: sock_free_ok_def AllocateSocket_def)

lemma sock_free_tail:
  assumes "sock_free_ok (n, m) ks" "k < n" "k \<notin> set ks"
  shows "sock_free_ok (n, FreeSocket k m) (ks @ [k])"
  using assms by (auto simp: sock_free_ok_def FreeSocket_def)

interpretation sockp: resource_pool "sock_alloc MTCP_SOCK_STREAM" sock_free sock_free_ok "\<lambda>nm. {..<fst nm}"
proof
  fix p :: "nat \<times> mtcp_manager" and k ks
  show "sock_free_ok p [] \<Longrightarrow> sock_alloc MTCP_SOCK_STREAM p = Inr (None, p)"
    by (cases p) (simp add: sock_free_ok_def sock_alloc_def AllocateSocket_def)
  show "\<exists>p'. sock_alloc MTCP_SOCK_STREAM p = Inr (Some k, p') \<and> sock_free_ok p' ks \<and> {..<fst p'} = {..<fst p}"
    if "sock_free_ok p (k # ks)"
    using that sock_alloc_head [of "fst p" "snd p" k ks MTCP_SOCK_STREAM] by (cases p) (auto simp: sock_alloc_def)
  show "\<exists>p' ys. sock_free p k = Inr p' \<and> sock_free_ok p' ys \<and> set ys = insert k (set ks) \<and> {..<fst p'} = {..<fst p}"
    if "sock_free_ok p ks" "k \<in> {..<fst p}" "k \<notin> set ks"
    using that sock_free_tail [of "fst p" "snd p" ks k] by (cases p) (auto simp: sock_free_def intro!: exI [of _ "ks @ [k]"])
qed (auto simp: sock_free_ok_def)

text \<open>The search goes round for ever when every free socket has an event pending, and only then.\<close>

lemma alloc_loop_search:
  assumes "fuel \<le> length ks"
  shows "case alloc_loop fuel sm ks of
      Inl err \<Rightarrow> err = Diverges \<and> ks \<noteq> [] \<and> (\<forall>k\<in>set (take fuel ks). sock_events (sm k) \<noteq> 0)
    | Inr (None, ys) \<Rightarrow> ks = [] \<and> ys = []
    | Inr (Some k, ys) \<Rightarrow> sock_events (sm k) = 0 \<and> insert k (set ys) = set ks \<and> Suc (length ys) = length ks"
  using assms
proof (induction fuel sm ks rule: alloc_loop.induct)
  case (3 fuel sm k ks)
  show ?case
  proof (cases "sock_events (sm k) = 0")
    case False
    moreover have "take fuel (ks @ [k]) = take fuel ks" using "3.prems" by simp
    ultimately show ?thesis using "3.IH" "3.prems" by (auto split: sum.splits option.splits)
  qed simp
qed simp_all

text \<open>C26. With nothing pending on the free sockets, any sequence of allocations and releases of sockets succeeds; a
  socket is never handed out twice, and the sockets held and the free ones are all sockets.\<close>

theorem sockets_are_pool:
  assumes "sock_free_ok (n, m) ks" "distinct held" "set held = {..<n} - set ks"
  shows "\<exists>m' held' ks'. pool_run (sock_alloc MTCP_SOCK_STREAM) sock_free ops (n, m) held = Inr ((n, m'), held') \<and>
    sock_free_ok (n, m') ks' \<and> distinct held' \<and> set held' \<inter> set ks' = {} \<and> set held' \<union> set ks' = {..<n}"
proof -
  have "sockp.owns (n, m) held" unfolding sockp.owns_def
    using assms by (intro exI [of _ ks]) (auto simp: sock_free_ok_def)
  from sockp.pool_run_owns [OF this, of ops] obtain p' held' where
    "pool_run (sock_alloc MTCP_SOCK_STREAM) sock_free ops (n, m) held = Inr (p', held')" "sockp.owns p' held'" "{..<fst p'} = {..<n}"
    by auto
  then show ?thesis by (cases p') (auto simp: sockp.owns_def)
qed

definition free_socket :: socket_map where
  "free_socket = \<lparr> sock_type = MTCP_SOCK_UNUSED, sock_opts = 0, sock_saddr = \<lparr> sin_addr = 0, sin_port = 0 \<rparr>,
     sock_obj = SockNull, sock_epoll = 0, sock_events = 0, sock_ep_data = 0 \<rparr>"

theorem sockets_are_pool_witness:
  "\<exists>m' held' ks'. pool_run (sock_alloc MTCP_SOCK_STREAM) sock_free [Alloc, Alloc, Free 0]
      (3, undefined \<lparr> smap := \<lambda>_. free_socket, free_smap := [0, 1, 2] \<rparr>) [] = Inr ((3, m'), held') \<and>
    sock_free_ok (3, m') ks' \<and> distinct held' \<and> set held' \<inter> set ks' = {} \<and> set held' \<union> set ks' = {..<3}"
  by (rule sockets_are_pool [of 3 _ "[0, 1, 2]"]) (auto simp: sock_free_ok_def free_socket_def)

text \<open>C37. The search for a free socket in \<^verbatim>\<open>AllocateSocket\<close> never returns when there are free sockets and
  every one of them still has an undelivered event.\<close>

theorem AllocateSocket_search_loops:
  assumes "free_smap m \<noteq> []" "\<forall>k\<in>set (free_smap m). sock_events (smap m k) \<noteq> 0"
  shows "alloc_loop fuel (smap m) (free_smap m) = Inl Diverges"
proof -
  have "ks \<noteq> [] \<Longrightarrow> \<forall>k\<in>set ks. sock_events (sm k) \<noteq> 0 \<Longrightarrow> alloc_loop fuel sm ks = Inl Diverges" for sm ks
    by (induction fuel sm ks rule: alloc_loop.induct) auto
  with assms show ?thesis by blast
qed

theorem AllocateSocket_search_loops_witness:
  "alloc_loop 7 (\<lambda>_. free_socket \<lparr> sock_events := MTCP_EPOLLIN \<rparr>) [4, 5] = Inl Diverges"
  using AllocateSocket_search_loops
    [of "undefined \<lparr> smap := \<lambda>_. free_socket \<lparr> sock_events := MTCP_EPOLLIN \<rparr>, free_smap := [4, 5] \<rparr>" 7]
  by (simp add: epoll_bits)

section \<open>Delivery\<close>

definition ep_inv :: "mtcp_epoll \<Rightarrow> bool" where
  "ep_inv e \<longleftrightarrow> eq_inv (usr_queue e) \<and> eq_inv (usr_shadow_queue e) \<and> eq_inv (mtcp_queue e) \<and>
     (\<forall>x\<in>set (eq_content (usr_queue e) @ eq_content (usr_shadow_queue e) @ eq_content (mtcp_queue e)). 0 \<le> ev_sockid x)"

text \<open>C27. With queues whose size is a power of two, \<^verbatim>\<open>FlushEpollEvents\<close> moves the oldest events of the stack's
  queue behind those of the application's queue, in order, as many as fit, and loses none.\<close>

theorem FlushEpollEvents_moves:
  assumes "ep m = Some e" "ep_inv e" "eq_size (mtcp_queue e) = 2 ^ n"
  shows "\<exists>e'. ep (FlushEpollEvents now m) = Some e' \<and> ep_inv e' \<and> fault (FlushEpollEvents now m) = fault m \<and>
    (let k = min (length (eq_content (mtcp_queue e))) (eq_cap (usr_queue e) - length (eq_content (usr_queue e))) in
     eq_content (usr_queue e') = eq_content (usr_queue e) @ take k (eq_content (mtcp_queue e)) \<and>
     eq_content (mtcp_queue e') = drop k (eq_content (mtcp_queue e)) \<and>
     eq_content (usr_shadow_queue e') = eq_content (usr_shadow_queue e))"
proof (cases "EventQueLen (mtcp_queue e) > 0")
  case True
  have inv: "eq_inv (mtcp_queue e)" "eq_inv (usr_queue e)" using assms by (auto simp: ep_inv_def)
  have "length (eq_content (mtcp_queue e)) \<le> nat (eq_size (mtcp_queue e))"
    using eq_content_le [OF inv(1)] by (simp add: eq_cap_def)
  from flush_loop_OK [OF inv this] obtain mq uq where f:
    "flush_loop (nat (eq_size (mtcp_queue e))) (mtcp_queue e) (usr_queue e) = Inr (mq, uq)" "eq_inv mq" "eq_inv uq"
    "let k = min (length (eq_content (mtcp_queue e))) (eq_cap (usr_queue e) - length (eq_content (usr_queue e))) in
     eq_content uq = eq_content (usr_queue e) @ take k (eq_content (mtcp_queue e)) \<and>
     eq_content mq = drop k (eq_content (mtcp_queue e))" by blast
  have "ep_inv (e \<lparr> mtcp_queue := mq, usr_queue := uq \<rparr>)"
    using assms(2) f by (auto simp: ep_inv_def Let_def dest: in_set_takeD in_set_dropD)
  with True f assms(1) show ?thesis by (simp add: FlushEpollEvents_def Let_def)
next
  case False
  then have "eq_content (mtcp_queue e) = []"
    using EventQueLen_pow2 [of "mtcp_queue e" n] assms by (simp add: ep_inv_def)
  with False assms show ?thesis by (simp add: FlushEpollEvents_def Let_def)
qed

definition ep_example :: "nat \<Rightarrow> nat \<Rightarrow> mtcp_epoll" where
  "ep_example sz n = (let q = \<lparr> eq_events = replicate sz zero_event, eq_start = 0, eq_end = 0, eq_size = int sz, eq_num_events = 0 \<rparr> in
     \<lparr> usr_queue = q, usr_shadow_queue = q, mtcp_queue = q \<lparr> eq_end := int n \<rparr>, ep_waiting = False \<rparr>)"

lemma ep_example_content:
  assumes "n < sz"
  shows "eq_content (usr_queue (ep_example sz n)) = []" "eq_content (usr_shadow_queue (ep_example sz n)) = []"
    "eq_content (mtcp_queue (ep_example sz n)) = replicate n zero_event"
    "eq_cap (usr_queue (ep_example sz n)) = sz - 1" "eq_size (mtcp_queue (ep_example sz n)) = int sz"
  using assms by (auto simp: ep_example_def eq_content_def eq_cap_def ring_slots_def ring_dist_def ring_idx_def Let_def
    intro!: nth_equalityI)

lemma ep_example_inv: "n < sz \<Longrightarrow> ep_inv (ep_example sz n)"
  by (auto simp: ep_inv_def ep_example_content) (auto simp: ep_example_def eq_inv_def zero_event_def Let_def)

theorem FlushEpollEvents_moves_witness:
  "\<exists>e'. ep (FlushEpollEvents 7 (undefined \<lparr> ep := Some (ep_example 4 2) \<rparr>)) = Some e' \<and>
    length (eq_content (usr_queue e')) = 2"
  using FlushEpollEvents_moves [of "undefined \<lparr> ep := Some (ep_example 4 2) \<rparr>" "ep_example 4 2" 2 7] ep_example_inv [of 2 4]
  by (auto simp: ep_example_content)





end
