(* ===== verification/StreamLists.thy ===== *)
theory StreamLists
  imports IpLayer FlowTable EventPoll
begin

text \<open>
  The lists a stream can be on: the control, send and ack lists of a sender (\<^verbatim>\<open>tcp_out.c\<close>), the
  buckets of the retransmission store, the timewait list and the timeout list (\<^verbatim>\<open>timer.c\<close>).
  Membership is cached in flags of the stream, and a stream that is unlinked from a list it is not on
  corrupts that list. The invariant \<open>lists_ok\<close> says that flags, lists and counters agree, and that
  the retransmission store and the timewait list, which share one link field, are never both in use. Every
  operation is shown to keep it and to leave the fault field alone.
\<close>

section \<open>Sender lists\<close>

text \<open>\<^verbatim>\<open>GetSender\<close>: \<open>Some (- 1)\<close> is \<^verbatim>\<open>g_sender\<close>, \<open>Some i\<close> is \<^verbatim>\<open>n_sender[i]\<close>,
  \<open>None\<close> the null pointer.\<close>

definition GetSender :: "stack_env \<Rightarrow> mtcp_manager \<Rightarrow> sid \<Rightarrow> int option" where
  "GetSender env m s =
    (if nif_out (snd_v m s) < 0 then Some (- 1)
     else
       let eidx = nif_to_eidx env (nif_out (snd_v m s)) in
       if eidx < 0 \<or> eidx \<ge> int (length (eths env)) then None else Some eidx)"

definition upd_sender :: "int \<Rightarrow> (mtcp_sender \<Rightarrow> mtcp_sender) \<Rightarrow> mtcp_manager \<Rightarrow> mtcp_manager" where
  "upd_sender e f m = m \<lparr> senders := (senders m)(e := f (senders m e)) \<rparr>"

definition AddtoControlList :: "stack_env \<Rightarrow> sid \<Rightarrow> mtcp_manager \<Rightarrow> mtcp_manager" where
  "AddtoControlList env s m =
    (if on_control_list (snd_v m s) then m
     else case GetSender env m s of None \<Rightarrow> raise AssertFail m
     | Some e \<Rightarrow> upd_sender e (\<lambda>x. x \<lparr> control_list := control_list x @ [s], control_list_cnt := control_list_cnt x + 1 \<rparr>)
         (upd_snd s (\<lambda>v. v \<lparr> on_control_list := True \<rparr>) m))"

definition AddtoSendList :: "stack_env \<Rightarrow> sid \<Rightarrow> mtcp_manager \<Rightarrow> mtcp_manager" where
  "AddtoSendList env s m =
    (case GetSender env m s of None \<Rightarrow> raise AssertFail m
     | Some e \<Rightarrow>
       if sndbuf (snd_v m s) = None then raise AssertFail m
       else if on_send_list (snd_v m s) then m
       else upd_sender e (\<lambda>x. x \<lparr> send_list := send_list x @ [s], send_list_cnt := send_list_cnt x + 1 \<rparr>)
         (upd_snd s (\<lambda>v. v \<lparr> on_send_list := True \<rparr>) m))"

definition AddtoACKList :: "stack_env \<Rightarrow> sid \<Rightarrow> mtcp_manager \<Rightarrow> mtcp_manager" where
  "AddtoACKList env s m =
    (case GetSender env m s of None \<Rightarrow> raise AssertFail m
     | Some e \<Rightarrow>
       if on_ack_list (snd_v m s) then m
       else upd_sender e (\<lambda>x. x \<lparr> ack_list := ack_list x @ [s], ack_list_cnt := ack_list_cnt x + 1 \<rparr>)
         (upd_snd s (\<lambda>v. v \<lparr> on_ack_list := True \<rparr>) m))"

definition RemoveFromControlList :: "stack_env \<Rightarrow> sid \<Rightarrow> mtcp_manager \<Rightarrow> mtcp_manager" where
  "RemoveFromControlList env s m =
    (case GetSender env m s of None \<Rightarrow> raise AssertFail m
     | Some e \<Rightarrow>
       if on_control_list (snd_v m s)
       then tq_remove s (control_list (senders m e))
         (\<lambda>ys. upd_sender e (\<lambda>x. x \<lparr> control_list := ys, control_list_cnt := control_list_cnt x - 1 \<rparr>))
         (upd_snd s (\<lambda>v. v \<lparr> on_control_list := False \<rparr>) m)
       else m)"

definition RemoveFromSendList :: "stack_env \<Rightarrow> sid \<Rightarrow> mtcp_manager \<Rightarrow> mtcp_manager" where
  "RemoveFromSendList env s m =
    (case GetSender env m s of None \<Rightarrow> raise AssertFail m
     | Some e \<Rightarrow>
       if on_send_list (snd_v m s)
       then tq_remove s (send_list (senders m e))
         (\<lambda>ys. upd_sender e (\<lambda>x. x \<lparr> send_list := ys, send_list_cnt := send_list_cnt x - 1 \<rparr>))
         (upd_snd s (\<lambda>v. v \<lparr> on_send_list := False \<rparr>) m)
       else m)"

definition RemoveFromACKList :: "stack_env \<Rightarrow> sid \<Rightarrow> mtcp_manager \<Rightarrow> mtcp_manager" where
  "RemoveFromACKList env s m =
    (case GetSender env m s of None \<Rightarrow> raise AssertFail m
     | Some e \<Rightarrow>
       if on_ack_list (snd_v m s)
       then tq_remove s (ack_list (senders m e))
         (\<lambda>ys. upd_sender e (\<lambda>x. x \<lparr> ack_list := ys, ack_list_cnt := ack_list_cnt x - 1 \<rparr>))
         (upd_snd s (\<lambda>v. v \<lparr> on_ack_list := False \<rparr>) m)
       else m)"

datatype ack_opt = ACK_OPT_NOW | ACK_OPT_AGGREGATE | ACK_OPT_WACK

text \<open>The test \<^verbatim>\<open>ack_cnt < ack_cnt + 1\<close> is made on integers and always holds; the increment wraps in the
  6-bit field.\<close>

definition EnqueueACK :: "stack_env \<Rightarrow> ack_opt \<Rightarrow> sid \<Rightarrow> mtcp_manager \<Rightarrow> mtcp_manager" where
  "EnqueueACK env opt s m =
    AddtoACKList env s (case opt of
        ACK_OPT_NOW \<Rightarrow> upd_snd s (\<lambda>v. v \<lparr> ack_cnt := (ack_cnt v + 1) mod 64 \<rparr>) m
      | ACK_OPT_AGGREGATE \<Rightarrow> if ack_cnt (snd_v m s) = 0 then upd_snd s (\<lambda>v. v \<lparr> ack_cnt := 1 \<rparr>) m else m
      | ACK_OPT_WACK \<Rightarrow> upd_snd s (\<lambda>v. v \<lparr> is_wack := True \<rparr>) m)"

section \<open>Timer lists\<close>

definition RTO_HASH :: nat where "RTO_HASH = 3000"

definition set_rto_list :: "nat \<Rightarrow> sid list \<Rightarrow> mtcp_manager \<Rightarrow> mtcp_manager" where
  "set_rto_list i xs m = m \<lparr> rto_list := (rto_list m)(i := xs) \<rparr>"

text \<open>The bucket for a timer: the signed distance to the clock of the store, added to the index in unsigned
  arithmetic, or the overflow bucket.\<close>

definition rto_bucket :: "u32 \<Rightarrow> int \<Rightarrow> nat" where
  "rto_bucket idx diff =
    (if diff < int RTO_HASH then unat ((of_int diff + idx) mod of_nat RTO_HASH) else RTO_HASH)"

definition AddtoRTOList :: "sid \<Rightarrow> mtcp_manager \<Rightarrow> mtcp_manager" where
  "AddtoRTOList s m =
    (let m1 = (if rto_list_cnt m = 0 then m \<lparr> rto_now_idx := 0, rto_now_ts := ts_rto (snd_v m s) \<rparr> else m) in
     if on_rto_idx (streams m1 s) < 0
     then if on_timewait_list (streams m1 s) then m1
          else
            let diff = sint (ts_rto (snd_v m1 s) - rto_now_ts m1);
                i = rto_bucket (rto_now_idx m1) diff in
            (set_rto_list i (rto_list m1 i @ [s]) (upd_stream s (\<lambda>t. t \<lparr> on_rto_idx := int i \<rparr>) m1))
              \<lparr> rto_list_cnt := rto_list_cnt m1 + 1 \<rparr>
     else m1)"

definition RemoveFromRTOList :: "sid \<Rightarrow> mtcp_manager \<Rightarrow> mtcp_manager" where
  "RemoveFromRTOList s m =
    (if on_rto_idx (streams m s) < 0 then m
     else
       let i = nat (on_rto_idx (streams m s)) in
       if RTO_HASH < i then raise OutOfBounds m
       else tq_remove s (rto_list m i)
         (\<lambda>ys m1. (set_rto_list i ys (upd_stream s (\<lambda>t. t \<lparr> on_rto_idx := - 1 \<rparr>) m1)) \<lparr> rto_list_cnt := rto_list_cnt m1 - 1 \<rparr>) m)"

definition AddtoTimewaitList :: "stack_env \<Rightarrow> u32 \<Rightarrow> sid \<Rightarrow> mtcp_manager \<Rightarrow> mtcp_manager" where
  "AddtoTimewaitList env now s m =
    (let m1 = upd_rcv s (\<lambda>v. v \<lparr> ts_tw_expire := now + tcp_timewait env \<rparr>) m in
     if on_timewait_list (streams m1 s)
     then tq_remove s (timewait_list m1) (\<lambda>ys m2. m2 \<lparr> timewait_list := ys @ [s] \<rparr>) m1
     else
       let m2 = (if on_rto_idx (streams m1 s) \<ge> 0 then RemoveFromRTOList s m1 else m1);
           m3 = upd_stream s (\<lambda>t. t \<lparr> on_timewait_list := True \<rparr>) m2 in
       m3 \<lparr> timewait_list := timewait_list m3 @ [s], timewait_list_cnt := timewait_list_cnt m3 + 1 \<rparr>)"

definition RemoveFromTimewaitList :: "sid \<Rightarrow> mtcp_manager \<Rightarrow> mtcp_manager" where
  "RemoveFromTimewaitList s m =
    (if \<not> on_timewait_list (streams m s) then raise AssertFail m
     else tq_remove s (timewait_list m)
       (\<lambda>ys m1. (upd_stream s (\<lambda>t. t \<lparr> on_timewait_list := False \<rparr>) m1)
         \<lparr> timewait_list := ys, timewait_list_cnt := timewait_list_cnt m1 - 1 \<rparr>) m)"

definition AddtoTimeoutList :: "sid \<Rightarrow> mtcp_manager \<Rightarrow> mtcp_manager" where
  "AddtoTimeoutList s m =
    (if on_timeout_list (streams m s) then raise AssertFail m
     else (upd_stream s (\<lambda>t. t \<lparr> on_timeout_list := True \<rparr>) m)
       \<lparr> timeout_list := timeout_list m @ [s], timeout_list_cnt := timeout_list_cnt m + 1 \<rparr>)"

definition RemoveFromTimeoutList :: "sid \<Rightarrow> mtcp_manager \<Rightarrow> mtcp_manager" where
  "RemoveFromTimeoutList s m =
    (if on_timeout_list (streams m s)
     then tq_remove s (timeout_list m)
       (\<lambda>ys m1. m1 \<lparr> timeout_list := ys, timeout_list_cnt := timeout_list_cnt m1 - 1 \<rparr>)
       (upd_stream s (\<lambda>t. t \<lparr> on_timeout_list := False \<rparr>) m)
     else m)"

definition UpdateTimeoutList :: "sid \<Rightarrow> mtcp_manager \<Rightarrow> mtcp_manager" where
  "UpdateTimeoutList s m =
    (if on_timeout_list (streams m s)
     then tq_remove s (timeout_list m) (\<lambda>ys m1. m1 \<lparr> timeout_list := ys @ [s] \<rparr>) m else m)"

definition UpdateRetransmissionTimer :: "u32 \<Rightarrow> sid \<Rightarrow> mtcp_manager \<Rightarrow> mtcp_manager" where
  "UpdateRetransmissionTimer now s m =
    (if rto (snd_v m s) = 0 then raise AssertFail m
     else
       let m1 = upd_snd s (\<lambda>v. v \<lparr> nrtx := 0 \<rparr>) m;
           m2 = (if on_rto_idx (streams m1 s) \<ge> 0 then RemoveFromRTOList s m1 else m1) in
       if TCP_SEQ_GT (snd_nxt (streams m2 s)) (snd_una (snd_v m2 s))
       then AddtoRTOList s (upd_snd s (\<lambda>v. v \<lparr> ts_rto := now + rto v \<rparr>) m2)
       else m2)"

section \<open>The invariant\<close>

definition listed :: "'a list \<Rightarrow> 'a set \<Rightarrow> bool" where
  "listed xs S \<longleftrightarrow> distinct xs \<and> set xs = S"

lemma listed_snoc: "listed xs S \<Longrightarrow> s \<notin> S \<Longrightarrow> listed (xs @ [s]) (insert s S)"
  by (auto simp: listed_def)

lemma listed_remove1: "listed xs S \<Longrightarrow> listed (remove1 s xs) (S - {s})"
  by (auto simp: listed_def)

lemma listed_move: "listed xs S \<Longrightarrow> s \<in> S \<Longrightarrow> listed (remove1 s xs @ [s]) S"
  by (auto simp: listed_def)

lemma listed_mem: "listed xs S \<Longrightarrow> s \<in> set xs \<longleftrightarrow> s \<in> S"
  by (simp add: listed_def)

lemma length_remove1_mem: "s \<in> set xs \<Longrightarrow> int (length (remove1 s xs)) = int (length xs) - 1"
  using length_pos_if_in_set [of s xs] by (simp add: length_remove1 of_nat_diff Suc_le_eq)

text \<open>A stream is live while it is in the flow table.\<close>

abbreviation live :: "mtcp_manager \<Rightarrow> sid \<Rightarrow> bool" where "live m s \<equiv> on_hash_table (streams m s)"

definition control_set :: "stack_env \<Rightarrow> mtcp_manager \<Rightarrow> int \<Rightarrow> sid set" where
  "control_set env m e = {s. live m s \<and> on_control_list (snd_v m s) \<and> GetSender env m s = Some e}"

definition send_set :: "stack_env \<Rightarrow> mtcp_manager \<Rightarrow> int \<Rightarrow> sid set" where
  "send_set env m e = {s. live m s \<and> on_send_list (snd_v m s) \<and> GetSender env m s = Some e}"

definition ack_set :: "stack_env \<Rightarrow> mtcp_manager \<Rightarrow> int \<Rightarrow> sid set" where
  "ack_set env m e = {s. live m s \<and> on_ack_list (snd_v m s) \<and> GetSender env m s = Some e}"

definition rto_set :: "mtcp_manager \<Rightarrow> nat \<Rightarrow> sid set" where
  "rto_set m i = {s. live m s \<and> on_rto_idx (streams m s) = int i}"

definition timewait_set :: "mtcp_manager \<Rightarrow> sid set" where
  "timewait_set m = {s. live m s \<and> on_timewait_list (streams m s)}"

definition timeout_set :: "mtcp_manager \<Rightarrow> sid set" where
  "timeout_set m = {s. live m s \<and> on_timeout_list (streams m s)}"

lemmas list_sets = control_set_def send_set_def ack_set_def rto_set_def timewait_set_def timeout_set_def

definition sender_ok :: "stack_env \<Rightarrow> mtcp_manager \<Rightarrow> int \<Rightarrow> bool" where
  "sender_ok env m e \<longleftrightarrow>
     listed (control_list (senders m e)) (control_set env m e) \<and>
     listed (send_list (senders m e)) (send_set env m e) \<and>
     listed (ack_list (senders m e)) (ack_set env m e) \<and>
     control_list_cnt (senders m e) = int (length (control_list (senders m e))) \<and>
     send_list_cnt (senders m e) = int (length (send_list (senders m e))) \<and>
     ack_list_cnt (senders m e) = int (length (ack_list (senders m e)))"

definition timers_ok :: "mtcp_manager \<Rightarrow> bool" where
  "timers_ok m \<longleftrightarrow>
     (\<forall>i. listed (rto_list m i) (rto_set m i)) \<and>
     listed (timewait_list m) (timewait_set m) \<and> listed (timeout_list m) (timeout_set m) \<and>
     (\<forall>s. live m s \<longrightarrow> on_rto_idx (streams m s) \<le> int RTO_HASH \<and>
        (on_timewait_list (streams m s) \<longrightarrow> on_rto_idx (streams m s) < 0)) \<and>
     rto_list_cnt m = (\<Sum>i\<le>RTO_HASH. int (length (rto_list m i))) \<and>
     timewait_list_cnt m = int (length (timewait_list m)) \<and>
     timeout_list_cnt m = int (length (timeout_list m))"

definition lists_ok :: "stack_env \<Rightarrow> mtcp_manager \<Rightarrow> bool" where
  "lists_ok env m \<longleftrightarrow> (\<forall>e. sender_ok env m e) \<and> timers_ok m \<and> (\<forall>s. live m s \<longrightarrow> GetSender env m s \<noteq> None)"

text \<open>The part of the state the invariant reads; an operation that leaves it alone keeps the invariant.\<close>

definition stream_view :: "tcp_stream \<Rightarrow> bool \<times> bool \<times> bool \<times> bool \<times> int \<times> int \<times> bool \<times> bool" where
  "stream_view t = (on_hash_table t, on_control_list (sndvar t), on_send_list (sndvar t), on_ack_list (sndvar t),
     nif_out (sndvar t), on_rto_idx t, on_timewait_list t, on_timeout_list t)"

definition timer_view :: "mtcp_manager \<Rightarrow> (nat \<Rightarrow> sid list) \<times> sid list \<times> sid list \<times> int \<times> int \<times> int" where
  "timer_view m = (rto_list m, timewait_list m, timeout_list m, rto_list_cnt m, timewait_list_cnt m, timeout_list_cnt m)"

definition same_lists :: "mtcp_manager \<Rightarrow> mtcp_manager \<Rightarrow> bool" where
  "same_lists m m' \<longleftrightarrow> (\<forall>s. stream_view (streams m' s) = stream_view (streams m s)) \<and>
     senders m' = senders m \<and> timer_view m' = timer_view m"

lemma lists_ok_cong:
  assumes "same_lists m m'"
  shows "lists_ok env m' = lists_ok env m"
proof -
  have v: "on_hash_table (streams m' s) = on_hash_table (streams m s)" "on_control_list (snd_v m' s) = on_control_list (snd_v m s)"
    "on_send_list (snd_v m' s) = on_send_list (snd_v m s)" "on_ack_list (snd_v m' s) = on_ack_list (snd_v m s)"
    "nif_out (snd_v m' s) = nif_out (snd_v m s)" "on_rto_idx (streams m' s) = on_rto_idx (streams m s)"
    "on_timewait_list (streams m' s) = on_timewait_list (streams m s)" "on_timeout_list (streams m' s) = on_timeout_list (streams m s)" for s
    using assms by (simp_all add: same_lists_def stream_view_def)
  have g: "GetSender env m' s = GetSender env m s" for s by (simp add: GetSender_def v)
  have "senders m' = senders m" "timer_view m' = timer_view m" using assms by (simp_all add: same_lists_def)
  then show ?thesis
    by (simp add: lists_ok_def sender_ok_def timers_ok_def list_sets v g timer_view_def)
qed

lemma same_lists_refl [simp]: "same_lists m m"
  by (simp add: same_lists_def)

lemma same_lists_trans: "same_lists m m' \<Longrightarrow> same_lists m' m'' \<Longrightarrow> same_lists m m''"
  by (simp add: same_lists_def)

lemma same_lists_upd_stream: "stream_view (f (streams m s)) = stream_view (streams m s) \<Longrightarrow> same_lists m (upd_stream s f m)"
  by (simp add: same_lists_def timer_view_def upd_stream_def)

section \<open>The sender operations keep the invariant\<close>

lemma GetSender_cong: "nif_out (snd_v m' s) = nif_out (snd_v m s) \<Longrightarrow> GetSender env m' s = GetSender env m s"
  by (simp add: GetSender_def)

lemma GetSender_upd_snd [simp]:
  "(\<And>v. nif_out (f v) = nif_out v) \<Longrightarrow> GetSender env (upd_snd s f m) s' = GetSender env m s'"
  by (rule GetSender_cong) simp

lemma GetSender_upd_sender [simp]: "GetSender env (upd_sender e f m) s' = GetSender env m s'"
  by (simp add: GetSender_def upd_sender_def)

lemma upd_sender_simps [simp]:
  "streams (upd_sender e f m) = streams m" "fault (upd_sender e f m) = fault m"
  "senders (upd_sender e f m) = (senders m)(e := f (senders m e))" "timer_view (upd_sender e f m) = timer_view m"
  by (simp_all add: upd_sender_def timer_view_def)

lemma upd_snd_simps [simp]:
  "fault (upd_snd s g m) = fault m" "senders (upd_snd s g m) = senders m" "timer_view (upd_snd s g m) = timer_view m"
  by (simp_all add: m_simps timer_view_def)

lemma timers_ok_cong:
  assumes "timer_view m' = timer_view m" "\<And>s. live m' s = live m s" "\<And>s. on_rto_idx (streams m' s) = on_rto_idx (streams m s)"
    "\<And>s. on_timewait_list (streams m' s) = on_timewait_list (streams m s)" "\<And>s. on_timeout_list (streams m' s) = on_timeout_list (streams m s)"
  shows "timers_ok m' = timers_ok m"
  using assms by (simp add: timers_ok_def timer_view_def list_sets)

lemma timers_ok_upd_snd [simp]: "timers_ok (upd_sender e f (upd_snd s g m)) = timers_ok m" "timers_ok (upd_snd s g m) = timers_ok m"
  by (rule timers_ok_cong; simp)+

lemma live_sender:
  assumes "lists_ok env m" "live m s"
  obtains e where "GetSender env m s = Some e" "sender_ok env m e"
  using assms by (auto simp: lists_ok_def)

text \<open>An update of one sender and of the flags of one of its streams only has to restore that sender.\<close>

lemma lists_ok_upd_sender:
  assumes ok: "lists_ok env m" and e: "GetSender env m s = Some e" and g: "\<And>v. nif_out (g v) = nif_out v"
    and eok: "sender_ok env (upd_sender e f (upd_snd s g m)) e"
  shows "lists_ok env (upd_sender e f (upd_snd s g m))"
proof -
  let ?m = "upd_sender e f (upd_snd s g m)"
  have sets: "control_set env ?m e' = control_set env m e'" "send_set env ?m e' = send_set env m e'"
    "ack_set env ?m e' = ack_set env m e'" if "e' \<noteq> e" for e'
    using that e g by (auto simp: list_sets)
  have "sender_ok env ?m e'" for e'
  proof (cases "e' = e")
    case False
    have "sender_ok env m e'" using ok by (simp add: lists_ok_def)
    with False sets [OF False] show ?thesis by (simp add: sender_ok_def)
  qed (use eok in simp)
  with ok g show ?thesis by (simp add: lists_ok_def)
qed

lemma sender_lists:
  assumes "lists_ok env m" "live m s" "GetSender env m s = Some e"
  shows "s \<in> set (control_list (senders m e)) \<longleftrightarrow> on_control_list (snd_v m s)"
    "s \<in> set (send_list (senders m e)) \<longleftrightarrow> on_send_list (snd_v m s)"
    "s \<in> set (ack_list (senders m e)) \<longleftrightarrow> on_ack_list (snd_v m s)"
  using assms by (auto simp: lists_ok_def sender_ok_def listed_def list_sets)

lemma AddtoControlList_ok:
  assumes ok: "lists_ok env m" and s: "live m s"
  shows "lists_ok env (AddtoControlList env s m) \<and> fault (AddtoControlList env s m) = fault m"
proof (cases "on_control_list (snd_v m s)")
  case False
  obtain e where e: "GetSender env m s = Some e" "sender_ok env m e" using live_sender [OF ok s] .
  let ?r = "upd_sender e (\<lambda>x. x \<lparr> control_list := control_list x @ [s], control_list_cnt := control_list_cnt x + 1 \<rparr>)
    (upd_snd s (\<lambda>v. v \<lparr> on_control_list := True \<rparr>) m)"
  have sets: "control_set env ?r e = insert s (control_set env m e)" "send_set env ?r e = send_set env m e"
    "ack_set env ?r e = ack_set env m e" "s \<notin> control_set env m e"
    using s e False by (auto simp: list_sets)
  then have "sender_ok env ?r e" using e(2) by (simp add: sender_ok_def listed_snoc)
  with lists_ok_upd_sender [OF ok e(1) _ this] show ?thesis using False e(1) by (simp add: AddtoControlList_def)
qed (use ok in \<open>simp add: AddtoControlList_def\<close>)

lemma AddtoSendList_ok:
  assumes ok: "lists_ok env m" and s: "live m s" and b: "sndbuf (snd_v m s) \<noteq> None"
  shows "lists_ok env (AddtoSendList env s m) \<and> fault (AddtoSendList env s m) = fault m"
proof -
  obtain e where e: "GetSender env m s = Some e" "sender_ok env m e" using live_sender [OF ok s] .
  show ?thesis
  proof (cases "on_send_list (snd_v m s)")
    case False
    let ?r = "upd_sender e (\<lambda>x. x \<lparr> send_list := send_list x @ [s], send_list_cnt := send_list_cnt x + 1 \<rparr>)
      (upd_snd s (\<lambda>v. v \<lparr> on_send_list := True \<rparr>) m)"
    have sets: "control_set env ?r e = control_set env m e" "send_set env ?r e = insert s (send_set env m e)"
      "ack_set env ?r e = ack_set env m e" "s \<notin> send_set env m e"
      using s e False by (auto simp: list_sets)
    then have "sender_ok env ?r e" using e(2) by (simp add: sender_ok_def listed_snoc)
    with lists_ok_upd_sender [OF ok e(1) _ this] show ?thesis using False e(1) b by (auto simp: AddtoSendList_def)
  qed (use ok e b in \<open>auto simp: AddtoSendList_def\<close>)
qed

lemma AddtoACKList_ok:
  assumes ok: "lists_ok env m" and s: "live m s"
  shows "lists_ok env (AddtoACKList env s m) \<and> fault (AddtoACKList env s m) = fault m"
proof -
  obtain e where e: "GetSender env m s = Some e" "sender_ok env m e" using live_sender [OF ok s] .
  show ?thesis
  proof (cases "on_ack_list (snd_v m s)")
    case False
    let ?r = "upd_sender e (\<lambda>x. x \<lparr> ack_list := ack_list x @ [s], ack_list_cnt := ack_list_cnt x + 1 \<rparr>)
      (upd_snd s (\<lambda>v. v \<lparr> on_ack_list := True \<rparr>) m)"
    have sets: "control_set env ?r e = control_set env m e" "send_set env ?r e = send_set env m e"
      "ack_set env ?r e = insert s (ack_set env m e)" "s \<notin> ack_set env m e"
      using s e False by (auto simp: list_sets)
    then have "sender_ok env ?r e" using e(2) by (simp add: sender_ok_def listed_snoc)
    with lists_ok_upd_sender [OF ok e(1) _ this] show ?thesis using False e(1) by (simp add: AddtoACKList_def)
  qed (use ok e in \<open>simp add: AddtoACKList_def\<close>)
qed

lemma tq_remove_mem: "s \<in> set xs \<Longrightarrow> tq_remove s xs store m = store (remove1 s xs) m"
  by (simp add: tq_remove_def tailq_remove_def)

lemma RemoveFromControlList_ok:
  assumes ok: "lists_ok env m" and s: "live m s"
  shows "lists_ok env (RemoveFromControlList env s m) \<and> fault (RemoveFromControlList env s m) = fault m"
proof -
  obtain e where e: "GetSender env m s = Some e" "sender_ok env m e" using live_sender [OF ok s] .
  show ?thesis
  proof (cases "on_control_list (snd_v m s)")
    case True
    let ?r = "upd_sender e (\<lambda>x. x \<lparr> control_list := remove1 s (control_list (senders m e)), control_list_cnt := control_list_cnt x - 1 \<rparr>)
      (upd_snd s (\<lambda>v. v \<lparr> on_control_list := False \<rparr>) m)"
    have mem: "s \<in> set (control_list (senders m e))" using sender_lists [OF ok s e(1)] True by simp
    have sets: "control_set env ?r e = control_set env m e - {s}" "send_set env ?r e = send_set env m e"
      "ack_set env ?r e = ack_set env m e"
      using s e True by (auto simp: list_sets)
    then have "sender_ok env ?r e" using e(2) mem by (simp add: sender_ok_def listed_remove1 length_remove1_mem)
    with lists_ok_upd_sender [OF ok e(1) _ this] show ?thesis
      using True e(1) mem by (simp add: RemoveFromControlList_def tq_remove_mem)
  qed (use ok e in \<open>simp add: RemoveFromControlList_def\<close>)
qed

lemma RemoveFromSendList_ok:
  assumes ok: "lists_ok env m" and s: "live m s"
  shows "lists_ok env (RemoveFromSendList env s m) \<and> fault (RemoveFromSendList env s m) = fault m"
proof -
  obtain e where e: "GetSender env m s = Some e" "sender_ok env m e" using live_sender [OF ok s] .
  show ?thesis
  proof (cases "on_send_list (snd_v m s)")
    case True
    let ?r = "upd_sender e (\<lambda>x. x \<lparr> send_list := remove1 s (send_list (senders m e)), send_list_cnt := send_list_cnt x - 1 \<rparr>)
      (upd_snd s (\<lambda>v. v \<lparr> on_send_list := False \<rparr>) m)"
    have mem: "s \<in> set (send_list (senders m e))" using sender_lists [OF ok s e(1)] True by simp
    have sets: "control_set env ?r e = control_set env m e" "send_set env ?r e = send_set env m e - {s}"
      "ack_set env ?r e = ack_set env m e"
      using s e True by (auto simp: list_sets)
    then have "sender_ok env ?r e" using e(2) mem by (simp add: sender_ok_def listed_remove1 length_remove1_mem)
    with lists_ok_upd_sender [OF ok e(1) _ this] show ?thesis
      using True e(1) mem by (simp add: RemoveFromSendList_def tq_remove_mem)
  qed (use ok e in \<open>simp add: RemoveFromSendList_def\<close>)
qed

lemma RemoveFromACKList_ok:
  assumes ok: "lists_ok env m" and s: "live m s"
  shows "lists_ok env (RemoveFromACKList env s m) \<and> fault (RemoveFromACKList env s m) = fault m"
proof -
  obtain e where e: "GetSender env m s = Some e" "sender_ok env m e" using live_sender [OF ok s] .
  show ?thesis
  proof (cases "on_ack_list (snd_v m s)")
    case True
    let ?r = "upd_sender e (\<lambda>x. x \<lparr> ack_list := remove1 s (ack_list (senders m e)), ack_list_cnt := ack_list_cnt x - 1 \<rparr>)
      (upd_snd s (\<lambda>v. v \<lparr> on_ack_list := False \<rparr>) m)"
    have mem: "s \<in> set (ack_list (senders m e))" using sender_lists [OF ok s e(1)] True by simp
    have sets: "control_set env ?r e = control_set env m e" "send_set env ?r e = send_set env m e"
      "ack_set env ?r e = ack_set env m e - {s}"
      using s e True by (auto simp: list_sets)
    then have "sender_ok env ?r e" using e(2) mem by (simp add: sender_ok_def listed_remove1 length_remove1_mem)
    with lists_ok_upd_sender [OF ok e(1) _ this] show ?thesis
      using True e(1) mem by (simp add: RemoveFromACKList_def tq_remove_mem)
  qed (use ok e in \<open>simp add: RemoveFromACKList_def\<close>)
qed

section \<open>The timer operations keep the invariant\<close>

text \<open>What a timer operation may change of a stream, and of the rest of the state.\<close>

definition sender_view :: "tcp_stream \<Rightarrow> bool \<times> bool \<times> bool \<times> bool \<times> int" where
  "sender_view t = (on_hash_table t, on_control_list (sndvar t), on_send_list (sndvar t), on_ack_list (sndvar t), nif_out (sndvar t))"

lemma lists_ok_timer:
  assumes ok: "lists_ok env m" and "senders m' = senders m"
    and "\<And>s. sender_view (streams m' s) = sender_view (streams m s)" and t: "timers_ok m'"
  shows "lists_ok env m'"
proof -
  have v: "on_hash_table (streams m' s) = on_hash_table (streams m s)" "on_control_list (snd_v m' s) = on_control_list (snd_v m s)"
    "on_send_list (snd_v m' s) = on_send_list (snd_v m s)" "on_ack_list (snd_v m' s) = on_ack_list (snd_v m s)"
    "nif_out (snd_v m' s) = nif_out (snd_v m s)" for s
    using assms(3) [of s] by (simp_all add: sender_view_def)
  have g: "GetSender env m' s = GetSender env m s" for s by (simp add: GetSender_def v)
  show ?thesis using ok t by (simp add: lists_ok_def sender_ok_def list_sets v g assms(2))
qed

lemma rto_bucket_le: "rto_bucket idx diff \<le> RTO_HASH"
proof (cases "diff < int RTO_HASH")
  case True
  have "unat ((of_int diff + idx) mod of_nat RTO_HASH) = unat (of_int diff + idx) mod 3000"
    by (simp add: RTO_HASH_def unat_mod_distrib)
  also have "\<dots> < 3000" by simp
  finally show ?thesis using True by (simp add: rto_bucket_def RTO_HASH_def)
qed (simp add: rto_bucket_def)

lemma sum_length_upd:
  assumes "i \<le> (n :: nat)"
  shows "(\<Sum>j\<le>n. int (length ((f(i := xs)) j))) = (\<Sum>j\<le>n. int (length (f j))) + int (length xs) - int (length (f i))"
proof -
  have "(\<Sum>j\<le>n. int (length ((f(i := xs)) j))) = int (length xs) + (\<Sum>j\<in>{..n} - {i}. int (length ((f(i := xs)) j)))"
    using assms by (subst sum.remove [of _ i]) auto
  also have "(\<Sum>j\<in>{..n} - {i}. int (length ((f(i := xs)) j))) = (\<Sum>j\<in>{..n} - {i}. int (length (f j)))"
    by (intro sum.cong) auto
  also have "\<dots> = (\<Sum>j\<le>n. int (length (f j))) - int (length (f i))"
    using assms by (subst sum.remove [of "{..n}" i]) auto
  finally show ?thesis by simp
qed

lemma timers_okD:
  assumes "timers_ok m"
  shows "listed (rto_list m i) (rto_set m i)" "listed (timewait_list m) (timewait_set m)" "listed (timeout_list m) (timeout_set m)"
    "live m s \<Longrightarrow> on_rto_idx (streams m s) \<le> int RTO_HASH"
    "live m s \<Longrightarrow> on_timewait_list (streams m s) \<Longrightarrow> on_rto_idx (streams m s) < 0"
    "rto_list_cnt m = (\<Sum>i\<le>RTO_HASH. int (length (rto_list m i)))"
    "timewait_list_cnt m = int (length (timewait_list m))" "timeout_list_cnt m = int (length (timeout_list m))"
  using assms by (simp_all add: timers_ok_def)

lemma timers_ok_rto:
  assumes ok: "timers_ok m" and s: "live m s" and i: "i \<le> RTO_HASH"
    and str: "streams r = (streams m)(s := (streams m s) \<lparr> on_rto_idx := k \<rparr>)"
    and l: "rto_list r = (rto_list m)(i := xs)" "timewait_list r = timewait_list m" "timeout_list r = timeout_list m"
      "timewait_list_cnt r = timewait_list_cnt m" "timeout_list_cnt r = timeout_list_cnt m"
    and cnt: "rto_list_cnt r = rto_list_cnt m + int (length xs) - int (length (rto_list m i))"
    and sets: "listed xs (rto_set r i)" "\<And>j. j \<noteq> i \<Longrightarrow> rto_set r j = rto_set m j"
    and k: "k \<le> int RTO_HASH" "on_timewait_list (streams m s) \<Longrightarrow> k < 0"
  shows "timers_ok r"
proof -
  have o: "timewait_set r = timewait_set m" "timeout_set r = timeout_set m" by (auto simp: list_sets str)
  have "listed (rto_list r j) (rto_set r j)" for j
    using timers_okD(1) [OF ok] sets by (cases "j = i") (simp_all add: l)
  moreover have "rto_list_cnt r = (\<Sum>i\<le>RTO_HASH. int (length (rto_list r i)))"
    unfolding l(1) cnt sum_length_upd [OF i] by (simp add: timers_okD(6) [OF ok])
  moreover have "live r u \<longrightarrow> on_rto_idx (streams r u) \<le> int RTO_HASH \<and>
      (on_timewait_list (streams r u) \<longrightarrow> on_rto_idx (streams r u) < 0)" for u
    using timers_okD(4,5) [OF ok] k by (auto simp: str)
  ultimately show ?thesis unfolding timers_ok_def o l(2-5) using timers_okD(2,3,7,8) [OF ok] by blast
qed

lemma rto_insert_ok:
  assumes ok: "lists_ok env m" and s: "live m s" "on_rto_idx (streams m s) < 0" "\<not> on_timewait_list (streams m s)" and i: "i \<le> RTO_HASH"
    and r: "r = (set_rto_list i (rto_list m i @ [s]) (upd_stream s (\<lambda>t. t \<lparr> on_rto_idx := int i \<rparr>) m)) \<lparr> rto_list_cnt := rto_list_cnt m + 1 \<rparr>"
  shows "lists_ok env r \<and> fault r = fault m"
proof -
  have str: "streams r = (streams m)(s := (streams m s) \<lparr> on_rto_idx := int i \<rparr>)" by (simp add: r set_rto_list_def)
  have tok: "timers_ok m" using ok by (simp add: lists_ok_def)
  have "listed (rto_list m i @ [s]) (insert s (rto_set m i))"
    using s by (intro listed_snoc timers_okD(1) [OF tok]) (simp add: rto_set_def)
  moreover have "rto_set r i = insert s (rto_set m i)" using s by (auto simp: rto_set_def str)
  moreover have "rto_set r j = rto_set m j" if "j \<noteq> i" for j using that s by (auto simp: rto_set_def str)
  ultimately have "timers_ok r"
    using s i by (intro timers_ok_rto [OF tok _ i str]) (simp_all add: r set_rto_list_def upd_stream_def)
  moreover have "senders r = senders m" "fault r = fault m" "\<And>u. sender_view (streams r u) = sender_view (streams m u)"
    by (simp_all add: r set_rto_list_def upd_stream_def sender_view_def)
  ultimately show ?thesis using lists_ok_timer [OF ok] by blast
qed

lemma AddtoRTOList_ok:
  assumes ok: "lists_ok env m" and s: "live m s"
  shows "lists_ok env (AddtoRTOList s m) \<and> fault (AddtoRTOList s m) = fault m"
proof -
  define m1 where "m1 = (if rto_list_cnt m = 0 then m \<lparr> rto_now_idx := 0, rto_now_ts := ts_rto (snd_v m s) \<rparr> else m)"
  have same: "same_lists m m1" by (simp add: m1_def same_lists_def timer_view_def)
  have f1: "fault m1 = fault m" "streams m1 = streams m" by (simp_all add: m1_def)
  have ok1: "lists_ok env m1" using ok lists_ok_cong [OF same] by simp
  show ?thesis
  proof (cases "on_rto_idx (streams m s) < 0 \<and> \<not> on_timewait_list (streams m s)")
    case False
    then have "AddtoRTOList s m = m1" by (auto simp: AddtoRTOList_def m1_def Let_def)
    with ok1 f1 show ?thesis by simp
  next
    case True
    define i where "i = rto_bucket (rto_now_idx m1) (sint (ts_rto (snd_v m1 s) - rto_now_ts m1))"
    have "AddtoRTOList s m = (set_rto_list i (rto_list m1 i @ [s]) (upd_stream s (\<lambda>t. t \<lparr> on_rto_idx := int i \<rparr>) m1)) \<lparr> rto_list_cnt := rto_list_cnt m1 + 1 \<rparr>"
      using True f1(2) unfolding AddtoRTOList_def m1_def [symmetric] by (simp add: i_def Let_def)
    from rto_insert_ok [OF ok1 _ _ _ _ this] show ?thesis using True f1 s by (simp add: i_def rto_bucket_le)
  qed
qed

lemma RemoveFromRTOList_ok:
  assumes ok: "lists_ok env m" and s: "live m s"
  shows "lists_ok env (RemoveFromRTOList s m) \<and> fault (RemoveFromRTOList s m) = fault m"
proof (cases "on_rto_idx (streams m s) < 0")
  case False
  have tok: "timers_ok m" using ok by (simp add: lists_ok_def)
  define i where "i = nat (on_rto_idx (streams m s))"
  have i: "on_rto_idx (streams m s) = int i" "i \<le> RTO_HASH"
    using False timers_okD(4) [OF tok s] by (simp_all add: i_def)
  have mem: "s \<in> set (rto_list m i)" using timers_okD(1) [OF tok, of i] s i by (auto simp: listed_def rto_set_def)
  define r where "r = (set_rto_list i (remove1 s (rto_list m i)) (upd_stream s (\<lambda>t. t \<lparr> on_rto_idx := - 1 \<rparr>) m)) \<lparr> rto_list_cnt := rto_list_cnt m - 1 \<rparr>"
  have r: "RemoveFromRTOList s m = r" using False i mem by (simp add: RemoveFromRTOList_def tq_remove_mem r_def Let_def)
  have str: "streams r = (streams m)(s := (streams m s) \<lparr> on_rto_idx := - 1 \<rparr>)" by (simp add: r_def set_rto_list_def)
  have "rto_set r i = rto_set m i - {s}" by (auto simp: rto_set_def str)
  then have "listed (remove1 s (rto_list m i)) (rto_set r i)" using timers_okD(1) [OF tok, of i] by (simp add: listed_remove1)
  moreover have "rto_set r j = rto_set m j" if "j \<noteq> i" for j using that i by (auto simp: rto_set_def str)
  moreover have "rto_list_cnt r = rto_list_cnt m + int (length (remove1 s (rto_list m i))) - int (length (rto_list m i))"
    using length_remove1_mem [OF mem] by (simp add: r_def)
  ultimately have "timers_ok r"
    by (intro timers_ok_rto [OF tok s i(2) str]) (simp_all add: r_def set_rto_list_def upd_stream_def)
  moreover have "senders r = senders m" "fault r = fault m" "\<And>u. sender_view (streams r u) = sender_view (streams m u)"
    by (simp_all add: r_def set_rto_list_def upd_stream_def sender_view_def)
  ultimately show ?thesis unfolding r using lists_ok_timer [OF ok] by blast
qed (use ok in \<open>simp add: RemoveFromRTOList_def\<close>)

text \<open>An operation that only changes the timewait or the timeout list and its flag.\<close>

lemma timers_ok_tw:
  assumes ok: "timers_ok m" and s: "live m s"
    and str: "\<And>u. live r u = live m u" "\<And>u. on_rto_idx (streams r u) = on_rto_idx (streams m u)"
      "\<And>u. u \<noteq> s \<Longrightarrow> on_timewait_list (streams r u) = on_timewait_list (streams m u)"
      "\<And>u. u \<noteq> s \<Longrightarrow> on_timeout_list (streams r u) = on_timeout_list (streams m u)"
    and "rto_list r = rto_list m" "rto_list_cnt r = rto_list_cnt m"
    and "timewait_list_cnt r = int (length (timewait_list r))" "timeout_list_cnt r = int (length (timeout_list r))"
    and "listed (timewait_list r) (timewait_set r)" "listed (timeout_list r) (timeout_set r)"
    and x: "on_timewait_list (streams r s) \<Longrightarrow> on_rto_idx (streams m s) < 0"
  shows "timers_ok r"
proof -
  have "rto_set r i = rto_set m i" for i by (simp add: rto_set_def str)
  moreover have "live r u \<longrightarrow> on_rto_idx (streams r u) \<le> int RTO_HASH \<and>
      (on_timewait_list (streams r u) \<longrightarrow> on_rto_idx (streams r u) < 0)" for u
    using timers_okD(4,5) [OF ok] x str by (cases "u = s") auto
  ultimately show ?thesis using assms(7-12) timers_okD(1,6) [OF ok] by (simp add: timers_ok_def)
qed

lemma AddtoTimeoutList_ok:
  assumes ok: "lists_ok env m" and s: "live m s" and n: "\<not> on_timeout_list (streams m s)"
  shows "lists_ok env (AddtoTimeoutList s m) \<and> fault (AddtoTimeoutList s m) = fault m"
proof -
  have tok: "timers_ok m" using ok by (simp add: lists_ok_def)
  define r where "r = AddtoTimeoutList s m"
  have r: "streams r = (streams m)(s := (streams m s) \<lparr> on_timeout_list := True \<rparr>)" "timeout_list r = timeout_list m @ [s]"
    "timeout_list_cnt r = timeout_list_cnt m + 1" "timewait_list r = timewait_list m" "timewait_list_cnt r = timewait_list_cnt m"
    "rto_list r = rto_list m" "rto_list_cnt r = rto_list_cnt m" "senders r = senders m" "fault r = fault m"
    using n by (simp_all add: r_def AddtoTimeoutList_def upd_stream_def)
  have "timewait_set r = timewait_set m" "timeout_set r = insert s (timeout_set m)" "s \<notin> timeout_set m"
    using s n by (auto simp: list_sets r)
  then have "timers_ok r"
    using timers_okD [OF tok] s by (intro timers_ok_tw [OF tok s]) (simp_all add: r listed_snoc)
  with lists_ok_timer [OF ok r(8) _ this] show ?thesis by (simp add: r sender_view_def r_def [symmetric])
qed

lemma RemoveFromTimeoutList_ok:
  assumes ok: "lists_ok env m" and s: "live m s"
  shows "lists_ok env (RemoveFromTimeoutList s m) \<and> fault (RemoveFromTimeoutList s m) = fault m"
proof (cases "on_timeout_list (streams m s)")
  case True
  have tok: "timers_ok m" using ok by (simp add: lists_ok_def)
  have mem: "s \<in> set (timeout_list m)" using timers_okD(3) [OF tok] True s by (simp add: listed_def timeout_set_def)
  define r where "r = RemoveFromTimeoutList s m"
  have r: "streams r = (streams m)(s := (streams m s) \<lparr> on_timeout_list := False \<rparr>)" "timeout_list r = remove1 s (timeout_list m)"
    "timeout_list_cnt r = timeout_list_cnt m - 1" "timewait_list r = timewait_list m" "timewait_list_cnt r = timewait_list_cnt m"
    "rto_list r = rto_list m" "rto_list_cnt r = rto_list_cnt m" "senders r = senders m" "fault r = fault m"
    using True mem by (simp_all add: r_def RemoveFromTimeoutList_def tq_remove_mem upd_stream_def)
  have "timewait_set r = timewait_set m" "timeout_set r = timeout_set m - {s}"
    using s by (auto simp: list_sets r)
  then have "timers_ok r"
    using timers_okD [OF tok] s mem by (intro timers_ok_tw [OF tok s]) (simp_all add: r listed_remove1 length_remove1_mem)
  with lists_ok_timer [OF ok r(8) _ this] show ?thesis by (simp add: r sender_view_def r_def [symmetric])
qed (use ok in \<open>simp add: RemoveFromTimeoutList_def\<close>)

lemma UpdateTimeoutList_ok:
  assumes ok: "lists_ok env m" and s: "live m s"
  shows "lists_ok env (UpdateTimeoutList s m) \<and> fault (UpdateTimeoutList s m) = fault m"
proof (cases "on_timeout_list (streams m s)")
  case True
  have tok: "timers_ok m" using ok by (simp add: lists_ok_def)
  have mem: "s \<in> set (timeout_list m)" using timers_okD(3) [OF tok] True s by (simp add: listed_def timeout_set_def)
  define r where "r = UpdateTimeoutList s m"
  have r: "streams r = streams m" "timeout_list r = remove1 s (timeout_list m) @ [s]"
    "timeout_list_cnt r = timeout_list_cnt m" "timewait_list r = timewait_list m" "timewait_list_cnt r = timewait_list_cnt m"
    "rto_list r = rto_list m" "rto_list_cnt r = rto_list_cnt m" "senders r = senders m" "fault r = fault m"
    using True mem by (simp_all add: r_def UpdateTimeoutList_def tq_remove_mem)
  have "timewait_set r = timewait_set m" "timeout_set r = timeout_set m" "s \<in> timeout_set m"
    using s True by (auto simp: list_sets r)
  then have "timers_ok r"
    using timers_okD [OF tok] s mem
    by (intro timers_ok_tw [OF tok s]) (simp_all add: r listed_move length_remove1_mem)
  with lists_ok_timer [OF ok r(8) _ this] show ?thesis by (simp add: r sender_view_def r_def [symmetric])
qed (use ok in \<open>simp add: UpdateTimeoutList_def\<close>)

lemma RemoveFromTimewaitList_ok:
  assumes ok: "lists_ok env m" and s: "live m s" and on: "on_timewait_list (streams m s)"
  shows "lists_ok env (RemoveFromTimewaitList s m) \<and> fault (RemoveFromTimewaitList s m) = fault m"
proof -
  have tok: "timers_ok m" using ok by (simp add: lists_ok_def)
  have mem: "s \<in> set (timewait_list m)" using timers_okD(2) [OF tok] on s by (simp add: listed_def timewait_set_def)
  define r where "r = RemoveFromTimewaitList s m"
  have r: "streams r = (streams m)(s := (streams m s) \<lparr> on_timewait_list := False \<rparr>)" "timewait_list r = remove1 s (timewait_list m)"
    "timewait_list_cnt r = timewait_list_cnt m - 1" "timeout_list r = timeout_list m" "timeout_list_cnt r = timeout_list_cnt m"
    "rto_list r = rto_list m" "rto_list_cnt r = rto_list_cnt m" "senders r = senders m" "fault r = fault m"
    using on mem by (simp_all add: r_def RemoveFromTimewaitList_def tq_remove_mem upd_stream_def)
  have "timeout_set r = timeout_set m" "timewait_set r = timewait_set m - {s}"
    using s by (auto simp: list_sets r)
  then have "timers_ok r"
    using timers_okD [OF tok] s mem by (intro timers_ok_tw [OF tok s]) (simp_all add: r listed_remove1 length_remove1_mem)
  with lists_ok_timer [OF ok r(8) _ this] show ?thesis by (simp add: r sender_view_def r_def [symmetric])
qed

lemma live_RTO [simp]: "live (RemoveFromRTOList s m) u = live m u" "live (AddtoRTOList s m) u = live m u"
  by (simp_all add: RemoveFromRTOList_def AddtoRTOList_def tq_remove_def set_rto_list_def Let_def split: sum.splits)

lemma on_timewait_RTO [simp]: "on_timewait_list (streams (RemoveFromRTOList s m) u) = on_timewait_list (streams m u)"
  by (simp add: RemoveFromRTOList_def tq_remove_def set_rto_list_def Let_def split: sum.splits)

lemma RemoveFromRTOList_idx:
  assumes "lists_ok env m" "live m s"
  shows "on_rto_idx (streams (RemoveFromRTOList s m) s) < 0"
proof (cases "on_rto_idx (streams m s) < 0")
  case False
  have tok: "timers_ok m" using assms by (simp add: lists_ok_def)
  have "s \<in> set (rto_list m (nat (on_rto_idx (streams m s))))"
    using timers_okD(1) [OF tok, of "nat (on_rto_idx (streams m s))"] assms(2) False by (auto simp: listed_def rto_set_def)
  moreover have "\<not> RTO_HASH < nat (on_rto_idx (streams m s))" using timers_okD(4) [OF tok assms(2)] by simp
  ultimately show ?thesis using False by (simp add: RemoveFromRTOList_def tq_remove_mem set_rto_list_def Let_def)
qed (simp add: RemoveFromRTOList_def)

lemma AddtoTimewaitList_ok:
  assumes ok: "lists_ok env m" and s: "live m s"
  shows "lists_ok env (AddtoTimewaitList env now s m) \<and> fault (AddtoTimewaitList env now s m) = fault m"
proof -
  define m1 where "m1 = upd_rcv s (\<lambda>v. v \<lparr> ts_tw_expire := now + tcp_timewait env \<rparr>) m"
  have "same_lists m m1" by (simp add: m1_def upd_rcv_def same_lists_upd_stream stream_view_def)
  then have ok1: "lists_ok env m1" using ok lists_ok_cong by simp
  have m1: "fault m1 = fault m" "live m1 s" using s by (simp_all add: m1_def upd_rcv_def)
  show ?thesis
  proof (cases "on_timewait_list (streams m1 s)")
    case True
    have tok: "timers_ok m1" using ok1 by (simp add: lists_ok_def)
    have mem: "s \<in> set (timewait_list m1)" using timers_okD(2) [OF tok] True m1 by (simp add: listed_def timewait_set_def)
    define r where "r = AddtoTimewaitList env now s m"
    have r: "streams r = streams m1" "timewait_list r = remove1 s (timewait_list m1) @ [s]"
      "timewait_list_cnt r = timewait_list_cnt m1" "timeout_list r = timeout_list m1" "timeout_list_cnt r = timeout_list_cnt m1"
      "rto_list r = rto_list m1" "rto_list_cnt r = rto_list_cnt m1" "senders r = senders m1" "fault r = fault m1"
      using True mem unfolding r_def AddtoTimewaitList_def m1_def [symmetric] by (simp_all add: tq_remove_mem Let_def)
    have "timeout_set r = timeout_set m1" "timewait_set r = timewait_set m1" "s \<in> timewait_set m1"
      using m1 True by (auto simp: list_sets r)
    then have "timers_ok r"
      using timers_okD [OF tok] m1 mem True
      by (intro timers_ok_tw [OF tok m1(2)]) (simp_all add: r listed_move length_remove1_mem)
    with lists_ok_timer [OF ok1 r(8) _ this] show ?thesis by (simp add: r m1 sender_view_def r_def [symmetric])
  next
    case False
    define m2 where "m2 = (if on_rto_idx (streams m1 s) \<ge> 0 then RemoveFromRTOList s m1 else m1)"
    have ok2: "lists_ok env m2" "fault m2 = fault m" "live m2 s" "\<not> on_timewait_list (streams m2 s)" "on_rto_idx (streams m2 s) < 0"
      using RemoveFromRTOList_ok [OF ok1 m1(2)] RemoveFromRTOList_idx [OF ok1 m1(2)] ok1 m1 False by (simp_all add: m2_def)
    have tok: "timers_ok m2" using ok2 by (simp add: lists_ok_def)
    define r where "r = AddtoTimewaitList env now s m"
    have r: "streams r = (streams m2)(s := (streams m2 s) \<lparr> on_timewait_list := True \<rparr>)" "timewait_list r = timewait_list m2 @ [s]"
      "timewait_list_cnt r = timewait_list_cnt m2 + 1" "timeout_list r = timeout_list m2" "timeout_list_cnt r = timeout_list_cnt m2"
      "rto_list r = rto_list m2" "rto_list_cnt r = rto_list_cnt m2" "senders r = senders m2" "fault r = fault m2"
      using False unfolding r_def AddtoTimewaitList_def m1_def [symmetric] by (simp_all add: m2_def [symmetric] upd_stream_def Let_def)
    have "timeout_set r = timeout_set m2" "timewait_set r = insert s (timewait_set m2)" "s \<notin> timewait_set m2"
      using ok2 by (auto simp: list_sets r)
    then have "timers_ok r"
      using timers_okD [OF tok] ok2 by (intro timers_ok_tw [OF tok ok2(3)]) (simp_all add: r listed_snoc)
    with lists_ok_timer [OF ok2(1) r(8) _ this] show ?thesis by (simp add: r ok2 sender_view_def r_def [symmetric])
  qed
qed

lemma UpdateRetransmissionTimer_ok:
  assumes ok: "lists_ok env m" and s: "live m s" and r: "rto (snd_v m s) \<noteq> 0"
  shows "lists_ok env (UpdateRetransmissionTimer now s m) \<and> fault (UpdateRetransmissionTimer now s m) = fault m"
proof -
  define m1 where "m1 = upd_snd s (\<lambda>v. v \<lparr> nrtx := 0 \<rparr>) m"
  have "same_lists m m1" by (simp add: m1_def upd_snd_def same_lists_upd_stream stream_view_def)
  then have m1: "lists_ok env m1" "live m1 s" "fault m1 = fault m" using ok s lists_ok_cong by (simp_all add: m1_def)
  define m2 where "m2 = (if on_rto_idx (streams m1 s) \<ge> 0 then RemoveFromRTOList s m1 else m1)"
  have m2: "lists_ok env m2" "live m2 s" "fault m2 = fault m"
    using RemoveFromRTOList_ok [OF m1(1,2)] m1 by (simp_all add: m2_def)
  define m3 where "m3 = upd_snd s (\<lambda>v. v \<lparr> ts_rto := now + rto v \<rparr>) m2"
  have "same_lists m2 m3" by (simp add: m3_def upd_snd_def same_lists_upd_stream stream_view_def)
  then have m3: "lists_ok env m3" "live m3 s" "fault m3 = fault m" using m2 lists_ok_cong by (simp_all add: m3_def)
  show ?thesis
    using AddtoRTOList_ok [OF m3(1,2)] m2 m3 r
    unfolding UpdateRetransmissionTimer_def m1_def [symmetric] by (simp add: m2_def [symmetric] m3_def [symmetric] Let_def)
qed

lemma EnqueueACK_ok:
  assumes ok: "lists_ok env m" and s: "live m s"
  shows "lists_ok env (EnqueueACK env opt s m) \<and> fault (EnqueueACK env opt s m) = fault m"
proof -
  define m1 where "m1 = (case opt of
      ACK_OPT_NOW \<Rightarrow> upd_snd s (\<lambda>v. v \<lparr> ack_cnt := (ack_cnt v + 1) mod 64 \<rparr>) m
    | ACK_OPT_AGGREGATE \<Rightarrow> if ack_cnt (snd_v m s) = 0 then upd_snd s (\<lambda>v. v \<lparr> ack_cnt := 1 \<rparr>) m else m
    | ACK_OPT_WACK \<Rightarrow> upd_snd s (\<lambda>v. v \<lparr> is_wack := True \<rparr>) m)"
  have "same_lists m m1" by (cases opt) (simp_all add: m1_def upd_snd_def same_lists_upd_stream stream_view_def)
  then have m1: "lists_ok env m1" "live m1 s" "fault m1 = fault m" using ok s lists_ok_cong
    by (simp_all add: m1_def split: ack_opt.splits)
  with AddtoACKList_ok [OF m1(1,2)] show ?thesis by (simp add: EnqueueACK_def m1_def [symmetric])
qed

end
