(* ===== verification/StreamLife.thy ===== *)
theory StreamLife
  imports StreamLists
begin

text \<open>
  The life of a stream (\<^verbatim>\<open>tcp_stream.c\<close>): \<^verbatim>\<open>CreateTCPStream\<close> takes a chunk from each of the three pools,
  enters the stream into the flow table and routes it; \<^verbatim>\<open>DestroyTCPStream\<close> unlinks it from every list,
  gives back its buffers, its chunks and its address. The invariant \<open>stack_inv\<close> joins the list invariant
  with the ownership of the chunks: the streams of the flow table are the live ones and no live stream is
  a free chunk. Both operations keep it, and a destroyed stream is on no list.
\<close>

section \<open>Constants\<close>

definition TCP_DEFAULT_WSCALE :: u8 where "TCP_DEFAULT_WSCALE = 7"
definition TCP_INITIAL_WINDOW :: u32 where "TCP_INITIAL_WINDOW = 14600"
definition TCP_INITIAL_RTO :: u32 where "TCP_INITIAL_RTO = 500"
definition TCP_MAX_SEQ :: nat where "TCP_MAX_SEQ = 4294967295"

section \<open>Creating a stream\<close>

definition free_flow :: "sid \<Rightarrow> mtcp_manager \<Rightarrow> mtcp_manager" where
  "free_flow s m = (case MPFreeChunk (flow_pool m) s of Inl e \<Rightarrow> raise e m | Inr p \<Rightarrow> m \<lparr> flow_pool := p \<rparr>)"

definition free_rv :: "addr \<Rightarrow> mtcp_manager \<Rightarrow> mtcp_manager" where
  "free_rv a m = (case MPFreeChunk (rv_pool m) a of Inl e \<Rightarrow> raise e m | Inr p \<Rightarrow> m \<lparr> rv_pool := p \<rparr>)"

definition free_sv :: "addr \<Rightarrow> mtcp_manager \<Rightarrow> mtcp_manager" where
  "free_sv a m = (case MPFreeChunk (sv_pool m) a of Inl e \<Rightarrow> raise e m | Inr p \<Rightarrow> m \<lparr> sv_pool := p \<rparr>)"

text \<open>The three chunks; a chunk that was taken goes back when a later one is missing.\<close>

definition alloc_stream :: "mtcp_manager \<Rightarrow> sid option \<times> mtcp_manager" where
  "alloc_stream m =
    (case MPAllocateChunk (flow_pool m) of
       Inl e \<Rightarrow> (None, raise e m)
     | Inr (None, p) \<Rightarrow> (None, m \<lparr> flow_pool := p \<rparr>)
     | Inr (Some s, p) \<Rightarrow>
       let m1 = upd_stream s (\<lambda>_. zero_stream) (m \<lparr> flow_pool := p \<rparr>) in
       (case MPAllocateChunk (rv_pool m1) of
          Inl e \<Rightarrow> (None, raise e m1)
        | Inr (None, p) \<Rightarrow> (None, free_flow s (m1 \<lparr> rv_pool := p \<rparr>))
        | Inr (Some r, p) \<Rightarrow>
          let m2 = upd_stream s (\<lambda>t. t \<lparr> rcvvar_p := r \<rparr>) (m1 \<lparr> rv_pool := p \<rparr>) in
          (case MPAllocateChunk (sv_pool m2) of
             Inl e \<Rightarrow> (None, raise e m2)
           | Inr (None, p) \<Rightarrow> (None, free_flow s (free_rv r (m2 \<lparr> sv_pool := p \<rparr>)))
           | Inr (Some v, p) \<Rightarrow>
             (Some s, upd_stream s (\<lambda>t. t \<lparr> sndvar_p := v, rcvvar := zero_rcvvar, sndvar := zero_sndvar \<rparr>)
                (m2 \<lparr> sv_pool := p \<rparr>)))))"

text \<open>The fields set once the stream is in the flow table.\<close>

definition init_stream :: "stack_env \<Rightarrow> nat \<Rightarrow> int \<times> bool \<Rightarrow> tcp_stream \<Rightarrow> tcp_stream" where
  "init_stream env ty route t =
    (let isn = of_nat (rand_iss env mod TCP_MAX_SEQ) in
     t \<lparr> stream_type := ty, state := TCP_ST_LISTEN, on_rto_idx := - 1, is_external := snd route,
         snd_nxt := isn, rcv_nxt := 0,
         sndvar := (sndvar t) \<lparr> ip_id := 0, mss := of_nat TCP_DEFAULT_MSS, wscale_mine := TCP_DEFAULT_WSCALE,
           wscale_peer := 0, nif_out := fst route, iss := isn, snd_una := isn, snd_wnd := sndbuf_size env,
           rto := TCP_INITIAL_RTO \<rparr>,
         rcvvar := (rcvvar t) \<lparr> irs := 0, rcv_wnd := TCP_INITIAL_WINDOW, snd_wl1 := - 1 \<rparr> \<rparr>)"

text \<open>The locks of the stream have no counterpart, so the two early returns after \<^verbatim>\<open>pthread_spin_init\<close> have
  none. \<^verbatim>\<open>GetOutputInterface\<close> asserts that there is a route; without one the process ends, and the state is
  the one before the stream enters the table.\<close>

definition CreateTCPStream :: "stack_env \<Rightarrow> nat option \<Rightarrow> nat \<Rightarrow> u32 \<Rightarrow> u16 \<Rightarrow> u32 \<Rightarrow> u16 \<Rightarrow>
    mtcp_manager \<Rightarrow> sid option \<times> mtcp_manager" where
  "CreateTCPStream env socket ty sa sp da dp m =
    (case alloc_stream m of
       (None, m1) \<Rightarrow> (None, m1)
     | (Some s, m1) \<Rightarrow>
       let m2 = upd_stream s (\<lambda>t. t \<lparr> stream_id := g_id m1, saddr := sa, sport := sp, daddr := da, dport := dp \<rparr>)
                  (m1 \<lparr> g_id := g_id m1 + 1 \<rparr>);
           (ret, m3) = StreamHTInsert s m2 in
       if ret < 0 then (None, free_flow s m3)
       else
         let m4 = (upd_stream s (\<lambda>t. t \<lparr> on_hash_table := True \<rparr>) m3) \<lparr> flow_cnt := flow_cnt m3 + 1 \<rparr>;
             m5 = (case socket of None \<Rightarrow> m4
                   | Some k \<Rightarrow> (upd_stream s (\<lambda>t. t \<lparr> sock := Some k \<rparr>) m4)
                       \<lparr> smap := (smap m4)(k := (smap m4 k) \<lparr> sock_obj := SockStream s \<rparr>) \<rparr>) in
         (case GetOutputInterface env da of
            Inl e \<Rightarrow> (None, raise e m1)
          | Inr route \<Rightarrow> (Some s, upd_stream s (init_stream env ty route) m5)))"

section \<open>Destroying a stream\<close>

definition free_address :: "addr_pool option \<Rightarrow> sockaddr_in \<Rightarrow> (addr_pool \<Rightarrow> mtcp_manager \<Rightarrow> mtcp_manager) \<Rightarrow>
    mtcp_manager \<Rightarrow> mtcp_manager" where
  "free_address ap a store m =
    (case ap of None \<Rightarrow> m
     | Some p \<Rightarrow> (case FreeAddress p a of Inl e \<Rightarrow> raise e m | Inr (_, p') \<Rightarrow> store p' m))"

definition release_address :: "stack_env \<Rightarrow> sockaddr_in \<Rightarrow> mtcp_manager \<Rightarrow> mtcp_manager" where
  "release_address env a m =
    (if ap_core m \<noteq> None then free_address (ap_core m) a (\<lambda>p m. m \<lparr> ap_core := Some p \<rparr>) m
     else case GetOutputInterface env (sin_addr a) of Inl e \<Rightarrow> raise e m
     | Inr (nif, _) \<Rightarrow>
       let eidx = nif_to_eidx env nif in
       free_address (ap_dev m eidx) a (\<lambda>p m. m \<lparr> ap_dev := (ap_dev m)(eidx := Some p) \<rparr>) m)"

definition leave_lists :: "stack_env \<Rightarrow> sid \<Rightarrow> mtcp_manager \<Rightarrow> mtcp_manager" where
  "leave_lists env s m =
    (let m1 = RemoveFromACKList env s (RemoveFromSendList env s (RemoveFromControlList env s m));
         m2 = (if on_rto_idx (streams m1 s) \<ge> 0 then RemoveFromRTOList s m1 else m1);
         m3 = (if on_timewait_list (streams m2 s) then RemoveFromTimewaitList s m2 else m2) in
     if tcp_timeout env > 0 then RemoveFromTimeoutList s m3 else m3)"

definition free_buffers :: "sid \<Rightarrow> mtcp_manager \<Rightarrow> mtcp_manager" where
  "free_buffers s m =
    (let m1 = (if sndbuf (snd_v m s) = None then m
               else case SBFree (rbm_snd m) (sndbuf (snd_v m s)) of Inl e \<Rightarrow> raise e m
                 | Inr sbm \<Rightarrow> upd_snd s (\<lambda>v. v \<lparr> sndbuf := None \<rparr>) (m \<lparr> rbm_snd := sbm \<rparr>)) in
     case rcvbuf (rcv_v m1 s) of None \<Rightarrow> m1
     | Some b \<Rightarrow>
       (case RBFree (rbm_rcv m1) b of Inl e \<Rightarrow> raise e m1
        | Inr rbm \<Rightarrow> upd_rcv s (\<lambda>v. v \<lparr> rcvbuf := None \<rparr>) (m1 \<lparr> rbm_rcv := rbm \<rparr>)))"

definition DestroyTCPStream :: "stack_env \<Rightarrow> sid \<Rightarrow> mtcp_manager \<Rightarrow> mtcp_manager" where
  "DestroyTCPStream env s m =
    (let t = streams m s;
         a = \<lparr> sin_addr = saddr t, sin_port = sport t \<rparr>;
         m1 = leave_lists env s m;
         m2 = (if on_hash_table (streams m1 s) then m1 else raise AssertFail m1);
         m3 = free_buffers s m2;
         m4 = upd_stream s (\<lambda>t. t \<lparr> on_hash_table := False \<rparr>) (StreamHTRemove s m3);
         m5 = m4 \<lparr> flow_cnt := flow_cnt m4 - 1 \<rparr>;
         m6 = free_flow s (free_sv (sndvar_p t) (free_rv (rcvvar_p t) m5)) in
     if is_bound_addr t then release_address env a m6 else m6)"

section \<open>The invariant of the stack\<close>

definition table_ok :: "mtcp_manager \<Rightarrow> bool" where
  "table_ok m \<longleftrightarrow> (\<forall>i. listed (flow_table m i) {s. live m s \<and> HashFlow (streams m s) = i})"

definition chunks_ok :: "mtcp_manager \<Rightarrow> bool" where
  "chunks_ok m \<longleftrightarrow> (\<exists>xs. pool_rel (flow_pool m) xs \<and> (\<forall>s. live m s \<longrightarrow> s \<in> pool_chunks (flow_pool m) \<and> s \<notin> set xs))"

text \<open>The timeout list is in use only when a timeout is configured.\<close>

definition timeout_ok :: "stack_env \<Rightarrow> mtcp_manager \<Rightarrow> bool" where
  "timeout_ok env m \<longleftrightarrow> 0 < tcp_timeout env \<or> (\<forall>s. live m s \<longrightarrow> \<not> on_timeout_list (streams m s))"

definition routed :: "mtcp_manager \<Rightarrow> bool" where
  "routed m \<longleftrightarrow> (\<forall>s. live m s \<longrightarrow> 0 \<le> nif_out (snd_v m s))"

definition stack_inv :: "stack_env \<Rightarrow> mtcp_manager \<Rightarrow> bool" where
  "stack_inv env m \<longleftrightarrow> lists_ok env m \<and> timeout_ok env m \<and> routed m \<and> table_ok m \<and> chunks_ok m"

text \<open>The invariant together with the set of live streams, as one judgement: the rules for the operations
  compose by backward chaining.\<close>

definition okp :: "stack_env \<Rightarrow> (sid \<Rightarrow> bool) \<Rightarrow> mtcp_manager \<Rightarrow> bool" where
  "okp env L m \<longleftrightarrow> stack_inv env m \<and> live m = L"

lemma okpI: "stack_inv env m \<Longrightarrow> okp env (live m) m"
  by (simp add: okp_def)

lemma okp_inv: "okp env L m \<Longrightarrow> stack_inv env m"
  by (simp add: okp_def)

lemma okp_live: "okp env L m \<Longrightarrow> live m s = L s"
  by (auto simp: okp_def)

lemma okp_lists: "okp env L m \<Longrightarrow> lists_ok env m"
  by (simp add: okp_def stack_inv_def)

text \<open>The part of the state the flow table and the chunk pool depend on.\<close>

definition same_flows :: "mtcp_manager \<Rightarrow> mtcp_manager \<Rightarrow> bool" where
  "same_flows m m' \<longleftrightarrow> flow_table m' = flow_table m \<and> flow_pool m' = flow_pool m \<and>
     (\<forall>s. live m' s = live m s \<and> HashFlow (streams m' s) = HashFlow (streams m s) \<and> nif_out (snd_v m' s) = nif_out (snd_v m s) \<and>
        (on_timeout_list (streams m' s) \<longrightarrow> on_timeout_list (streams m s)))"

lemma same_flowsD:
  "same_flows m m' \<Longrightarrow> table_ok m' = table_ok m \<and> chunks_ok m' = chunks_ok m \<and> live m' = live m \<and>
    routed m' = routed m \<and> (timeout_ok env m \<longrightarrow> timeout_ok env m')"
  by (auto simp: same_flows_def table_ok_def chunks_ok_def timeout_ok_def routed_def)

lemma same_flows_refl [simp]: "same_flows m m"
  by (simp add: same_flows_def)

lemma same_flows_trans: "same_flows m m' \<Longrightarrow> same_flows m' m'' \<Longrightarrow> same_flows m m''"
  by (auto simp: same_flows_def)

lemma okp_step: "okp env L m \<Longrightarrow> lists_ok env m' \<Longrightarrow> same_flows m m' \<Longrightarrow> okp env L m'"
  using same_flowsD [of m m' env] by (simp add: okp_def stack_inv_def)

lemma okp_cong: "same_lists m m' \<Longrightarrow> same_flows m m' \<Longrightarrow> okp env L m \<Longrightarrow> okp env L m'"
  using okp_step okp_lists lists_ok_cong by blast

lemma HashFlow_cong:
  "flow_key t = flow_key t' \<Longrightarrow> HashFlow t = HashFlow t'"
  by (simp add: HashFlow_def flow_key_def)

named_theorems okp_rules \<open>the operations keep the invariant\<close>

lemma same_raise [simp]: "same_lists m (raise e m)" "same_flows m (raise e m)"
  by (simp_all add: raise_def same_lists_def same_flows_def timer_view_def split: option.splits)

lemma okp_raise [okp_rules]: "okp env L m \<Longrightarrow> okp env L (raise e m)"
  using okp_cong [OF same_raise] .

lemma okp_upd_stream [okp_rules]:
  assumes "okp env L m" "\<And>t. stream_view (f t) = stream_view t" "\<And>t. flow_key (f t) = flow_key t"
  shows "okp env L (upd_stream s f m)"
proof (rule okp_cong [OF _ _ assms(1)])
  show "same_lists m (upd_stream s f m)" by (rule same_lists_upd_stream) (rule assms(2))
  show "same_flows m (upd_stream s f m)"
    using assms(2, 3) HashFlow_cong [OF assms(3)] by (simp add: same_flows_def stream_view_def upd_stream_def)
qed

lemma okp_upd_snd [okp_rules]:
  assumes "okp env L m" "\<And>v. (on_control_list (f v), on_send_list (f v), on_ack_list (f v), nif_out (f v)) =
    (on_control_list v, on_send_list v, on_ack_list v, nif_out v)"
  shows "okp env L (upd_snd s f m)"
  unfolding upd_snd_def using assms by (intro okp_upd_stream) (simp_all add: stream_view_def flow_key_def)

lemma okp_upd_rcv [okp_rules]: "okp env L m \<Longrightarrow> okp env L (upd_rcv s f m)"
  unfolding upd_rcv_def by (intro okp_upd_stream) (simp_all add: stream_view_def flow_key_def)

lemma same_flows_sym: "same_lists m m' \<Longrightarrow> same_flows m m' \<Longrightarrow> same_flows m' m"
  by (auto simp: same_flows_def same_lists_def stream_view_def)

lemma same_lists_sym: "same_lists m m' \<Longrightarrow> same_lists m' m"
  by (auto simp: same_lists_def)

lemma okp_eq: "same_lists m m' \<Longrightarrow> same_flows m m' \<Longrightarrow> okp env L m' = okp env L m"
  using okp_cong same_flows_sym same_lists_sym by blast

lemma okp_fields [simp]:
  "okp env L (m \<lparr> fault := x0 \<rparr>) = okp env L m"
  "okp env L (m \<lparr> rv_pool := x1 \<rparr>) = okp env L m"
  "okp env L (m \<lparr> sv_pool := x2 \<rparr>) = okp env L m"
  "okp env L (m \<lparr> rbm_snd := x3 \<rparr>) = okp env L m"
  "okp env L (m \<lparr> rbm_rcv := x4 \<rparr>) = okp env L m"
  "okp env L (m \<lparr> smap := x5 \<rparr>) = okp env L m"
  "okp env L (m \<lparr> free_smap := x6 \<rparr>) = okp env L m"
  "okp env L (m \<lparr> pipes := x7 \<rparr>) = okp env L m"
  "okp env L (m \<lparr> ap_core := x8 \<rparr>) = okp env L m"
  "okp env L (m \<lparr> ap_dev := x9 \<rparr>) = okp env L m"
  "okp env L (m \<lparr> g_id := x10 \<rparr>) = okp env L m"
  "okp env L (m \<lparr> flow_cnt := x11 \<rparr>) = okp env L m"
  "okp env L (m \<lparr> ep := x12 \<rparr>) = okp env L m"
  "okp env L (m \<lparr> ts_last_event := x13 \<rparr>) = okp env L m"
  "okp env L (m \<lparr> listeners := x14 \<rparr>) = okp env L m"
  "okp env L (m \<lparr> listener_mem := x15 \<rparr>) = okp env L m"
  "okp env L (m \<lparr> connectq := x16 \<rparr>) = okp env L m"
  "okp env L (m \<lparr> sendq := x17 \<rparr>) = okp env L m"
  "okp env L (m \<lparr> ackq := x18 \<rparr>) = okp env L m"
  "okp env L (m \<lparr> closeq := x19 \<rparr>) = okp env L m"
  "okp env L (m \<lparr> closeq_int := x20 \<rparr>) = okp env L m"
  "okp env L (m \<lparr> resetq := x21 \<rparr>) = okp env L m"
  "okp env L (m \<lparr> resetq_int := x22 \<rparr>) = okp env L m"
  "okp env L (m \<lparr> destroyq := x23 \<rparr>) = okp env L m"
  "okp env L (m \<lparr> rto_now_idx := x24 \<rparr>) = okp env L m"
  "okp env L (m \<lparr> rto_now_ts := x25 \<rparr>) = okp env L m"
  "okp env L (m \<lparr> cur_ts := x26 \<rparr>) = okp env L m"
  "okp env L (m \<lparr> wakeup_flag := x27 \<rparr>) = okp env L m"
  "okp env L (m \<lparr> arp_entries := x28 \<rparr>) = okp env L m"
  "okp env L (m \<lparr> arp_gateway := x29 \<rparr>) = okp env L m"
  "okp env L (m \<lparr> arp_queue := x30 \<rparr>) = okp env L m"
  "okp env L (m \<lparr> tx := x31 \<rparr>) = okp env L m"
  "okp env L (m \<lparr> wptr_calls := x32 \<rparr>) = okp env L m"
  by (rule okp_eq; simp add: same_lists_def same_flows_def timer_view_def)+

section \<open>The list operations keep the invariant\<close>

lemma same_flows_sender [simp]: "same_flows m (upd_sender e f m')= same_flows m m'"
  by (simp add: same_flows_def upd_sender_def)

lemma same_flows_upd_stream:
  "same_flows m m' \<Longrightarrow> (\<And>t. on_hash_table (f t) = on_hash_table t) \<Longrightarrow> (\<And>t. flow_key (f t) = flow_key t) \<Longrightarrow>
    (\<And>t. on_timeout_list (f t) \<Longrightarrow> on_timeout_list t) \<Longrightarrow> (\<And>t. nif_out (sndvar (f t)) = nif_out (sndvar t)) \<Longrightarrow> same_flows m (upd_stream s f m')"
  using HashFlow_cong [of "f (streams m' s)" "streams m' s"] by (simp add: same_flows_def upd_stream_def)

lemma same_flows_upd_snd [simp]: "same_flows m m' \<Longrightarrow> (\<And>v. nif_out (f v) = nif_out v) \<Longrightarrow> same_flows m (upd_snd s f m')"
  unfolding upd_snd_def by (erule same_flows_upd_stream) (simp_all add: flow_key_def)

lemma same_flows_upd_rcv [simp]: "same_flows m m' \<Longrightarrow> same_flows m (upd_rcv s f m')"
  unfolding upd_rcv_def by (erule same_flows_upd_stream) (simp_all add: flow_key_def)

lemma same_flows_raise [simp]: "same_flows m m' \<Longrightarrow> same_flows m (raise e m')"
  by (erule same_flows_trans) simp

lemma same_flows_tq_remove:
  "same_flows m m' \<Longrightarrow> (\<And>ys. same_flows m (store ys m')) \<Longrightarrow> same_flows m (tq_remove s xs store m')"
  by (simp add: tq_remove_def split: sum.splits)

lemma same_flows_fields [simp]:
  "same_flows m (m' \<lparr> rto_list := x1 \<rparr>) = same_flows m m'"
  "same_flows m (m' \<lparr> timewait_list := x2 \<rparr>) = same_flows m m'"
  "same_flows m (m' \<lparr> timeout_list := x3 \<rparr>) = same_flows m m'"
  "same_flows m (m' \<lparr> rto_list_cnt := y1 \<rparr>) = same_flows m m'"
  "same_flows m (m' \<lparr> timewait_list_cnt := y2 \<rparr>) = same_flows m m'"
  "same_flows m (m' \<lparr> timeout_list_cnt := y3 \<rparr>) = same_flows m m'"
  "same_flows m (m' \<lparr> rto_now_idx := z1 \<rparr>) = same_flows m m'"
  "same_flows m (m' \<lparr> rto_now_ts := z2 \<rparr>) = same_flows m m'"
  by (simp_all add: same_flows_def)

lemma same_flows_sender_ops [simp]:
  "same_flows m (AddtoControlList env s m)" "same_flows m (AddtoSendList env s m)" "same_flows m (AddtoACKList env s m)"
  "same_flows m (RemoveFromControlList env s m)" "same_flows m (RemoveFromSendList env s m)" "same_flows m (RemoveFromACKList env s m)"
  by (auto simp: AddtoControlList_def AddtoSendList_def AddtoACKList_def RemoveFromControlList_def
        RemoveFromSendList_def RemoveFromACKList_def split: option.splits intro!: same_flows_tq_remove)

lemma same_flows_RemoveRTO [simp]: "same_flows m m' \<Longrightarrow> same_flows m (RemoveFromRTOList s m')"
  by (auto simp: RemoveFromRTOList_def Let_def set_rto_list_def flow_key_def intro!: same_flows_tq_remove same_flows_upd_stream)

lemma same_flows_AddRTO [simp]: "same_flows m m' \<Longrightarrow> same_flows m (AddtoRTOList s m')"
  by (auto simp: AddtoRTOList_def Let_def set_rto_list_def flow_key_def intro!: same_flows_upd_stream)

lemma same_flows_timer_ops [simp]:
  "same_flows m (AddtoTimewaitList env now s m)"
  "same_flows m (RemoveFromTimewaitList s m)" "same_flows m (RemoveFromTimeoutList s m)"
  "same_flows m (UpdateTimeoutList s m)" "same_flows m (UpdateRetransmissionTimer now s m)"
  by (auto simp: AddtoTimewaitList_def RemoveFromTimewaitList_def RemoveFromTimeoutList_def
        UpdateTimeoutList_def UpdateRetransmissionTimer_def Let_def flow_key_def
      intro!: same_flows_tq_remove same_flows_upd_stream)

lemma okp_of_ok:
  assumes "okp env L m" "lists_ok env m' \<and> f" "same_flows m m'"
  shows "okp env L m'"
  using assms okp_step by blast

lemma okp_AddtoSendList [okp_rules]:
  assumes "okp env L m" "L s"
  shows "okp env L (AddtoSendList env s m)"
proof (cases "sndbuf (snd_v m s) = None")
  case True
  with assms show ?thesis by (simp add: AddtoSendList_def okp_raise split: option.split)
next
  case False
  with assms show ?thesis using okp_of_ok [OF assms(1) AddtoSendList_ok] by (simp add: okp_lists okp_live)
qed

lemma okp_AddtoTimeoutList [okp_rules]:
  assumes "okp env L m" "L s" "0 < tcp_timeout env"
  shows "okp env L (AddtoTimeoutList s m)"
proof (cases "on_timeout_list (streams m s)")
  case True
  with assms show ?thesis by (simp add: AddtoTimeoutList_def okp_raise)
next
  case False
  have l: "lists_ok env (AddtoTimeoutList s m)"
    using AddtoTimeoutList_ok False assms by (simp add: okp_lists okp_live)
  have "HashFlow (t \<lparr> on_timeout_list := True \<rparr>) = HashFlow t" for t by (rule HashFlow_cong) (simp add: flow_key_def)
  then have u: "live (AddtoTimeoutList s m) u = live m u" "HashFlow (streams (AddtoTimeoutList s m) u) = HashFlow (streams m u)"
    "snd_v (AddtoTimeoutList s m) u = snd_v m u" for u
    using False by (simp_all add: AddtoTimeoutList_def)
  then have "table_ok (AddtoTimeoutList s m) = table_ok m" "chunks_ok (AddtoTimeoutList s m) = chunks_ok m"
    "live (AddtoTimeoutList s m) = live m" "routed (AddtoTimeoutList s m) = routed m"
    using False by (auto simp: u table_ok_def chunks_ok_def routed_def AddtoTimeoutList_def upd_stream_def)
  with assms l show ?thesis by (simp add: okp_def stack_inv_def timeout_ok_def)
qed

lemma okp_RemoveFromTimewaitList [okp_rules]:
  assumes "okp env L m" "L s"
  shows "okp env L (RemoveFromTimewaitList s m)"
proof (cases "on_timewait_list (streams m s)")
  case False
  with assms show ?thesis by (simp add: RemoveFromTimewaitList_def okp_raise)
next
  case True
  with assms show ?thesis using okp_of_ok [OF assms(1) RemoveFromTimewaitList_ok] by (simp add: okp_lists okp_live)
qed

lemma okp_UpdateRetransmissionTimer [okp_rules]:
  assumes "okp env L m" "L s"
  shows "okp env L (UpdateRetransmissionTimer now s m)"
proof (cases "rto (snd_v m s) = 0")
  case True
  with assms show ?thesis by (simp add: UpdateRetransmissionTimer_def okp_raise)
next
  case False
  with assms show ?thesis using okp_of_ok [OF assms(1) UpdateRetransmissionTimer_ok] by (simp add: okp_lists okp_live)
qed

lemma okp_list_ops [okp_rules]:
  assumes "okp env L m" "L s"
  shows "okp env L (AddtoControlList env s m)" "okp env L (AddtoACKList env s m)"
    "okp env L (RemoveFromControlList env s m)" "okp env L (RemoveFromSendList env s m)" "okp env L (RemoveFromACKList env s m)"
    "okp env L (AddtoRTOList s m)" "okp env L (RemoveFromRTOList s m)" "okp env L (AddtoTimewaitList env now s m)"
    "okp env L (RemoveFromTimeoutList s m)" "okp env L (UpdateTimeoutList s m)"
proof -
  have l: "lists_ok env m" "live m s" using assms okp_lists okp_live by auto
  show "okp env L (AddtoControlList env s m)" "okp env L (AddtoACKList env s m)"
    "okp env L (RemoveFromControlList env s m)" "okp env L (RemoveFromSendList env s m)" "okp env L (RemoveFromACKList env s m)"
    by (rule okp_of_ok [OF assms(1) AddtoControlList_ok [OF l]] okp_of_ok [OF assms(1) AddtoACKList_ok [OF l]]
       okp_of_ok [OF assms(1) RemoveFromControlList_ok [OF l]] okp_of_ok [OF assms(1) RemoveFromSendList_ok [OF l]]
       okp_of_ok [OF assms(1) RemoveFromACKList_ok [OF l]], simp)+
  show "okp env L (AddtoRTOList s m)" "okp env L (RemoveFromRTOList s m)" "okp env L (AddtoTimewaitList env now s m)"
    "okp env L (RemoveFromTimeoutList s m)" "okp env L (UpdateTimeoutList s m)"
    by (rule okp_of_ok [OF assms(1) AddtoRTOList_ok [OF l]] okp_of_ok [OF assms(1) RemoveFromRTOList_ok [OF l]]
       okp_of_ok [OF assms(1) AddtoTimewaitList_ok [OF l]] okp_of_ok [OF assms(1) RemoveFromTimeoutList_ok [OF l]]
       okp_of_ok [OF assms(1) UpdateTimeoutList_ok [OF l]], simp)+
qed

lemma okp_EnqueueACK [okp_rules]: "okp env L m \<Longrightarrow> L s \<Longrightarrow> okp env L (EnqueueACK env opt s m)"
  by (simp add: EnqueueACK_def okp_rules split: ack_opt.split)

lemma okp_leave_lists [okp_rules]: "okp env L m \<Longrightarrow> L s \<Longrightarrow> okp env L (leave_lists env s m)"
  by (simp add: leave_lists_def Let_def okp_rules)

lemma okp_free_rv [okp_rules]: "okp env L m \<Longrightarrow> okp env L (free_rv a m)" "okp env L m \<Longrightarrow> okp env L (free_sv a m)"
  by (simp_all add: free_rv_def free_sv_def okp_rules split: sum.split)

lemma okp_free_buffers [okp_rules]: "okp env L m \<Longrightarrow> okp env L (free_buffers s m)"
  by (simp add: free_buffers_def Let_def okp_rules split: sum.split option.split)

lemma okp_release_address [okp_rules]: "okp env L m \<Longrightarrow> okp env L (release_address env a m)"
  by (simp add: release_address_def free_address_def Let_def okp_rules split: sum.split option.split)

section \<open>A new stream\<close>

definition off_lists :: "tcp_stream \<Rightarrow> bool" where
  "off_lists t \<longleftrightarrow> \<not> on_control_list (sndvar t) \<and> \<not> on_send_list (sndvar t) \<and> \<not> on_ack_list (sndvar t) \<and>
     on_rto_idx t < 0 \<and> \<not> on_timewait_list t \<and> \<not> on_timeout_list t"

text \<open>Streams that are not live, before or after, do not matter to the lists as long as they are off the lists.\<close>

lemma lists_ok_change:
  assumes ok: "lists_ok env m" and eq: "senders m' = senders m" "timer_view m' = timer_view m"
    and keep: "\<And>u. u \<noteq> s \<Longrightarrow> streams m' u = streams m u"
    and off: "live m s \<Longrightarrow> off_lists (streams m s)" "live m' s \<Longrightarrow> off_lists (streams m' s)"
      "live m' s \<Longrightarrow> GetSender env m' s \<noteq> None"
  shows "lists_ok env m'"
proof -
  have g: "GetSender env m' u = GetSender env m u" if "u \<noteq> s" for u using keep [OF that] by (simp add: GetSender_def)
  have k: "streams m' u = streams m u" if "u \<noteq> s" for u using keep [OF that] .
  have "(u \<in> control_set env m' e) = (u \<in> control_set env m e) \<and> (u \<in> send_set env m' e) = (u \<in> send_set env m e) \<and>
    (u \<in> ack_set env m' e) = (u \<in> ack_set env m e) \<and> (u \<in> rto_set m' i) = (u \<in> rto_set m i) \<and>
    (u \<in> timewait_set m') = (u \<in> timewait_set m) \<and> (u \<in> timeout_set m') = (u \<in> timeout_set m)" for u e i
  proof (cases "u = s")
    case True
    then show ?thesis using off(1,2) by (cases "live m s"; cases "live m' s"; simp add: list_sets off_lists_def)
  qed (simp add: k g list_sets)
  then have sets: "control_set env m' e = control_set env m e" "send_set env m' e = send_set env m e"
    "ack_set env m' e = ack_set env m e" "rto_set m' i = rto_set m i"
    "timewait_set m' = timewait_set m" "timeout_set m' = timeout_set m" for e i
    by blast+
  have "live m' u \<Longrightarrow> on_rto_idx (streams m' u) \<le> int RTO_HASH \<and>
      (on_timewait_list (streams m' u) \<longrightarrow> on_rto_idx (streams m' u) < 0)" for u
    using ok off(2) k [of u] by (cases "u = s") (auto simp: lists_ok_def timers_ok_def off_lists_def)
  moreover have "live m' u \<Longrightarrow> GetSender env m' u \<noteq> None" for u
    using ok off(3) k [of u] g [of u] by (cases "u = s") (auto simp: lists_ok_def)
  ultimately show ?thesis
    using ok eq by (simp add: lists_ok_def sender_ok_def timers_ok_def sets timer_view_def)
qed

text \<open>A chunk the stack holds although its stream is not live (yet, or any more).\<close>

definition held :: "mtcp_manager \<Rightarrow> sid \<Rightarrow> bool" where
  "held m s \<longleftrightarrow> (\<exists>xs. pool_rel (flow_pool m) xs \<and> (\<forall>u. live m u \<longrightarrow> u \<in> pool_chunks (flow_pool m) \<and> u \<notin> set xs) \<and>
     s \<in> pool_chunks (flow_pool m) \<and> s \<notin> set xs)"

lemma okp_free_flow:
  assumes "okp env L m" "held m s" "\<not> L s"
  shows "okp env L (free_flow s m) \<and> fault (free_flow s m) = fault m"
proof -
  obtain xs where xs: "pool_rel (flow_pool m) xs" "\<And>u. live m u \<Longrightarrow> u \<in> pool_chunks (flow_pool m) \<and> u \<notin> set xs"
    "s \<in> pool_chunks (flow_pool m)" "s \<notin> set xs"
    using assms(2) by (auto simp: held_def)
  obtain p where p: "MPFreeChunk (flow_pool m) s = Inr p" "pool_rel p (s # xs)" "pool_chunks p = pool_chunks (flow_pool m)"
    using pool_free_ok [OF xs(1,3,4)] by blast
  have l: "live m = L" using assms(1) by (simp add: okp_def)
  have "lists_ok env (m \<lparr> flow_pool := p \<rparr>) = lists_ok env m"
    by (rule lists_ok_cong) (simp add: same_lists_def timer_view_def)
  moreover have "chunks_ok (m \<lparr> flow_pool := p \<rparr>)"
    using p xs(2) assms(3) l by (auto simp: chunks_ok_def intro!: exI [of _ "s # xs"])
  ultimately show ?thesis
    using assms(1) p(1) by (simp add: free_flow_def okp_def stack_inv_def timeout_ok_def table_ok_def routed_def)
qed

lemma okp_change:
  assumes ok: "okp env L m" and eq: "senders m' = senders m" "timer_view m' = timer_view m"
    and keep: "\<And>u. u \<noteq> s \<Longrightarrow> streams m' u = streams m u"
    and off: "live m s \<Longrightarrow> off_lists (streams m s)" "live m' s \<Longrightarrow> off_lists (streams m' s)"
      "live m' s \<Longrightarrow> GetSender env m' s \<noteq> None"
    and rt: "live m' s \<Longrightarrow> 0 \<le> nif_out (snd_v m' s)" and tab: "table_ok m'" and ch: "chunks_ok m'"
  shows "okp env (L(s := live m' s)) m'"
proof -
  have "0 \<le> nif_out (snd_v m' u)" if "live m' u" for u
    using that ok rt keep [of u] by (cases "u = s") (auto simp: okp_def stack_inv_def routed_def)
  then have "routed m'" unfolding routed_def by blast
  moreover
  have "lists_ok env m'" by (rule lists_ok_change [OF okp_lists [OF ok] eq keep off])
  moreover
  have "\<not> on_timeout_list (streams m' u)" if "live m' u" "\<not> 0 < tcp_timeout env" for u
    using that ok off(2) keep [of u] by (cases "u = s") (auto simp: okp_def stack_inv_def timeout_ok_def off_lists_def)
  then have "timeout_ok env m'" unfolding timeout_ok_def by blast
  moreover have "live m' u = (L(s := live m' s)) u" for u
    using keep [of u] okp_live [OF ok, of u] by (cases "u = s") simp_all
  then have "live m' = L(s := live m' s)" by (rule ext)
  ultimately show ?thesis using tab ch by (simp add: okp_def stack_inv_def)
qed

lemma okp_zero:
  assumes "okp env L m" "\<not> L s" "\<not> on_hash_table t"
  shows "okp env L (upd_stream s (\<lambda>_. t) m)"
proof -
  let ?m = "upd_stream s (\<lambda>_. t) m"
  have s: "\<not> live m s" using assms(1,2) okp_live by blast
  have l: "live ?m = live m" using s assms(3) by auto
  have "{u. live ?m u \<and> HashFlow (streams ?m u) = i} = {u. live m u \<and> HashFlow (streams m u) = i}" for i
    using s assms(3) by auto
  then have tab: "table_ok ?m" using assms(1) by (simp add: table_ok_def okp_def stack_inv_def)
  have "flow_pool ?m = flow_pool m" by (simp add: upd_stream_def)
  then have ch: "chunks_ok ?m" using assms(1) l unfolding chunks_ok_def okp_def stack_inv_def by metis
  have "okp env (L(s := live ?m s)) ?m"
    by (rule okp_change [OF assms(1) _ _ _ _ _ _ _ tab ch]) (use s assms(3) in \<open>auto simp: upd_stream_def timer_view_def\<close>)
  moreover have "L(s := live ?m s) = L" using assms(2,3) by (simp add: fun_upd_idem_iff)
  ultimately show ?thesis by simp
qed

lemma okp_alloc:
  assumes ok: "okp env L m" and a: "MPAllocateChunk (flow_pool m) = r"
  shows "\<exists>x p. r = Inr (x, p) \<and> okp env L (m \<lparr> flow_pool := p \<rparr>) \<and>
    (\<forall>s. x = Some s \<longrightarrow> \<not> L s \<and> held (m \<lparr> flow_pool := p \<rparr>) s)"
proof -
  obtain xs where xs: "pool_rel (flow_pool m) xs" "\<And>u. live m u \<Longrightarrow> u \<in> pool_chunks (flow_pool m) \<and> u \<notin> set xs"
    using ok by (auto simp: okp_def stack_inv_def chunks_ok_def)
  have l: "live m = L" using ok by (simp add: okp_def)
  have ok': "okp env L (m \<lparr> flow_pool := p \<rparr>)" if "chunks_ok (m \<lparr> flow_pool := p \<rparr>)" for p
    using ok that lists_ok_cong [of m "m \<lparr> flow_pool := p \<rparr>" env]
    by (simp add: okp_def stack_inv_def timeout_ok_def table_ok_def routed_def same_lists_def timer_view_def)
  show ?thesis
  proof (cases xs)
    case Nil
    then show ?thesis using a xs mp.alloc_none ok by auto
  next
    case (Cons s ys)
    then obtain p where p: "r = Inr (Some s, p)" "pool_rel p ys" "pool_chunks p = pool_chunks (flow_pool m)"
      using a xs(1) mp.alloc_some by blast
    have s: "s \<notin> set ys" "s \<in> pool_chunks (flow_pool m)" using xs(1) Cons by (auto simp: pool_rel_def)
    have "\<not> L s" using xs(2) l Cons by auto
    moreover have "held (m \<lparr> flow_pool := p \<rparr>) s" using p s xs(2) Cons by (auto simp: held_def)
    moreover have "chunks_ok (m \<lparr> flow_pool := p \<rparr>)" using p xs(2) Cons by (auto simp: chunks_ok_def)
    ultimately show ?thesis using p(1) ok' by auto
  qed
qed

lemma held_cong: "flow_pool m' = flow_pool m \<Longrightarrow> live m' = live m \<Longrightarrow> held m' s = held m s"
  unfolding held_def by metis

lemma held_chunks: "held m s \<Longrightarrow> chunks_ok m"
  by (auto simp: held_def chunks_ok_def)

lemma alloc_stream_ok:
  assumes ok: "okp env L m" and r: "alloc_stream m = (x, m')"
  shows "okp env L m' \<and> (\<forall>s. x = Some s \<longrightarrow> \<not> L s \<and> held m' s \<and>
    (\<exists>rp vp. streams m' s = zero_stream \<lparr> rcvvar_p := rp, sndvar_p := vp \<rparr>))"
proof -
  obtain y p where y: "MPAllocateChunk (flow_pool m) = Inr (y, p)" "okp env L (m \<lparr> flow_pool := p \<rparr>)"
    "\<And>s. y = Some s \<Longrightarrow> \<not> L s \<and> held (m \<lparr> flow_pool := p \<rparr>) s"
    using okp_alloc [OF ok refl] by blast
  show ?thesis
  proof (cases y)
    case None
    then show ?thesis using r y by (simp add: alloc_stream_def)
  next
    case (Some s)
    let ?m0 = "m \<lparr> flow_pool := p \<rparr>"
    have s: "\<not> L s" "held ?m0 s" using y(3) Some by auto
    then have dead: "\<not> live ?m0 s" using okp_live [OF y(2)] by blast
    define W where "W = (\<lambda>t q1 q2. (upd_stream s (\<lambda>_. t) ?m0) \<lparr> rv_pool := q1, sv_pool := q2 \<rparr>)"
    have W: "okp env L (W t q1 q2) \<and> held (W t q1 q2) s" if "\<not> on_hash_table t" for t q1 q2
    proof -
      have "live (W t q1 q2) = live ?m0" using that dead by (auto simp: W_def)
      then have "held (W t q1 q2) s = held ?m0 s" by (intro held_cong) (simp_all add: W_def upd_stream_def)
      then show ?thesis using okp_zero [OF y(2) s(1) that] s(2) by (simp add: W_def)
    qed
    have E: "upd_stream s (\<lambda>_. zero_stream) ?m0 = W zero_stream (rv_pool m) (sv_pool m)"
      "\<And>t q1 q2 q. (W t q1 q2) \<lparr> rv_pool := q \<rparr> = W t q q2" "\<And>t q1 q2 q. (W t q1 q2) \<lparr> sv_pool := q \<rparr> = W t q1 q"
      "\<And>t q1 q2 f. upd_stream s f (W t q1 q2) = W (f t) q1 q2" "\<And>t q1 q2. rv_pool (W t q1 q2) = q1" "\<And>t q1 q2. sv_pool (W t q1 q2) = q2"
      by (simp_all add: W_def upd_stream_def)
    have F: "okp env L (free_flow s (W t q1 q2))" if "\<not> on_hash_table t" for t q1 q2
      using okp_free_flow W [OF that] s(1) by blast
    have G: "okp env L (free_flow s (free_rv a (W t q1 q2)))" if t: "\<not> on_hash_table t" for a t q1 q2
    proof (cases "MPFreeChunk q1 a")
      case (Inl e)
      have "held (raise e (W t q1 q2)) s = held (W t q1 q2) s"
        by (rule held_cong) (simp_all add: raise_def split: option.split)
      then show ?thesis using W [OF t] Inl s(1) by (simp add: free_rv_def E okp_free_flow okp_raise)
    qed (simp add: free_rv_def E F t)
    have z: "\<not> on_hash_table zero_stream" "sndvar zero_stream = zero_sndvar" "rcvvar zero_stream = zero_rcvvar"
      by (simp_all add: zero_stream_def)
    have str: "streams (W t q1 q2) s = t" for t q1 q2 by (simp add: W_def)
    have t: "zero_stream \<lparr> rcvvar_p := a, sndvar_p := b, rcvvar := zero_rcvvar, sndvar := zero_sndvar \<rparr> =
        zero_stream \<lparr> rcvvar_p := a, sndvar_p := b \<rparr>" for a b
      by (simp add: zero_stream_def)
    show ?thesis
      using r Some
      by (auto simp: alloc_stream_def y(1) E Let_def F G W z okp_raise s str t split: sum.splits option.splits) blast
  qed
qed

text \<open>Every interface the routing table names is an interface of the configuration.\<close>

definition env_ok :: "stack_env \<Rightarrow> bool" where
  "env_ok env \<longleftrightarrow> (\<forall>da nif ext. GetOutputInterface env da = Inr (nif, ext) \<longrightarrow>
     0 \<le> nif_to_eidx env nif \<and> nif_to_eidx env nif < int (length (eths env)))"

text \<open>Entering a stream into the flow table and initialising it.\<close>

lemma okp_birth:
  assumes ok: "okp env L m" and s: "\<not> L s" "held m s"
    and r: "streams r = (streams m)(s := t)" "senders r = senders m" "timer_view r = timer_view m"
      "flow_pool r = flow_pool m" "flow_table r = (flow_table m)(HashFlow t := flow_table m (HashFlow t) @ [s])"
    and t: "on_hash_table t" "off_lists t" "GetSender env r s \<noteq> None" "0 \<le> nif_out (sndvar t)"
  shows "okp env (L(s := True)) r"
proof -
  have dead: "\<not> live m s" using okp_live [OF ok] s by blast
  have sets: "{u. live r u \<and> HashFlow (streams r u) = i} =
      (if i = HashFlow t then insert s {u. live m u \<and> HashFlow (streams m u) = i} else {u. live m u \<and> HashFlow (streams m u) = i})" for i
    using dead t(1) r(1) by auto
  have tab: "table_ok r"
    using ok dead by (auto simp: table_ok_def sets r(5) okp_def stack_inv_def intro: listed_snoc)
  obtain xs where xs: "pool_rel (flow_pool m) xs" "\<And>u. live m u \<Longrightarrow> u \<in> pool_chunks (flow_pool m) \<and> u \<notin> set xs"
    "s \<in> pool_chunks (flow_pool m)" "s \<notin> set xs"
    using s(2) by (auto simp: held_def)
  have ch: "chunks_ok r" unfolding chunks_ok_def r(4)
    by (rule exI [of _ xs]) (use xs r(1) in auto)
  have "okp env (L(s := live r s)) r"
    by (rule okp_change [OF ok r(2,3) _ _ _ _ _ tab ch]) (use r(1) t dead in auto)
  moreover have "live r s" using r(1) t(1) by simp
  ultimately show ?thesis by simp
qed

lemma HashFlow_init [simp]: "HashFlow (init_stream env ty route t) = HashFlow t"
  by (rule HashFlow_cong) (simp add: init_stream_def flow_key_def Let_def)

lemma off_lists_init:
  "off_lists (init_stream env ty route t) \<longleftrightarrow> \<not> on_control_list (sndvar t) \<and> \<not> on_send_list (sndvar t) \<and>
     \<not> on_ack_list (sndvar t) \<and> \<not> on_timewait_list t \<and> \<not> on_timeout_list t"
  by (simp add: off_lists_def init_stream_def Let_def)

lemma CreateTCPStream_ok:
  assumes env: "env_ok env" and ok: "okp env L m" and r: "CreateTCPStream env socket ty sa sp da dp m = (x, m')"
  shows "\<exists>L'. okp env L' m' \<and> (\<forall>u. L u \<longrightarrow> L' u) \<and> (\<forall>s. x = Some s \<longrightarrow> \<not> L s \<and> L' = L(s := True))"
proof -
  obtain y m1 where y: "alloc_stream m = (y, m1)" by (cases "alloc_stream m")
  note al = alloc_stream_ok [OF ok y]
  show ?thesis
  proof (cases y)
    case None
    then show ?thesis using r al y by (auto simp: CreateTCPStream_def)
  next
    case (Some s)
    obtain rp vp where s: "\<not> L s" "held m1 s" "streams m1 s = zero_stream \<lparr> rcvvar_p := rp, sndvar_p := vp \<rparr>"
      using al Some by blast
    define t0 where "t0 = (zero_stream \<lparr> rcvvar_p := rp, sndvar_p := vp, stream_id := g_id m1, saddr := sa, sport := sp,
        daddr := da, dport := dp \<rparr>)"
    define t1 where "t1 = t0 \<lparr> ht_idx := TCP_AR_CNT, on_hash_table := True \<rparr>"
    define t2 where "t2 = (case socket of None \<Rightarrow> t1 | Some k \<Rightarrow> t1 \<lparr> sock := Some k \<rparr>)"
    show ?thesis
    proof (cases "GetOutputInterface env da")
      case (Inl e)
      then have "m' = raise e m1" "x = None" using r y Some by (auto simp: CreateTCPStream_def Let_def StreamHTInsert_def HashFlow_less)
      then show ?thesis using al okp_raise by blast
    next
      case (Inr route)
    have t0: "sndvar t0 = zero_sndvar" "\<not> on_timewait_list t0" "\<not> on_timeout_list t0" by (simp_all add: t0_def zero_stream_def)
    have h: "HashFlow t2 = HashFlow t0" by (rule HashFlow_cong) (simp add: t2_def t1_def flow_key_def split: option.split)
    have nif: "0 \<le> fst route" "0 \<le> nif_to_eidx env (fst route) \<and> nif_to_eidx env (fst route) < int (length (eths env))"
      using env Inr by (cases route; auto simp: env_ok_def GetOutputInterface_def split: option.splits if_splits)+
    have m': "streams m' = (streams m1)(s := init_stream env ty route t2)" "senders m' = senders m1" "timer_view m' = timer_view m1"
      "flow_pool m' = flow_pool m1" "flow_table m' = (flow_table m1)(HashFlow t0 := flow_table m1 (HashFlow t0) @ [s])"
      "x = Some s"
      using r y Some s(3) t0 Inr
      by (auto simp: CreateTCPStream_def Let_def StreamHTInsert_def HashFlow_less t0_def [symmetric] t1_def t2_def
           upd_stream_def timer_view_def raise_def split: option.splits sum.splits)
    have "okp env (L(s := True)) m'"
    proof (rule okp_birth [OF conjunct1 [OF al] s(1,2) m'(1-4)])
      show "flow_table m' = (flow_table m1)(HashFlow (init_stream env ty route t2) := flow_table m1 (HashFlow (init_stream env ty route t2)) @ [s])"
        using m'(5) h by simp
      show "on_hash_table (init_stream env ty route t2)" by (simp add: init_stream_def t2_def t1_def Let_def split: option.split)
      show "off_lists (init_stream env ty route t2)" by (simp add: off_lists_init t2_def t1_def t0 zero_sndvar_def split: option.split)
      have "nif_out (snd_v m' s) = fst route" by (simp add: m'(1) init_stream_def Let_def)
      then show "GetSender env m' s \<noteq> None" "0 \<le> nif_out (sndvar (init_stream env ty route t2))"
        using nif by (auto simp: GetSender_def Let_def m'(1))
    qed
    then show ?thesis using s(1) m'(6) by auto
    qed
  qed
qed

section \<open>The end of a stream\<close>

lemma streams_tq_remove:
  "(\<And>ys. streams (store ys m) = streams m) \<Longrightarrow> streams (tq_remove s xs store m) = streams m"
  by (simp add: tq_remove_def split: sum.split)

lemma streams_RemoveFrom:
  assumes "GetSender env m s \<noteq> None"
  shows "streams (RemoveFromControlList env s m) = (streams m)(s := (streams m s) \<lparr> sndvar := (snd_v m s) \<lparr> on_control_list := False \<rparr> \<rparr>)"
    "streams (RemoveFromSendList env s m) = (streams m)(s := (streams m s) \<lparr> sndvar := (snd_v m s) \<lparr> on_send_list := False \<rparr> \<rparr>)"
    "streams (RemoveFromACKList env s m) = (streams m)(s := (streams m s) \<lparr> sndvar := (snd_v m s) \<lparr> on_ack_list := False \<rparr> \<rparr>)"
proof -
  have e: "v \<lparr> on_control_list := False \<rparr> = v" if "\<not> on_control_list v" for v :: tcp_send_vars using that by (cases v) simp
  have e': "v \<lparr> on_send_list := False \<rparr> = v" if "\<not> on_send_list v" for v :: tcp_send_vars using that by (cases v) simp
  have e'': "v \<lparr> on_ack_list := False \<rparr> = v" if "\<not> on_ack_list v" for v :: tcp_send_vars using that by (cases v) simp
  have n: "t \<lparr> sndvar := sndvar t \<rparr> = t" for t :: tcp_stream by (cases t) simp
  show "streams (RemoveFromControlList env s m) = (streams m)(s := (streams m s) \<lparr> sndvar := (snd_v m s) \<lparr> on_control_list := False \<rparr> \<rparr>)"
    using assms e [of "snd_v m s"] by (auto simp: RemoveFromControlList_def streams_tq_remove n split: option.splits)
  show "streams (RemoveFromSendList env s m) = (streams m)(s := (streams m s) \<lparr> sndvar := (snd_v m s) \<lparr> on_send_list := False \<rparr> \<rparr>)"
    using assms e' [of "snd_v m s"] by (auto simp: RemoveFromSendList_def streams_tq_remove n split: option.splits)
  show "streams (RemoveFromACKList env s m) = (streams m)(s := (streams m s) \<lparr> sndvar := (snd_v m s) \<lparr> on_ack_list := False \<rparr> \<rparr>)"
    using assms e'' [of "snd_v m s"] by (auto simp: RemoveFromACKList_def streams_tq_remove n split: option.splits)
qed

lemma sender_flags_RTO [simp]: "snd_v (RemoveFromRTOList s m) u = snd_v m u"
  by (simp add: RemoveFromRTOList_def tq_remove_def set_rto_list_def Let_def split: sum.splits)

lemma snd_v_timers [simp]:
  "snd_v (RemoveFromTimewaitList s m) u = snd_v m u" "snd_v (RemoveFromTimeoutList s m) u = snd_v m u"
  by (simp_all add: RemoveFromTimewaitList_def RemoveFromTimeoutList_def tq_remove_def split: sum.splits)

lemma timer_flags [simp]:
  "on_timewait_list (streams (RemoveFromTimeoutList s m) u) = on_timewait_list (streams m u)"
  "on_rto_idx (streams (RemoveFromTimeoutList s m) u) = on_rto_idx (streams m u)"
  "on_rto_idx (streams (RemoveFromTimewaitList s m) u) = on_rto_idx (streams m u)"
  "\<not> on_timeout_list (streams (RemoveFromTimeoutList s m) s)"
  by (simp_all add: RemoveFromTimewaitList_def RemoveFromTimeoutList_def tq_remove_def split: sum.splits)

lemma RemoveFromTimewaitList_flag:
  "okp env L m \<Longrightarrow> L s \<Longrightarrow> \<not> on_timewait_list (streams (RemoveFromTimewaitList s m) s)"
  using timers_okD(2) [of m] okp_lists [of env L m] okp_live [of env L m s]
  by (auto simp: RemoveFromTimewaitList_def lists_ok_def listed_def timewait_set_def tq_remove_mem)

lemma leave_lists_off:
  assumes ok: "okp env L m" and s: "L s"
  shows "off_lists (streams (leave_lists env s m) s)"
proof -
  define m1 where "m1 = RemoveFromACKList env s (RemoveFromSendList env s (RemoveFromControlList env s m))"
  define m2 where "m2 = (if on_rto_idx (streams m1 s) \<ge> 0 then RemoveFromRTOList s m1 else m1)"
  define m3 where "m3 = (if on_timewait_list (streams m2 s) then RemoveFromTimewaitList s m2 else m2)"
  define m4 where "m4 = (if tcp_timeout env > 0 then RemoveFromTimeoutList s m3 else m3)"
  have ok1: "okp env L m1" unfolding m1_def by (simp add: ok s okp_rules)
  have ok2: "okp env L m2" unfolding m2_def by (simp add: ok1 s okp_rules)
  have ok3: "okp env L m3" unfolding m3_def by (simp add: ok2 s okp_rules)
  have g: "GetSender env m' s \<noteq> None" if "okp env L m'" for m'
    using okp_lists [OF that] okp_live [OF that, of s] s by (simp add: lists_ok_def)
  have f1: "\<not> on_control_list (snd_v m1 s)" "\<not> on_send_list (snd_v m1 s)" "\<not> on_ack_list (snd_v m1 s)"
    unfolding m1_def by (simp_all add: streams_RemoveFrom g ok s okp_rules)
  have f2: "snd_v m2 s = snd_v m1 s" "on_rto_idx (streams m2 s) < 0"
    using RemoveFromRTOList_idx [of env m1 s] ok1 okp_lists okp_live s by (auto simp: m2_def)
  have f3: "snd_v m3 s = snd_v m1 s" "on_rto_idx (streams m3 s) < 0" "\<not> on_timewait_list (streams m3 s)"
    using f2 RemoveFromTimewaitList_flag [OF ok2 s] by (simp_all add: m3_def)
  have "snd_v m4 s = snd_v m1 s" "on_rto_idx (streams m4 s) < 0" "\<not> on_timewait_list (streams m4 s)" "\<not> on_timeout_list (streams m4 s)"
    using f3 ok3 okp_live [OF ok3, of s] s by (auto simp: m4_def okp_def stack_inv_def timeout_ok_def)
  moreover have "leave_lists env s m = m4" by (simp only: leave_lists_def Let_def m4_def m3_def m2_def m1_def)
  ultimately show ?thesis using f1 by (simp add: off_lists_def)
qed

lemma free_buffers_view:
  "stream_view (streams (free_buffers s m) u) = stream_view (streams m u)"
  by (auto simp: free_buffers_def Let_def stream_view_def split: sum.splits option.splits)

lemma off_lists_view: "stream_view t = stream_view t' \<Longrightarrow> off_lists t = off_lists t'"
  by (simp add: stream_view_def off_lists_def)

text \<open>Taking a stream that is off the lists out of the flow table.\<close>

lemma okp_death:
  assumes ok: "okp env L m" and s: "L s" "off_lists (streams m s)"
    and r: "r = upd_stream s (\<lambda>t. t \<lparr> on_hash_table := False \<rparr>) (StreamHTRemove s m)"
  shows "okp env (L(s := False)) r \<and> held r s \<and> fault r = fault m"
proof -
  define h where "h = HashFlow (streams m s)"
  have live: "live m s" using ok s okp_live by blast
  have bk: "listed (flow_table m i) {u. live m u \<and> HashFlow (streams m u) = i}" for i
    using ok by (simp add: okp_def stack_inv_def table_ok_def)
  then have "s \<in> set (flow_table m h)" using live by (simp add: listed_def h_def)
  then have rm: "StreamHTRemove s m = m \<lparr> flow_table := (flow_table m)(h := remove1 s (flow_table m h)) \<rparr>"
    by (simp add: StreamHTRemove_def h_def Let_def tq_remove_mem)
  have R: "streams r = (streams m)(s := (streams m s) \<lparr> on_hash_table := False \<rparr>)" "senders r = senders m"
    "timer_view r = timer_view m" "flow_pool r = flow_pool m" "fault r = fault m"
    "flow_table r = (flow_table m)(h := remove1 s (flow_table m h))"
    unfolding r rm by (simp_all add: upd_stream_def timer_view_def)
  have sets: "{u. live r u \<and> HashFlow (streams r u) = i} =
      (if i = h then {u. live m u \<and> HashFlow (streams m u) = i} - {s} else {u. live m u \<and> HashFlow (streams m u) = i})" for i
    using live R(1) by (auto simp: h_def)
  have tab: "table_ok r" by (auto simp: table_ok_def sets R(6) bk intro: listed_remove1)
  obtain xs where xs: "pool_rel (flow_pool m) xs" "\<And>u. live m u \<Longrightarrow> u \<in> pool_chunks (flow_pool m) \<and> u \<notin> set xs"
    using ok by (auto simp: okp_def stack_inv_def chunks_ok_def)
  have held: "held r s" unfolding held_def R(4)
    by (rule exI [of _ xs]) (use xs R(1) live in auto)
  have "okp env (L(s := live r s)) r"
    by (rule okp_change [OF ok R(2,3) _ _ _ _ _ tab held_chunks [OF held]]) (use R(1) s in auto)
  then show ?thesis using held R(1,5) by simp
qed

lemma held_raise: "held (raise e m) s = held m s"
  by (rule held_cong) (simp_all add: raise_def split: option.split)

lemma held_fields: "held (m \<lparr> rv_pool := p \<rparr>) s = held m s" "held (m \<lparr> sv_pool := q \<rparr>) s = held m s"
  by (rule held_cong; simp)+

lemma held_free_rv: "held (free_rv a m) s = held m s" "held (free_sv a m) s = held m s"
  by (simp_all add: free_rv_def free_sv_def held_raise held_fields split: sum.split)

lemma okp_DestroyTCPStream:
  assumes ok: "okp env L m" and s: "L s"
  shows "okp env (L(s := False)) (DestroyTCPStream env s m)"
proof -
  let ?m1 = "leave_lists env s m"
  have ok1: "okp env L ?m1" by (simp add: ok s okp_rules)
  have h: "on_hash_table (streams ?m1 s)" using okp_live [OF ok1, of s] s by simp
  have ok3: "okp env L (free_buffers s ?m1)" by (simp add: ok1 okp_rules)
  have off: "off_lists (streams (free_buffers s ?m1) s)"
    using leave_lists_off [OF ok s] off_lists_view [OF free_buffers_view] by blast
  define m4 where "m4 = upd_stream s (\<lambda>t. t \<lparr> on_hash_table := False \<rparr>) (StreamHTRemove s (free_buffers s ?m1))"
  have ok4: "okp env (L(s := False)) m4" "held m4 s" using okp_death [OF ok3 s off m4_def] by auto
  define m5 where "m5 = m4 \<lparr> flow_cnt := flow_cnt m4 - 1 \<rparr>"
  have "held m5 s = held m4 s" by (rule held_cong) (simp_all add: m5_def)
  then have ok5: "okp env (L(s := False)) m5" "held m5 s" using ok4 by (simp_all add: m5_def)
  have "okp env (L(s := False)) (free_flow s (free_sv b (free_rv a m5)))" for a b
    by (rule conjunct1 [OF okp_free_flow]) (simp_all add: ok5 okp_rules held_free_rv)
  then show ?thesis
    using h by (simp add: DestroyTCPStream_def Let_def m4_def [symmetric] m5_def [symmetric] okp_rules)
qed

end
