(* ===== verification/TcpOut.thy ===== *)
theory TcpOut
  imports StreamLife TcpWire "HOL-Library.While_Combinator"
begin

text \<open>
  Sending (\<^verbatim>\<open>tcp_out.c\<close>): a segment without a stream, a segment of a stream, the loop that empties a send
  buffer into the window of the peer, the control packet of a state, and the three loops over the lists of a
  sender. A loop that the source leaves only when the device refuses a buffer is a \<open>while_option\<close>, and not
  leaving it is the fault \<open>Diverges\<close>. Every operation keeps the invariant of the stack; what the flush loop puts
  on the wire, and that it ends, is proved in \<open>TcpFlush\<close>.
\<close>

section \<open>Segments\<close>

definition TS_TO_MSEC :: "u32 \<Rightarrow> u32" where "TS_TO_MSEC t = (t * 1000) div 1000"

abbreviation has_flag :: "u8 \<Rightarrow> u8 \<Rightarrow> bool" where "has_flag flags f \<equiv> flags AND f \<noteq> 0"

text \<open>The header in front of options and payload, the checksum filled in unless the device does it.\<close>

definition tcp_segment :: "stack_env \<Rightarrow> tcphdr \<Rightarrow> u8 list \<Rightarrow> u32 \<Rightarrow> u32 \<Rightarrow> u8 list" where
  "tcp_segment env h rest sa da =
    (if hw_csum env then tcphdr_bytes h @ rest
     else tcphdr_bytes (h \<lparr> th_check := TCPCalcChecksum (tcphdr_bytes h @ rest) sa da \<rparr>) @ rest)"

definition SendTCPPacketStandalone :: "stack_env \<Rightarrow> u32 \<Rightarrow> u16 \<Rightarrow> u32 \<Rightarrow> u16 \<Rightarrow> u32 \<Rightarrow> u32 \<Rightarrow> u16 \<Rightarrow> u8 \<Rightarrow>
    u8 list \<Rightarrow> u32 \<Rightarrow> u32 \<Rightarrow> mtcp_manager \<Rightarrow> int \<times> mtcp_manager" where
  "SendTCPPacketStandalone env sa sp da dp sq ack window flags payload now echo m =
    (let optlen = CalculateOptionLength flags; payloadlen = length payload in
     if payloadlen + optlen > TCP_DEFAULT_MSS then (- 1, raise AssertFail m)
     else case IPOutputStandalone env IPPROTO_TCP 0 sa da (of_nat (TCP_HEADER_LEN + optlen + payloadlen)) m of
       (None, m1) \<Rightarrow> (- 1, m1)
     | (Some (dev, pre), m1) \<Rightarrow>
       let h = \<lparr> th_source = sp, th_dest = dp, th_seq = htonl sq,
                 th_ack_seq = (if has_flag flags TCP_FLAG_ACK then htonl ack else 0),
                 th_doff = (TCP_HEADER_LEN + optlen) div 4,
                 th_fin = has_flag flags TCP_FLAG_FIN, th_syn = has_flag flags TCP_FLAG_SYN,
                 th_rst = has_flag flags TCP_FLAG_RST, th_psh = has_flag flags TCP_FLAG_PSH,
                 th_ack = has_flag flags TCP_FLAG_ACK, th_window = htons window, th_check = 0 \<rparr>;
           opts = [TCP_OPT_NOP, TCP_OPT_NOP] @ GenerateTCPTimestamp now echo @ replicate (optlen - 12) 0;
           n = payloadlen + (if th_syn h \<or> th_fin h then 1 else 0) in
       (int n, emit (dev, pre @ tcp_segment env h (opts @ payload) sa da) m1))"

text \<open>The bytes of the segment and what \<^verbatim>\<open>SendTCPPacket\<close> does to the stream are separate functions of
  the state after \<^verbatim>\<open>IPOutput\<close>.\<close>

definition stream_header :: "tcp_stream \<Rightarrow> u8 \<Rightarrow> tcphdr" where
  "stream_header t flags =
    (let wack = has_flag flags TCP_FLAG_WACK;
         fin = (\<not> wack \<and> has_flag flags TCP_FLAG_FIN);
         sq = (if wack then snd_nxt t - 1 else if fin then fss (sndvar t) else snd_nxt t);
         wscale = (if has_flag flags TCP_FLAG_SYN then 0 else wscale_mine (sndvar t));
         window32 = drop_bit (unat wscale) (rcv_wnd (rcvvar t)) in
     \<lparr> th_source = sport t, th_dest = dport t, th_seq = htonl sq,
       th_ack_seq = (if has_flag flags TCP_FLAG_ACK then htonl (rcv_nxt t) else 0),
       th_doff = (TCP_HEADER_LEN + CalculateOptionLength flags) div 4, th_fin = fin,
       th_syn = has_flag flags TCP_FLAG_SYN, th_rst = has_flag flags TCP_FLAG_RST,
       th_psh = has_flag flags TCP_FLAG_PSH, th_ack = has_flag flags TCP_FLAG_ACK,
       th_window = htons (ucast (min window32 (of_nat TCP_MAX_WINDOW))), th_check = 0 \<rparr>)"

definition note_sent :: "u32 \<Rightarrow> u8 \<Rightarrow> sid \<Rightarrow> mtcp_manager \<Rightarrow> mtcp_manager" where
  "note_sent now flags s m =
    (let t = streams m s;
         fin = (\<not> has_flag flags TCP_FLAG_WACK \<and> has_flag flags TCP_FLAG_FIN);
         m1 = (if fin then upd_snd s (\<lambda>v. v \<lparr> is_fin_sent := True \<rparr>) m else m);
         m2 = (if has_flag flags TCP_FLAG_ACK
               then UpdateTimeoutList s (upd_stream s (\<lambda>t. t \<lparr> last_active_ts := now \<rparr>)
                      (upd_snd s (\<lambda>v. v \<lparr> ts_lastack_sent := now \<rparr>) m1))
               else m1);
         wscale = (if has_flag flags TCP_FLAG_SYN then 0 else wscale_mine (sndvar t)) in
     if drop_bit (unat wscale) (rcv_wnd (rcvvar t)) = 0
     then upd_stream s (\<lambda>t. t \<lparr> need_wnd_adv := True \<rparr>) m2 else m2)"

definition SendTCPPacket :: "stack_env \<Rightarrow> sid \<Rightarrow> u32 \<Rightarrow> u8 \<Rightarrow> u8 list \<Rightarrow> mtcp_manager \<Rightarrow> int \<times> mtcp_manager" where
  "SendTCPPacket env s now flags payload m =
    (let optlen = CalculateOptionLength flags; payloadlen = length payload in
     if payloadlen + optlen > unat (mss (snd_v m s)) then (- 1, m)
     else case IPOutput env s (of_nat (TCP_HEADER_LEN + optlen + payloadlen)) m of
       (None, m1) \<Rightarrow> (- 2, m1)
     | (Some (dev, pre), m1) \<Rightarrow>
       let h = stream_header (streams m1 s) flags;
           m2 = note_sent now flags s m1;
           t = streams m2 s;
           m3 = emit (dev, pre @ tcp_segment env h (GenerateTCPOptions t now flags @ payload) (saddr t) (daddr t)) m2;
           n = payloadlen + (if th_syn h \<or> th_fin h then 1 else 0);
           m4 = upd_stream s (\<lambda>t. t \<lparr> snd_nxt := snd_nxt t + of_nat n \<rparr>) m3 in
       (int n, if n > 0 then AddtoRTOList s (upd_snd s (\<lambda>v. v \<lparr> ts_rto := now + rto v \<rparr>) m4) else m4))"

section \<open>Emptying the send buffer\<close>

text \<open>One turn of the loop of \<^verbatim>\<open>FlushTCPSendingBuffer\<close>; the third component is the result once the loop is
  left, and the local \<^verbatim>\<open>wack_sent\<close> is never read after it is set. \<^verbatim>\<open>payloadlen\<close> is a 16-bit argument. A read
  past the end of the buffer is a fault.\<close>

definition flush_step :: "stack_env \<Rightarrow> sid \<Rightarrow> u32 \<Rightarrow> mtcp_manager \<times> int \<times> int option \<Rightarrow> mtcp_manager \<times> int \<times> int option" where
  "flush_step env s now = (\<lambda>(m, packets, _).
    case sndbuf (snd_v m s) of None \<Rightarrow> (raise NullDeref m, packets, Some packets)
    | Some b \<Rightarrow>
      let v = snd_v m s; sq = snd_nxt (streams m s);
          off = sq - sb_head_seq b; len = sb_len b - off in
      if TCP_SEQ_LT sq (sb_head_seq b) \<or> TCP_SEQ_LT sq (snd_una v) \<or> sb_len b < off
      then (raise AssertFail m, packets, Some packets)
      else if len = 0 then (m, packets, Some packets)
      else
        let rem = sint (min (cwnd v) (peer_wnd v) - (sq - snd_una v)) in
        if rem \<le> 0 \<or> (rem < int (unat (mss v)) \<and> sq - snd_una v > 0)
        then ((if peer_wnd v \<le> cwnd v \<and> TS_TO_MSEC (now - ts_lastack_sent v) > 500
               then EnqueueACK env ACK_OPT_WACK s m else m), packets, Some (- 3))
        else
          let len1 = min len (of_int rem);
              pkt_len = min len1 (of_int (int (unat (mss v)) - int (CalculateOptionLength TCP_FLAG_ACK)));
              payloadlen = unat (ucast pkt_len :: u16);
              start = sb_head b + unat off in
          if length (sb_data b) < start + payloadlen then (raise OutOfBounds m, packets, Some packets)
          else case SendTCPPacket env s now TCP_FLAG_ACK (take payloadlen (drop start (sb_data b))) m of
            (ret, m1) \<Rightarrow> if ret < 0 then (m1, packets, Some (- 3)) else (m1, packets + 1, None))"

definition FlushTCPSendingBuffer :: "stack_env \<Rightarrow> sid \<Rightarrow> u32 \<Rightarrow> mtcp_manager \<Rightarrow> int \<times> mtcp_manager" where
  "FlushTCPSendingBuffer env s now m =
    (case sndbuf (snd_v m s) of None \<Rightarrow> (0, raise AssertFail m)
     | Some b \<Rightarrow>
       if sb_len b = 0 then (0, m)
       else case while_option (\<lambda>(_, _, r). r = None) (flush_step env s now) (m, 0, None) of
         None \<Rightarrow> (0, raise Diverges m)
       | Some (m', packets, r) \<Rightarrow> (the r, m'))"

section \<open>Control packets\<close>

definition SendControlPacket :: "stack_env \<Rightarrow> sid \<Rightarrow> u32 \<Rightarrow> mtcp_manager \<Rightarrow> int \<times> mtcp_manager" where
  "SendControlPacket env s now m =
    (let v = snd_v m s; send = (\<lambda>flags. SendTCPPacket env s now flags []) in
     case st m s of
       TCP_ST_SYN_SENT \<Rightarrow> send TCP_FLAG_SYN m
     | TCP_ST_SYN_RCVD \<Rightarrow> send (TCP_FLAG_SYN OR TCP_FLAG_ACK) (upd_stream s (\<lambda>t. t \<lparr> snd_nxt := iss v \<rparr>) m)
     | TCP_ST_ESTABLISHED \<Rightarrow> send TCP_FLAG_ACK m
     | TCP_ST_CLOSE_WAIT \<Rightarrow> send TCP_FLAG_ACK m
     | TCP_ST_LAST_ACK \<Rightarrow>
         if on_send_list v \<or> on_ack_list v then (- 1, m) else send (TCP_FLAG_FIN OR TCP_FLAG_ACK) m
     | TCP_ST_FIN_WAIT_1 \<Rightarrow>
         if on_send_list v \<or> on_ack_list v then (- 1, m) else send (TCP_FLAG_FIN OR TCP_FLAG_ACK) m
     | TCP_ST_FIN_WAIT_2 \<Rightarrow> send TCP_FLAG_ACK m
     | TCP_ST_CLOSING \<Rightarrow>
         if is_fin_sent v \<and> snd_nxt (streams m s) \<noteq> fss v then send TCP_FLAG_ACK m
         else send (TCP_FLAG_FIN OR TCP_FLAG_ACK) m
     | TCP_ST_TIME_WAIT \<Rightarrow> send TCP_FLAG_ACK m
     | TCP_ST_CLOSED \<Rightarrow>
         if on_send_list v \<or> on_ack_list v then (- 1, m)
         else (case send TCP_FLAG_RST m of (ret, m1) \<Rightarrow>
                 (ret, if ret \<ge> 0 then DestroyTCPStream env s m1 else m1))
     | TCP_ST_LISTEN \<Rightarrow> (0, m))"

section \<open>The loops over a sender's lists\<close>

text \<open>\<^verbatim>\<open>TAILQ_NEXT\<close>.\<close>

definition tq_next :: "'a list \<Rightarrow> 'a \<Rightarrow> 'a option" where
  "tq_next xs x = (case dropWhile (\<lambda>y. y \<noteq> x) xs of _ # y # _ \<Rightarrow> Some y | _ \<Rightarrow> None)"

definition tq_last :: "'a list \<Rightarrow> 'a option" where
  "tq_last xs = (if xs = [] then None else Some (last xs))"

definition tq_first :: "'a list \<Rightarrow> 'a option" where
  "tq_first xs = (case xs of [] \<Rightarrow> None | x # _ \<Rightarrow> Some x)"

text \<open>The loops take the number of turns left, the stream they are at and the stream they stop after. A turn
  returns whether the loop breaks.\<close>

definition control_turn :: "stack_env \<Rightarrow> int \<Rightarrow> u32 \<Rightarrow> sid \<Rightarrow> mtcp_manager \<Rightarrow> bool \<times> mtcp_manager" where
  "control_turn env e now s m =
    (let m1 = tq_remove s (control_list (senders m e))
                (\<lambda>ys. upd_sender e (\<lambda>x. x \<lparr> control_list := ys, control_list_cnt := control_list_cnt x - 1 \<rparr>)) m in
     if on_control_list (snd_v m1 s)
     then case SendControlPacket env s now (upd_snd s (\<lambda>v. v \<lparr> on_control_list := False \<rparr>) m1) of (ret, m2) \<Rightarrow>
       if ret = - 2
       then (True, upd_sender e (\<lambda>x. x \<lparr> control_list := s # control_list x, control_list_cnt := control_list_cnt x + 1 \<rparr>)
                     (upd_snd s (\<lambda>v. v \<lparr> on_control_list := True \<rparr>) m2))
       else if ret < 0
       then (False, upd_sender e (\<lambda>x. x \<lparr> control_list := control_list x @ [s], control_list_cnt := control_list_cnt x + 1 \<rparr>)
                      (upd_snd s (\<lambda>v. v \<lparr> on_control_list := True \<rparr>) m2))
       else (False, m2)
     else (False, m1))"

fun control_loop :: "stack_env \<Rightarrow> int \<Rightarrow> u32 \<Rightarrow> sid option \<Rightarrow> nat \<Rightarrow> sid option \<Rightarrow> mtcp_manager \<Rightarrow> mtcp_manager" where
  "control_loop env e now lst n None m = m"
| "control_loop env e now lst 0 (Some s) m = m"
| "control_loop env e now lst (Suc n) (Some s) m =
    (let next = tq_next (control_list (senders m e)) s in
     case control_turn env e now s m of (brk, m1) \<Rightarrow>
       if brk \<or> lst = Some s then m1 else control_loop env e now lst n next m1)"

definition WriteTCPControlList :: "stack_env \<Rightarrow> int \<Rightarrow> u32 \<Rightarrow> int \<Rightarrow> mtcp_manager \<Rightarrow> mtcp_manager" where
  "WriteTCPControlList env e now thresh m =
    (let xs = control_list (senders m e) in
     control_loop env e now (tq_last xs) (nat (min thresh (control_list_cnt (senders m e)))) (tq_first xs) m)"

definition data_turn :: "stack_env \<Rightarrow> int \<Rightarrow> u32 \<Rightarrow> sid \<Rightarrow> mtcp_manager \<Rightarrow> bool \<times> mtcp_manager" where
  "data_turn env e now s m =
    (let m1 = tq_remove s (send_list (senders m e)) (\<lambda>ys. upd_sender e (\<lambda>x. x \<lparr> send_list := ys \<rparr>)) m in
     if on_send_list (snd_v m1 s)
     then
       case (if st m1 s = TCP_ST_ESTABLISHED
             then if on_control_list (snd_v m1 s) then (- 1, m1) else FlushTCPSendingBuffer env s now m1
             else if st m1 s = TCP_ST_CLOSE_WAIT \<or> st m1 s = TCP_ST_FIN_WAIT_1 \<or> st m1 s = TCP_ST_LAST_ACK
             then FlushTCPSendingBuffer env s now m1
             else (0, m1)) of (ret, m2) \<Rightarrow>
         if ret < 0 then (True, upd_sender e (\<lambda>x. x \<lparr> send_list := send_list x @ [s] \<rparr>) m2)
         else
           let m3 = upd_sender e (\<lambda>x. x \<lparr> send_list_cnt := send_list_cnt x - 1 \<rparr>)
                      (upd_snd s (\<lambda>v. v \<lparr> on_send_list := False \<rparr>) m2);
               m4 = upd_snd s (\<lambda>v. v \<lparr> ack_cnt := ack_cnt v - nat ret \<rparr>) m3 in
           (False, if control_list_waiting (streams m4 s) \<and> \<not> on_ack_list (snd_v m4 s)
                   then AddtoControlList env s (upd_stream s (\<lambda>t. t \<lparr> control_list_waiting := False \<rparr>) m4)
                   else m4)
     else (False, m1))"

fun data_loop :: "stack_env \<Rightarrow> int \<Rightarrow> u32 \<Rightarrow> sid option \<Rightarrow> nat \<Rightarrow> sid option \<Rightarrow> mtcp_manager \<Rightarrow> mtcp_manager" where
  "data_loop env e now lst n None m = m"
| "data_loop env e now lst 0 (Some s) m = m"
| "data_loop env e now lst (Suc n) (Some s) m =
    (let next = tq_next (send_list (senders m e)) s in
     case data_turn env e now s m of (brk, m1) \<Rightarrow>
       if brk \<or> lst = Some s then m1 else data_loop env e now lst n next m1)"

definition WriteTCPDataList :: "stack_env \<Rightarrow> int \<Rightarrow> u32 \<Rightarrow> int \<Rightarrow> mtcp_manager \<Rightarrow> mtcp_manager" where
  "WriteTCPDataList env e now thresh m =
    (let xs = send_list (senders m e) in data_loop env e now (tq_last xs) (nat thresh) (tq_first xs) m)"

text \<open>The acks that are due, one segment each, until the device refuses.\<close>

fun ack_loop :: "stack_env \<Rightarrow> sid \<Rightarrow> u32 \<Rightarrow> nat \<Rightarrow> mtcp_manager \<Rightarrow> mtcp_manager" where
  "ack_loop env s now 0 m = m"
| "ack_loop env s now (Suc n) m =
    (case SendTCPPacket env s now TCP_FLAG_ACK [] m of (ret, m1) \<Rightarrow>
       if ret < 0 then m1 else ack_loop env s now n (upd_snd s (\<lambda>v. v \<lparr> ack_cnt := ack_cnt v - 1 \<rparr>) m1))"

definition to_ack :: "tcp_stream \<Rightarrow> bool" where
  "to_ack t \<longleftrightarrow>
    (state t = TCP_ST_ESTABLISHED \<or> state t = TCP_ST_CLOSE_WAIT \<or> state t = TCP_ST_FIN_WAIT_1 \<or>
     state t = TCP_ST_FIN_WAIT_2 \<or> state t = TCP_ST_TIME_WAIT) \<and>
    (case rcvbuf (rcvvar t) of None \<Rightarrow> False
     | Some b \<Rightarrow> TCP_SEQ_LEQ (rcv_nxt t) (rb_head_seq b + rb_merged_len b))"

definition unlink_ack :: "int \<Rightarrow> sid \<Rightarrow> mtcp_manager \<Rightarrow> mtcp_manager" where
  "unlink_ack e s m = tq_remove s (ack_list (senders m e))
     (\<lambda>ys. upd_sender e (\<lambda>x. x \<lparr> ack_list := ys, ack_list_cnt := ack_list_cnt x - 1 \<rparr>)) m"

text \<open>The acks of one stream and then the segment that asks for a window.\<close>

definition send_acks :: "stack_env \<Rightarrow> sid \<Rightarrow> u32 \<Rightarrow> mtcp_manager \<Rightarrow> mtcp_manager" where
  "send_acks env s now m =
    (let m1 = ack_loop env s now (ack_cnt (snd_v m s)) m in
     if is_wack (snd_v m1 s)
     then (case SendTCPPacket env s now (TCP_FLAG_ACK OR TCP_FLAG_WACK) []
                  (upd_snd s (\<lambda>v. v \<lparr> is_wack := False \<rparr>) m1) of (ret, m2) \<Rightarrow>
             if ret < 0 then upd_snd s (\<lambda>v. v \<lparr> is_wack := True \<rparr>) m2 else m2)
     else m1)"

definition ack_turn :: "stack_env \<Rightarrow> int \<Rightarrow> u32 \<Rightarrow> sid \<Rightarrow> mtcp_manager \<Rightarrow> mtcp_manager" where
  "ack_turn env e now s m =
    (if on_ack_list (snd_v m s)
     then
       let m3 =
         (if to_ack (streams m s)
          then
            let m2 = send_acks env s now m in
            if ack_cnt (snd_v m2 s) = 0 \<and> \<not> is_wack (snd_v m2 s)
            then unlink_ack e s (upd_snd s (\<lambda>v. v \<lparr> on_ack_list := False \<rparr>) m2) else m2
          else unlink_ack e s (upd_snd s (\<lambda>v. v \<lparr> on_ack_list := False, ack_cnt := 0, is_wack := False \<rparr>) m)) in
       if control_list_waiting (streams m3 s) \<and> \<not> on_send_list (snd_v m3 s)
       then AddtoControlList env s (upd_stream s (\<lambda>t. t \<lparr> control_list_waiting := False \<rparr>) m3) else m3
     else unlink_ack e s m)"

fun ack_list_loop :: "stack_env \<Rightarrow> int \<Rightarrow> u32 \<Rightarrow> sid option \<Rightarrow> nat \<Rightarrow> sid option \<Rightarrow> mtcp_manager \<Rightarrow> mtcp_manager" where
  "ack_list_loop env e now lst n None m = m"
| "ack_list_loop env e now lst 0 (Some s) m = m"
| "ack_list_loop env e now lst (Suc n) (Some s) m =
    (let next = tq_next (ack_list (senders m e)) s;
         m1 = ack_turn env e now s m in
     if lst = Some s then m1 else ack_list_loop env e now lst n next m1)"

definition WriteTCPACKList :: "stack_env \<Rightarrow> int \<Rightarrow> u32 \<Rightarrow> int \<Rightarrow> mtcp_manager \<Rightarrow> mtcp_manager" where
  "WriteTCPACKList env e now thresh m =
    (let xs = ack_list (senders m e) in ack_list_loop env e now (tq_last xs) (nat thresh) (tq_first xs) m)"

section \<open>Output keeps the lists\<close>

text \<open>Operations that touch neither the lists nor the flow table.\<close>

definition frame_eq :: "mtcp_manager \<Rightarrow> mtcp_manager \<Rightarrow> bool" where
  "frame_eq m m' \<longleftrightarrow> same_lists m m' \<and> same_flows m m'"

lemma okp_frame: "frame_eq m m' \<Longrightarrow> okp env L m \<Longrightarrow> okp env L m'"
  using okp_cong [of m m'] by (simp add: frame_eq_def)

lemma frame_eq_refl [simp]: "frame_eq m m"
  by (simp add: frame_eq_def)

lemma frame_eq_trans: "frame_eq m m' \<Longrightarrow> frame_eq m' m'' \<Longrightarrow> frame_eq m m''"
  using same_lists_trans same_flows_trans by (auto simp: frame_eq_def)

lemma frame_eq_raise [simp]: "frame_eq m m' \<Longrightarrow> frame_eq m (raise e m')"
  by (rule frame_eq_trans, assumption) (simp add: frame_eq_def)

lemma frame_eq_fields [simp]:
  "frame_eq m (m' \<lparr> tx := x1 \<rparr>) = frame_eq m m'" "frame_eq m (m' \<lparr> wptr_calls := x2 \<rparr>) = frame_eq m m'"
  "frame_eq m (m' \<lparr> arp_entries := x3 \<rparr>) = frame_eq m m'" "frame_eq m (m' \<lparr> arp_queue := x4 \<rparr>) = frame_eq m m'"
  by (simp_all add: frame_eq_def same_lists_def same_flows_def timer_view_def)

lemma frame_eq_emit [simp]: "frame_eq m m' \<Longrightarrow> frame_eq m (emit f m')"
  by (simp add: emit_def)

lemma frame_eq_upd_stream:
  "frame_eq m m' \<Longrightarrow> (\<And>t. stream_view (f t) = stream_view t) \<Longrightarrow> (\<And>t. flow_key (f t) = flow_key t) \<Longrightarrow> frame_eq m (upd_stream s f m')"
  by (rule frame_eq_trans, assumption)
    (simp add: frame_eq_def same_lists_upd_stream, rule same_flows_upd_stream, simp_all add: stream_view_def)

lemma frame_eq_upd_snd [simp]:
  "frame_eq m m' \<Longrightarrow> (\<And>v. (on_control_list (f v), on_send_list (f v), on_ack_list (f v), nif_out (f v)) =
    (on_control_list v, on_send_list v, on_ack_list v, nif_out v)) \<Longrightarrow> frame_eq m (upd_snd s f m')"
  unfolding upd_snd_def by (erule frame_eq_upd_stream) (simp_all add: stream_view_def flow_key_def)

lemma frame_eq_EthernetOutput: "EthernetOutput env h nif haddr m = (x, m1) \<Longrightarrow> frame_eq m m1"
  by (auto simp: EthernetOutput_def Let_def split: if_splits)

lemma frame_eq_ARPOutput: "frame_eq m0 m \<Longrightarrow> frame_eq m0 (snd (ARPOutput env nif op ip dst target m))"
  by (erule frame_eq_trans) (auto simp: ARPOutput_def Let_def dest: frame_eq_EthernetOutput split: prod.splits option.splits)

lemma frame_eq_RequestARP: "frame_eq m (RequestARP env ip nif now m)"
  by (simp add: RequestARP_def Let_def frame_eq_ARPOutput)

lemma frame_eq_IPOutputStandalone: "IPOutputStandalone env protocol idn sa da len m = (x, m1) \<Longrightarrow> frame_eq m m1"
  by (auto simp: IPOutputStandalone_def frame_eq_RequestARP dest: frame_eq_EthernetOutput
      split: if_splits prod.splits option.splits sum.splits)

lemma frame_eq_IPOutput: "IPOutput env s len m = (x, m1) \<Longrightarrow> 0 \<le> nif_out (snd_v m s) \<Longrightarrow> frame_eq m m1"
  by (auto simp: IPOutput_def Let_def frame_eq_RequestARP dest: frame_eq_EthernetOutput
      split: if_splits prod.splits option.splits sum.splits)

text \<open>
  \<^verbatim>\<open>WriteTCPDataList\<close> flushes a stream while it is unlinked from the send list but still flagged. The rules below
  are stated for the state seen through a map \<open>R\<close>: the identity, or the map that puts the stream back.
\<close>

definition lifts :: "(mtcp_manager \<Rightarrow> mtcp_manager) \<Rightarrow> bool" where
  "lifts R \<longleftrightarrow> (\<forall>m. streams (R m) = streams m) \<and> (\<forall>m m'. frame_eq m m' \<longrightarrow> frame_eq (R m) (R m')) \<and>
     (\<forall>s m. R (UpdateTimeoutList s m) = UpdateTimeoutList s (R m)) \<and> (\<forall>s m. R (AddtoRTOList s m) = AddtoRTOList s (R m)) \<and>
     (\<forall>env s m. R (AddtoACKList env s m) = AddtoACKList env s (R m))"

definition okpR :: "(mtcp_manager \<Rightarrow> mtcp_manager) \<Rightarrow> stack_env \<Rightarrow> (sid \<Rightarrow> bool) \<Rightarrow> mtcp_manager \<Rightarrow> bool" where
  "okpR R env L m \<longleftrightarrow> lifts R \<and> okp env L (R m)"

lemma lifts_id: "lifts (\<lambda>m. m)"
  by (simp add: lifts_def)

lemma okpR_id: "okpR (\<lambda>m. m) env L m = okp env L m"
  by (simp add: okpR_def lifts_id)

definition relink :: "int \<Rightarrow> sid \<Rightarrow> mtcp_manager \<Rightarrow> mtcp_manager" where
  "relink e s = upd_sender e (\<lambda>x. x \<lparr> send_list := send_list x @ [s] \<rparr>)"

lemma frame_eq_upd_sender: "frame_eq m m' \<Longrightarrow> frame_eq (upd_sender e f m) (upd_sender e f m')"
  by (simp add: frame_eq_def same_lists_def same_flows_def upd_sender_def timer_view_def)

lemma relink_simps:
  "streams (relink e s m) = streams m" "rto_list (relink e s m) = rto_list m" "rto_list_cnt (relink e s m) = rto_list_cnt m"
  "rto_now_idx (relink e s m) = rto_now_idx m" "rto_now_ts (relink e s m) = rto_now_ts m" "timeout_list (relink e s m) = timeout_list m"
  "upd_stream u f (relink e s m) = relink e s (upd_stream u f m)" "upd_snd u g (relink e s m) = relink e s (upd_snd u g m)"
  "raise err (relink e s m) = relink e s (raise err m)"
  "(relink e s m) \<lparr> rto_list := x1 \<rparr> = relink e s (m \<lparr> rto_list := x1 \<rparr>)"
  "(relink e s m) \<lparr> rto_list_cnt := x2 \<rparr> = relink e s (m \<lparr> rto_list_cnt := x2 \<rparr>)"
  "(relink e s m) \<lparr> rto_now_idx := x3 \<rparr> = relink e s (m \<lparr> rto_now_idx := x3 \<rparr>)"
  "(relink e s m) \<lparr> rto_now_ts := x4 \<rparr> = relink e s (m \<lparr> rto_now_ts := x4 \<rparr>)"
  "(relink e s m) \<lparr> timeout_list := x5 \<rparr> = relink e s (m \<lparr> timeout_list := x5 \<rparr>)"
  "GetSender env (relink e s m) u = GetSender env m u"
  by (simp_all add: relink_def upd_sender_def m_simps raise_def GetSender_def split: option.split)

lemma relink_upd_sender:
  "(\<And>x. h (x \<lparr> send_list := send_list x @ [s] \<rparr>) = (h x) \<lparr> send_list := send_list (h x) @ [s] \<rparr>) \<Longrightarrow>
    upd_sender e' h (relink e s m) = relink e s (upd_sender e' h m)"
  by (cases "e = e'") (simp_all add: relink_def upd_sender_def fun_upd_twist)

lemma relink_AddtoACKList: "relink e s (AddtoACKList env u m) = AddtoACKList env u (relink e s m)"
  by (simp add: AddtoACKList_def relink_simps relink_upd_sender split: option.split)

lemma relink_UpdateTimeoutList: "relink e s (UpdateTimeoutList u m) = UpdateTimeoutList u (relink e s m)"
  by (simp add: UpdateTimeoutList_def tq_remove_def relink_simps split: sum.split)

lemma relink_AddtoRTOList: "relink e s (AddtoRTOList u m) = AddtoRTOList u (relink e s m)"
  by (simp add: AddtoRTOList_def Let_def set_rto_list_def relink_simps)

lemma lifts_relink: "lifts (relink e s)"
  by (simp add: lifts_def relink_AddtoACKList relink_UpdateTimeoutList relink_AddtoRTOList)
    (simp add: relink_def frame_eq_upd_sender)

lemma okpR_frame: "okpR R env L m \<Longrightarrow> frame_eq m m' \<Longrightarrow> okpR R env L m'"
  unfolding okpR_def lifts_def using okp_frame by metis

lemma okpR_streams: "okpR R env L m \<Longrightarrow> streams (R m) = streams m"
  unfolding okpR_def lifts_def by blast

lemma okpR_live: "okpR R env L m \<Longrightarrow> live m s = L s"
  using okp_live [of env L "R m" s] okpR_streams [of R env L m] by (simp add: okpR_def)

lemma okpR_nif:
  assumes "okpR R env L m" "L s"
  shows "0 \<le> nif_out (snd_v m s)"
proof -
  have "okp env L (R m)" using assms(1) by (simp add: okpR_def)
  then have "routed (R m)" "live (R m) s" using assms(2) by (auto simp: okp_def stack_inv_def)
  then show ?thesis using okpR_streams [OF assms(1)] by (auto simp: routed_def)
qed

lemma okpR_lists:
  assumes "okpR R env L m" "L s"
  shows "okpR R env L (UpdateTimeoutList s m)" "okpR R env L (AddtoRTOList s m)" "okpR R env L (AddtoACKList env s m)"
proof -
  have R: "lifts R" "okp env L (R m)" using assms by (simp_all add: okpR_def)
  then have "R (UpdateTimeoutList s m) = UpdateTimeoutList s (R m)" "R (AddtoRTOList s m) = AddtoRTOList s (R m)"
    "R (AddtoACKList env s m) = AddtoACKList env s (R m)" unfolding lifts_def by blast+
  then show "okpR R env L (UpdateTimeoutList s m)" "okpR R env L (AddtoRTOList s m)" "okpR R env L (AddtoACKList env s m)"
    using R assms(2) by (simp_all add: okpR_def okp_rules)
qed

lemma okpR_EnqueueACK: "okpR R env L m \<Longrightarrow> L s \<Longrightarrow> okpR R env L (EnqueueACK env opt s m)"
  unfolding EnqueueACK_def by (rule okpR_lists(3), erule okpR_frame) (auto split: ack_opt.split)

lemma okpR_note_sent:
  assumes ok: "okpR R env L m" and s: "L s"
  shows "okpR R env L (note_sent now flags s m)"
proof -
  have f: "frame_eq m' (upd_stream s (\<lambda>t. t \<lparr> need_wnd_adv := True \<rparr>) m')"
      "frame_eq m' (upd_stream s (\<lambda>t. t \<lparr> last_active_ts := now \<rparr>) m')" for m'
    by (rule frame_eq_upd_stream; simp add: stream_view_def flow_key_def)+
  have g: "frame_eq m' (upd_snd s (\<lambda>v. v \<lparr> is_fin_sent := True \<rparr>) m')" "frame_eq m' (upd_snd s (\<lambda>v. v \<lparr> ts_lastack_sent := now \<rparr>) m')" for m'
    by simp_all
  show ?thesis
    by (simp add: note_sent_def Let_def ok s okpR_lists okpR_frame [OF _ f(1)] okpR_frame [OF _ f(2)] okpR_frame [OF _ g(1)] okpR_frame [OF _ g(2)])
qed

lemma okpR_SendTCPPacket:
  assumes ok: "okpR R env L m" and s: "L s" and r: "SendTCPPacket env s now flags payload m = (ret, m')"
  shows "okpR R env L m'"
proof -
  have f: "frame_eq m' (upd_stream s (\<lambda>t. t \<lparr> snd_nxt := snd_nxt t + k \<rparr>) m')" for m' k
    by (rule frame_eq_upd_stream; simp add: stream_view_def flow_key_def)
  have g: "frame_eq m' (upd_snd s (\<lambda>v. v \<lparr> ts_rto := now + rto v \<rparr>) m')" "frame_eq m' (emit x m')" for m' x
    by simp_all
  show ?thesis
  proof (cases "length payload + CalculateOptionLength flags > unat (mss (snd_v m s))")
    case True
    then show ?thesis using r ok by (simp add: SendTCPPacket_def)
  next
    case False
    obtain x m1 where ip: "IPOutput env s (of_nat (TCP_HEADER_LEN + CalculateOptionLength flags + length payload)) m = (x, m1)"
      by fastforce
    then have ok1: "okpR R env L m1" using okpR_frame [OF ok frame_eq_IPOutput] okpR_nif [OF ok s] by blast
    show ?thesis
    proof (cases x)
      case None
      then show ?thesis using r ip ok1 False by (simp add: SendTCPPacket_def Let_def)
    next
      case (Some fr)
      obtain dev pre where fr: "fr = (dev, pre)" by (cases fr)
      have z: "upd_stream s (\<lambda>t. t) m' = m'" for m' by (simp add: upd_stream_def)
      show ?thesis using r ip Some fr False
        by (auto simp: SendTCPPacket_def Let_def z ok1 s okpR_lists okpR_note_sent okpR_frame [OF _ f] okpR_frame [OF _ g(1)] okpR_frame [OF _ g(2)])
    qed
  qed
qed

section \<open>Operations on one stream leave the others alone\<close>

definition only :: "sid \<Rightarrow> mtcp_manager \<Rightarrow> mtcp_manager \<Rightarrow> bool" where
  "only s m m' \<longleftrightarrow> (\<forall>u. u \<noteq> s \<longrightarrow> streams m' u = streams m u)"

lemma onlyD: "only s m m' \<Longrightarrow> u \<noteq> s \<Longrightarrow> streams m' u = streams m u"
  by (simp add: only_def)

lemma only_trans: "only s m m' \<Longrightarrow> only s m' m'' \<Longrightarrow> only s m m''"
  by (simp add: only_def)

lemma only_refl [simp]: "only s m m"
  by (simp add: only_def)

lemma only_same: "streams m' = streams m'' \<Longrightarrow> only s m m' = only s m m''"
  by (simp add: only_def)

named_theorems only_rules \<open>operations that touch one stream\<close>

lemma only_basic [only_rules]:
  "only s m m' \<Longrightarrow> only s m (upd_stream s f m')" "only s m m' \<Longrightarrow> only s m (upd_snd s g m')"
  "only s m m' \<Longrightarrow> only s m (upd_rcv s h m')" "only s m m' \<Longrightarrow> only s m (raise e m')"
  "only s m m' \<Longrightarrow> only s m (upd_sender i k m')" "only s m m' \<Longrightarrow> only s m (emit fr m')"
  by (simp_all add: only_def upd_sender_def emit_def)

lemma only_tq_remove: "only s m m' \<Longrightarrow> (\<And>ys. only s m (store ys m')) \<Longrightarrow> only s m (tq_remove s' xs store m')"
  by (simp add: tq_remove_def only_basic split: sum.split)

lemma only_fields [simp]:
  "only s m (m' \<lparr> rto_list := x1 \<rparr>) = only s m m'" "only s m (m' \<lparr> timewait_list := x2 \<rparr>) = only s m m'"
  "only s m (m' \<lparr> timeout_list := x3 \<rparr>) = only s m m'" "only s m (m' \<lparr> rto_list_cnt := y1 \<rparr>) = only s m m'"
  "only s m (m' \<lparr> timewait_list_cnt := y2 \<rparr>) = only s m m'" "only s m (m' \<lparr> timeout_list_cnt := y3 \<rparr>) = only s m m'"
  "only s m (m' \<lparr> rto_now_idx := z1 \<rparr>) = only s m m'" "only s m (m' \<lparr> rto_now_ts := z2 \<rparr>) = only s m m'"
  "only s m (m' \<lparr> flow_table := z3 \<rparr>) = only s m m'" "only s m (m' \<lparr> flow_pool := z4 \<rparr>) = only s m m'"
  "only s m (m' \<lparr> rv_pool := z5 \<rparr>) = only s m m'" "only s m (m' \<lparr> sv_pool := z6 \<rparr>) = only s m m'"
  "only s m (m' \<lparr> flow_cnt := z7 \<rparr>) = only s m m'" "only s m (m' \<lparr> rbm_snd := z8 \<rparr>) = only s m m'"
  "only s m (m' \<lparr> rbm_rcv := z9 \<rparr>) = only s m m'" "only s m (m' \<lparr> ap_core := w1 \<rparr>) = only s m m'"
  "only s m (m' \<lparr> ap_dev := w2 \<rparr>) = only s m m'"
  by (simp_all add: only_def)

lemma only_sender_ops [only_rules]:
  assumes "only s m m'"
  shows "only s m (AddtoControlList env s m')" "only s m (AddtoSendList env s m')" "only s m (AddtoACKList env s m')"
    "only s m (RemoveFromControlList env s m')" "only s m (RemoveFromSendList env s m')" "only s m (RemoveFromACKList env s m')"
  using assms
  by (auto simp: AddtoControlList_def AddtoSendList_def AddtoACKList_def RemoveFromControlList_def
      RemoveFromSendList_def RemoveFromACKList_def only_basic split: option.split intro!: only_tq_remove)

lemma only_RTO [only_rules]:
  assumes "only s m m'"
  shows "only s m (AddtoRTOList s m')" "only s m (RemoveFromRTOList s m')"
  using assms by (auto simp: AddtoRTOList_def RemoveFromRTOList_def Let_def set_rto_list_def only_basic intro!: only_tq_remove)

lemma only_timer_ops [only_rules]:
  assumes "only s m m'"
  shows "only s m (AddtoTimewaitList env now s m')" "only s m (RemoveFromTimewaitList s m')" "only s m (AddtoTimeoutList s m')"
    "only s m (RemoveFromTimeoutList s m')" "only s m (UpdateTimeoutList s m')" "only s m (UpdateRetransmissionTimer now s m')"
  using assms
  by (auto simp: AddtoTimewaitList_def RemoveFromTimewaitList_def AddtoTimeoutList_def RemoveFromTimeoutList_def
      UpdateTimeoutList_def UpdateRetransmissionTimer_def Let_def only_basic only_RTO intro!: only_tq_remove)

lemma only_EnqueueACK [only_rules]: "only s m m' \<Longrightarrow> only s m (EnqueueACK env opt s m')"
  by (simp add: EnqueueACK_def only_rules split: ack_opt.split)

lemma only_frees [only_rules]:
  assumes "only s m m'"
  shows "only s m (free_flow a m')" "only s m (free_rv a m')" "only s m (free_sv a m')"
    "only s m (StreamHTRemove s m')" "only s m (free_buffers s m')" "only s m (release_address env ad m')" "only s m (leave_lists env s m')"
  using assms
  by (simp_all add: free_flow_def free_rv_def free_sv_def StreamHTRemove_def free_buffers_def release_address_def
      free_address_def leave_lists_def Let_def only_rules only_tq_remove split: sum.split option.split)

lemma only_DestroyTCPStream [only_rules]: "only s m m' \<Longrightarrow> only s m (DestroyTCPStream env s m')"
  by (simp add: DestroyTCPStream_def Let_def only_rules)

lemma streams_EthernetOutput: "EthernetOutput env h nif haddr m = (x, m1) \<Longrightarrow> streams m1 = streams m"
  by (auto simp: EthernetOutput_def Let_def split: if_splits)

lemma streams_RequestARP [simp]: "streams (RequestARP env ip nif now m) = streams m"
  by (auto simp: RequestARP_def ARPOutput_def Let_def emit_def dest: streams_EthernetOutput split: prod.splits option.splits)

lemma only_IPOutput: "only s m0 m \<Longrightarrow> IPOutput env s len m = (x, m1) \<Longrightarrow> only s m0 m1"
  by (auto simp: IPOutput_def Let_def only_def dest!: streams_EthernetOutput
      split: if_splits prod.splits option.splits sum.splits)

lemma only_note_sent [only_rules]: "only s m m' \<Longrightarrow> only s m (note_sent now flags s m')"
  by (simp add: note_sent_def Let_def only_rules)

lemma only_SendTCPPacket: "only s m0 m \<Longrightarrow> SendTCPPacket env s now flags payload m = (ret, m1) \<Longrightarrow> only s m0 m1"
  by (auto simp: SendTCPPacket_def Let_def only_rules dest: only_IPOutput split: if_splits prod.splits option.splits)

section \<open>The write loops keep the invariant\<close>

lemma flush_step_ok:
  assumes "okpR R env L (fst st0)" "L s" "only s m0 (fst st0)"
  shows "okpR R env L (fst (flush_step env s now st0)) \<and> only s m0 (fst (flush_step env s now st0))"
proof -
  obtain m packets q where st: "st0 = (m, packets, q)" by (cases st0)
  have ok: "okpR R env L m" "only s m0 m" using assms st by simp_all
  have r: "okpR R env L (raise e m)" for e by (rule okpR_frame [OF ok(1)]) simp
  have a: "okpR R env L (EnqueueACK env ACK_OPT_WACK s m)" by (rule okpR_EnqueueACK [OF ok(1) assms(2)])
  have snd: "okpR R env L m1 \<and> only s m0 m1" if "SendTCPPacket env s now TCP_FLAG_ACK p m = (ret, m1)" for p ret m1
    using okpR_SendTCPPacket [OF ok(1) assms(2) that] only_SendTCPPacket [OF ok(2) that] by simp
  show ?thesis
    by (auto simp: flush_step_def st Let_def ok r a only_rules split: option.split prod.split dest: snd)
qed

lemma FlushTCPSendingBuffer_ok:
  assumes "okpR R env L m" "L s" "only s m0 m" "FlushTCPSendingBuffer env s now m = (ret, m')"
  shows "okpR R env L m' \<and> only s m0 m'"
proof -
  have r: "okpR R env L (raise e m)" "only s m0 (raise e m)" for e
    using assms(1,3) by (auto intro: okpR_frame simp: only_rules)
  have "okpR R env L (fst w) \<and> only s m0 (fst w)"
    if "while_option (\<lambda>(_, _, r). r = None) (flush_step env s now) (m, 0, None) = Some w" for w
    by (rule while_option_rule [OF _ that]) (use flush_step_ok assms in auto)
  then show ?thesis
    using assms r by (auto simp: FlushTCPSendingBuffer_def split: option.splits if_splits prod.splits)
qed

lemma okp_SendTCPPacket:
  "okp env L m \<Longrightarrow> L s \<Longrightarrow> SendTCPPacket env s now flags payload m = (ret, m') \<Longrightarrow> okp env L m'"
  using okpR_SendTCPPacket [of "\<lambda>m. m"] by (simp add: okpR_id)

lemma SendTCPPacket_fail:
  assumes "SendTCPPacket env s now flags payload m = (ret, m')" "ret < 0" "0 \<le> nif_out (snd_v m s)"
  shows "frame_eq m m'"
  using assms by (auto simp: SendTCPPacket_def Let_def split: if_splits prod.splits option.splits dest: frame_eq_IPOutput)

lemma SendControlPacket_ok:
  assumes ok: "okp env L m" and s: "L s" and r: "SendControlPacket env s now m = (ret, m')"
  shows "only s m m' \<and> (\<exists>l. okp env (L(s := l)) m') \<and> (ret < 0 \<longrightarrow> frame_eq m m')"
proof -
  let ?m1 = "upd_stream s (\<lambda>t. t \<lparr> snd_nxt := iss (snd_v m s) \<rparr>) m"
  have L: "L(s := True) = L" using s by (simp add: fun_upd_idem_iff)
  have n: "0 \<le> nif_out (snd_v m s)" using okpR_nif [of "\<lambda>m. m"] ok s by (simp add: okpR_id)
  have f: "frame_eq m ?m1" by (rule frame_eq_upd_stream) (simp_all add: stream_view_def flow_key_def)
  have P: "only s m m'' \<and> okp env (L(s := True)) m'' \<and> (ret' < 0 \<longrightarrow> frame_eq m m'')"
    if "SendTCPPacket env s now flags [] m = (ret', m'')" for flags ret' m''
    using okp_SendTCPPacket [of env L, OF ok s that] only_SendTCPPacket [OF only_refl that] SendTCPPacket_fail [OF that _ n] L
    by simp
  have Q: "only s m m'' \<and> okp env (L(s := True)) m'' \<and> (ret' < 0 \<longrightarrow> frame_eq m m'')"
    if q: "SendTCPPacket env s now flags [] ?m1 = (ret', m'')" for flags ret' m''
    using okp_SendTCPPacket [of env L, OF okp_frame [OF f ok] s q] only_SendTCPPacket [OF _ q, of m] SendTCPPacket_fail [OF q] n
      L frame_eq_trans [OF f]
    by (simp add: only_rules)
  have D: "only s m (DestroyTCPStream env s m'') \<and> okp env (L(s := False)) (DestroyTCPStream env s m'')"
    if "SendTCPPacket env s now flags [] m = (ret', m'')" for flags ret' m''
    using P [OF that] okp_DestroyTCPStream s L by (simp add: only_rules)
  have Z: "\<exists>l. okp env (L(s := l)) m" by (rule exI [of _ True]) (simp add: L ok)
  have PD: "only s m m'' \<and> okp env (L(s := True)) m'' \<and> (ret' < 0 \<longrightarrow> frame_eq m m'') \<and>
      only s m (DestroyTCPStream env s m'') \<and> okp env (L(s := False)) (DestroyTCPStream env s m'')"
    if "SendTCPPacket env s now flags [] m = (ret', m'')" for flags ret' m''
    using P [OF that] D [OF that] by blast
  show ?thesis
    using r Z
    by (auto simp: SendControlPacket_def Let_def split: tcp_state.splits if_splits prod.splits dest!: PD Q)
qed

lemma upd_snd_sender: "upd_snd s g (upd_sender e f m) = upd_sender e f (upd_snd s g m)"
  by (simp add: upd_sender_def m_simps)

lemma okp_sender_list:
  assumes "okp env L m"
  shows "u \<in> set (control_list (senders m e)) \<longleftrightarrow> L u \<and> on_control_list (snd_v m u) \<and> GetSender env m u = Some e"
    "u \<in> set (send_list (senders m e)) \<longleftrightarrow> L u \<and> on_send_list (snd_v m u) \<and> GetSender env m u = Some e"
    "u \<in> set (ack_list (senders m e)) \<longleftrightarrow> L u \<and> on_ack_list (snd_v m u) \<and> GetSender env m u = Some e"
    "distinct (control_list (senders m e))" "distinct (send_list (senders m e))" "distinct (ack_list (senders m e))"
proof -
  have "sender_ok env m e" "live m = L" using assms by (auto simp: okp_def stack_inv_def lists_ok_def)
  then show "u \<in> set (control_list (senders m e)) \<longleftrightarrow> L u \<and> on_control_list (snd_v m u) \<and> GetSender env m u = Some e"
    "u \<in> set (send_list (senders m e)) \<longleftrightarrow> L u \<and> on_send_list (snd_v m u) \<and> GetSender env m u = Some e"
    "u \<in> set (ack_list (senders m e)) \<longleftrightarrow> L u \<and> on_ack_list (snd_v m u) \<and> GetSender env m u = Some e"
    "distinct (control_list (senders m e))" "distinct (send_list (senders m e))" "distinct (ack_list (senders m e))"
    by (auto simp: sender_ok_def listed_def list_sets)
qed

lemma okp_reinsert:
  assumes ok: "okp env L m" and s: "L s" "\<not> on_control_list (snd_v m s)" "GetSender env m s = Some e"
    and ins: "\<And>xs. set (ins xs) = insert s (set xs)" "\<And>xs. s \<notin> set xs \<Longrightarrow> distinct xs \<Longrightarrow> distinct (ins xs)"
      "\<And>xs. length (ins xs) = Suc (length xs)"
  shows "okp env L (upd_sender e (\<lambda>x. x \<lparr> control_list := ins (control_list x), control_list_cnt := control_list_cnt x + 1 \<rparr>)
     (upd_snd s (\<lambda>v. v \<lparr> on_control_list := True \<rparr>) m))" (is "okp env L ?r")
proof -
  have live: "live m s" using okp_live [OF ok] s by blast
  have sok: "sender_ok env m e" using okp_lists [OF ok] by (simp add: lists_ok_def)
  have sets: "control_set env ?r e = insert s (control_set env m e)" "send_set env ?r e = send_set env m e"
    "ack_set env ?r e = ack_set env m e" "s \<notin> control_set env m e"
    using live s by (auto simp: list_sets)
  then have "sender_ok env ?r e" using sok ins by (simp add: sender_ok_def listed_def)
  then have "lists_ok env ?r" using lists_ok_upd_sender [OF okp_lists [OF ok] s(3)] by simp
  then show ?thesis by (rule okp_step [OF ok]) simp
qed

lemma control_turn_ok:
  assumes ok: "okp env L m" and s: "s \<in> set (control_list (senders m e))" and r: "control_turn env e now s m = (brk, m')"
  shows "only s m m' \<and> (\<exists>l. okp env (L(s := l)) m')"
proof -
  have f: "L s" "on_control_list (snd_v m s)" "GetSender env m s = Some e" using okp_sender_list(1) [OF ok] s by blast+
  have L: "L(s := True) = L" using f by (simp add: fun_upd_idem_iff)
  define m1 where "m1 = upd_sender e (\<lambda>x. x \<lparr> control_list := remove1 s (control_list (senders m e)), control_list_cnt := control_list_cnt x - 1 \<rparr>) m"
  define mm where "mm = RemoveFromControlList env s m"
  have mm: "upd_snd s (\<lambda>v. v \<lparr> on_control_list := False \<rparr>) m1 = mm"
    using f s by (simp add: mm_def m1_def RemoveFromControlList_def tq_remove_mem upd_snd_sender)
  have okm: "okp env L mm" "only s m mm" unfolding mm_def by (simp_all add: ok f okp_rules only_rules)
  have off: "\<not> on_control_list (snd_v mm s)" "GetSender env mm s = Some e"
    using f by (simp_all add: mm [symmetric] m1_def)
  obtain ret m2 where c: "SendControlPacket env s now mm = (ret, m2)" by fastforce
  note sc = SendControlPacket_ok [OF okm(1) f(1) c]
  have o2: "only s m m2" using sc okm(2) only_trans by blast
  have fr: "okp env L m2" "\<not> on_control_list (snd_v m2 s)" "GetSender env m2 s = Some e" if "ret < 0"
  proof -
    have fe: "frame_eq mm m2" using sc that by blast
    then have "stream_view (streams m2 s) = stream_view (streams mm s)" by (simp add: frame_eq_def same_lists_def)
    then show "\<not> on_control_list (snd_v m2 s)" "GetSender env m2 s = Some e"
      using off GetSender_cong [of m2 s mm env] by (simp_all add: stream_view_def)
    show "okp env L m2" by (rule okp_frame [OF fe okm(1)])
  qed
  have rm: "tq_remove s (control_list (senders m e))
      (\<lambda>ys. upd_sender e (\<lambda>x. x \<lparr> control_list := ys, control_list_cnt := control_list_cnt x - 1 \<rparr>)) m = m1"
    by (simp add: tq_remove_mem s m1_def)
  have flag: "on_control_list (snd_v m1 s)" using f by (simp add: m1_def)
  have t: "control_turn env e now s m =
      (if ret = - 2
       then (True, upd_sender e (\<lambda>x. x \<lparr> control_list := s # control_list x, control_list_cnt := control_list_cnt x + 1 \<rparr>)
                     (upd_snd s (\<lambda>v. v \<lparr> on_control_list := True \<rparr>) m2))
       else if ret < 0
       then (False, upd_sender e (\<lambda>x. x \<lparr> control_list := control_list x @ [s], control_list_cnt := control_list_cnt x + 1 \<rparr>)
                      (upd_snd s (\<lambda>v. v \<lparr> on_control_list := True \<rparr>) m2))
       else (False, m2))"
    by (simp add: control_turn_def rm flag mm c)
  have h: "okp env L (upd_sender e (\<lambda>x. x \<lparr> control_list := s # control_list x, control_list_cnt := control_list_cnt x + 1 \<rparr>)
                     (upd_snd s (\<lambda>v. v \<lparr> on_control_list := True \<rparr>) m2))" if "ret < 0"
    by (rule okp_reinsert [OF fr(1) [OF that] f(1) fr(2) [OF that] fr(3) [OF that], where ins = "(#) s"]) (use that in auto)
  have ta: "okp env L (upd_sender e (\<lambda>x. x \<lparr> control_list := control_list x @ [s], control_list_cnt := control_list_cnt x + 1 \<rparr>)
                     (upd_snd s (\<lambda>v. v \<lparr> on_control_list := True \<rparr>) m2))" if "ret < 0"
    by (rule okp_reinsert [OF fr(1) [OF that] f(1) fr(2) [OF that] fr(3) [OF that], where ins = "\<lambda>xs. xs @ [s]"]) (use that in auto)
  show ?thesis
  proof (cases "ret < 0")
    case True
    have "okp env L m'" "only s m m'"
      using r t True h [OF True] ta [OF True] o2 by (auto simp: only_rules split: if_splits)
    then show ?thesis using L by metis
  next
    case False
    then show ?thesis using r t sc o2 by auto
  qed
qed

lemma tq_next_mem: "tq_next xs x = Some y \<Longrightarrow> distinct xs \<Longrightarrow> y \<in> set xs \<and> y \<noteq> x"
proof -
  assume a: "tq_next xs x = Some y" "distinct xs"
  obtain a zs where d: "dropWhile (\<lambda>z. z \<noteq> x) xs = a # y # zs" using a(1) by (auto simp: tq_next_def split: list.splits)
  then have "a = x" using hd_dropWhile [of "\<lambda>z. z \<noteq> x" xs] by simp
  moreover have "distinct (a # y # zs)" using a(2) d by (metis distinct_dropWhile)
  moreover have "y \<in> set xs" using d set_dropWhileD [of y "\<lambda>z. z \<noteq> x" xs] by simp
  ultimately show ?thesis by auto
qed

lemma GetSender_only: "only s m m' \<Longrightarrow> u \<noteq> s \<Longrightarrow> GetSender env m' u = GetSender env m u"
  by (simp add: only_def GetSender_def)

lemma okp_next:
  assumes ok: "okp env L m" and ok': "okp env (L(s := l)) m'" and o: "only s m m'" and u: "u \<noteq> s"
  shows "u \<in> set (control_list (senders m' e)) \<longleftrightarrow> u \<in> set (control_list (senders m e))"
    "u \<in> set (send_list (senders m' e)) \<longleftrightarrow> u \<in> set (send_list (senders m e))"
    "u \<in> set (ack_list (senders m' e)) \<longleftrightarrow> u \<in> set (ack_list (senders m e))"
  using u onlyD [OF o u] GetSender_only [OF o u] by (simp_all add: okp_sender_list [OF ok] okp_sender_list [OF ok'])

lemma control_loop_ok:
  assumes "okp env L m" "\<And>s. cur = Some s \<Longrightarrow> s \<in> set (control_list (senders m e))"
  shows "\<exists>L'. okp env L' (control_loop env e now lst n cur m)"
  using assms
proof (induction n arbitrary: cur m L)
  case 0
  then show ?case by (cases cur) auto
next
  case (Suc n)
  show ?case
  proof (cases cur)
    case None
    then show ?thesis using Suc.prems by auto
  next
    case (Some s)
    obtain brk m1 where t: "control_turn env e now s m = (brk, m1)" by fastforce
    obtain l where ok1: "only s m m1" "okp env (L(s := l)) m1" using control_turn_ok [OF Suc.prems(1) _ t] Suc.prems(2) Some by blast
    have "u \<in> set (control_list (senders m1 e))" if "tq_next (control_list (senders m e)) s = Some u" for u
      using tq_next_mem [OF that okp_sender_list(4) [OF Suc.prems(1)]] okp_next(1) [OF Suc.prems(1) ok1(2,1)] by blast
    from Suc.IH [OF ok1(2) this] show ?thesis using t Some ok1(2) by (auto simp: Let_def)
  qed
qed

lemma okp_relink:
  assumes ok: "okp env L m" and s: "s \<in> set (send_list (senders m e))"
  shows "okp env L (relink e s (upd_sender e (\<lambda>x. x \<lparr> send_list := remove1 s (send_list (senders m e)) \<rparr>) m))" (is "okp env L ?r")
proof -
  have g: "GetSender env m s = Some e" using okp_sender_list(2) [OF ok] s by blast
  have id: "upd_snd s (\<lambda>v. v) m = m" by (simp add: m_simps)
  define f :: "mtcp_sender \<Rightarrow> mtcp_sender" where "f = (\<lambda>x. x \<lparr> send_list := remove1 s (send_list (senders m e)) @ [s] \<rparr>)"
  have r: "?r = upd_sender e f (upd_snd s (\<lambda>v. v) m)" by (simp add: id relink_def f_def upd_sender_def)
  have "int (length (remove1 s (send_list (senders m e)))) = int (length (send_list (senders m e))) - 1"
    using length_remove1_mem [OF s] .
  moreover have "sender_ok env m e" using okp_lists [OF ok] by (simp add: lists_ok_def)
  moreover have "s \<in> send_set env m e" using okp_sender_list(2) [OF ok] s okp_live [OF ok] by (simp add: send_set_def)
  ultimately have "sender_ok env (upd_sender e f (upd_snd s (\<lambda>v. v) m)) e"
    by (simp add: id sender_ok_def f_def list_sets listed_move)
  then have "lists_ok env ?r" unfolding r by (intro lists_ok_upd_sender [OF okp_lists [OF ok] g]) simp_all
  then show ?thesis by (rule okp_step [OF ok]) (simp add: relink_def)
qed

lemma data_turn_ok:
  assumes ok: "okp env L m" and s: "s \<in> set (send_list (senders m e))" and r: "data_turn env e now s m = (brk, m')"
  shows "only s m m' \<and> okp env L m'"
proof -
  have f: "L s" "on_send_list (snd_v m s)" using okp_sender_list(2) [OF ok] s by blast+
  define m1 where "m1 = upd_sender e (\<lambda>x. x \<lparr> send_list := remove1 s (send_list (senders m e)) \<rparr>) m"
  have rm: "tq_remove s (send_list (senders m e)) (\<lambda>ys. upd_sender e (\<lambda>x. x \<lparr> send_list := ys \<rparr>)) m = m1"
    by (simp add: tq_remove_mem s m1_def)
  have ok1: "okpR (relink e s) env L m1" "only s m m1" "on_send_list (snd_v m1 s)"
    using okp_relink [OF ok s] lifts_relink f by (simp_all add: okpR_def m1_def only_rules)
  define fl where "fl = (if st m1 s = TCP_ST_ESTABLISHED
             then if on_control_list (snd_v m1 s) then (- 1, m1) else FlushTCPSendingBuffer env s now m1
             else if st m1 s = TCP_ST_CLOSE_WAIT \<or> st m1 s = TCP_ST_FIN_WAIT_1 \<or> st m1 s = TCP_ST_LAST_ACK
             then FlushTCPSendingBuffer env s now m1
             else (0, m1))"
  obtain ret m2 where fl2: "fl = (ret, m2)" by fastforce
  have ok2: "okpR (relink e s) env L m2" "only s m m2"
    using fl2 FlushTCPSendingBuffer_ok [OF ok1(1) f(1) ok1(2)] ok1 by (auto simp: fl_def split: if_splits)
  have okr: "okp env L (relink e s m2)" using ok2(1) by (simp add: okpR_def)
  have mem: "s \<in> set (send_list (senders (relink e s m2) e))" by (simp add: relink_def)
  then have f2: "on_send_list (snd_v m2 s)" "GetSender env m2 s = Some e" "s \<notin> set (send_list (senders m2 e))"
    using okp_sender_list(2) [OF okr, of s e] okp_sender_list(5) [OF okr, of e] by (simp_all add: relink_simps) (simp add: relink_def)
  define m3 where "m3 = upd_sender e (\<lambda>x. x \<lparr> send_list_cnt := send_list_cnt x - 1 \<rparr>) (upd_snd s (\<lambda>v. v \<lparr> on_send_list := False \<rparr>) m2)"
  have eq: "(senders m2 e) \<lparr> send_list := send_list (senders m2 e), send_list_cnt := k \<rparr> = (senders m2 e) \<lparr> send_list_cnt := k \<rparr>" for k
    by simp
  have "RemoveFromSendList env s (relink e s m2) = m3"
    using f2 mem
    by (simp add: RemoveFromSendList_def relink_simps tq_remove_mem m3_def)
      (simp add: relink_def upd_sender_def remove1_append m_simps)
  then have ok3: "okp env L m3" using okp_list_ops(4) [OF okr f(1)] by simp
  have o3: "only s m m3" using ok2(2) by (simp add: m3_def only_rules)
  have t: "data_turn env e now s m =
      (if ret < 0 then (True, relink e s m2)
       else let m4 = upd_snd s (\<lambda>v. v \<lparr> ack_cnt := ack_cnt v - nat ret \<rparr>) m3 in
         (False, if control_list_waiting (streams m4 s) \<and> \<not> on_ack_list (snd_v m4 s)
                 then AddtoControlList env s (upd_stream s (\<lambda>t. t \<lparr> control_list_waiting := False \<rparr>) m4) else m4))"
    unfolding data_turn_def rm Let_def fl_def [symmetric] fl2 relink_def m3_def using ok1(3) by simp
  have z: "okp env L (upd_stream s (\<lambda>t. t \<lparr> control_list_waiting := False \<rparr>) m'')" if "okp env L m''" for m''
    using that by (rule okp_upd_stream) (simp_all add: stream_view_def flow_key_def)
  have "only s m (relink e s m2)" using ok2(2) by (simp add: relink_def only_rules)
  then show ?thesis
    using r t okr ok3 o3 f(1) by (auto simp: Let_def only_rules okp_rules z split: if_splits)
qed

lemma data_loop_ok:
  assumes "okp env L m" "\<And>s. cur = Some s \<Longrightarrow> s \<in> set (send_list (senders m e))"
  shows "okp env L (data_loop env e now lst n cur m)"
  using assms
proof (induction n arbitrary: cur m)
  case 0
  then show ?case by (cases cur) auto
next
  case (Suc n)
  show ?case
  proof (cases cur)
    case None
    then show ?thesis using Suc.prems by simp
  next
    case (Some s)
    obtain brk m1 where t: "data_turn env e now s m = (brk, m1)" by fastforce
    have ok1: "only s m m1" "okp env L m1" using data_turn_ok [OF Suc.prems(1) _ t] Suc.prems(2) Some by blast+
    then have ok2: "okp env (L(s := L s)) m1" by simp
    have "u \<in> set (send_list (senders m1 e))" if "tq_next (send_list (senders m e)) s = Some u" for u
      using tq_next_mem [OF that okp_sender_list(5) [OF Suc.prems(1)]] okp_next(2) [OF Suc.prems(1) ok2 ok1(1)] by blast
    from Suc.IH [OF ok1(2) this] show ?thesis using t Some ok1(2) by (simp add: Let_def)
  qed
qed

lemma sender_view_timers:
  "sender_view (streams (AddtoRTOList s m) u) = sender_view (streams m u)"
  "sender_view (streams (UpdateTimeoutList s m) u) = sender_view (streams m u)"
  by (simp_all add: AddtoRTOList_def UpdateTimeoutList_def Let_def set_rto_list_def tq_remove_def sender_view_def split: sum.split)

lemma sender_view_upd:
  "(\<And>t. sender_view (f t) = sender_view t) \<Longrightarrow> sender_view (streams (upd_stream s f m) u) = sender_view (streams m u)"
  "(\<And>v. (on_control_list (g v), on_send_list (g v), on_ack_list (g v), nif_out (g v)) =
      (on_control_list v, on_send_list v, on_ack_list v, nif_out v)) \<Longrightarrow>
    sender_view (streams (upd_snd s g m) u) = sender_view (streams m u)"
  "sender_view (t \<lparr> need_wnd_adv := b \<rparr>) = sender_view t" "sender_view (t \<lparr> last_active_ts := k \<rparr>) = sender_view t"
  by (auto simp: sender_view_def)

lemma sender_view_IPOutput:
  assumes "IPOutput env s len m = (x, m1)" "0 \<le> nif_out (snd_v m s)"
  shows "sender_view (streams m1 u) = sender_view (streams m u)"
  using frame_eq_IPOutput [OF assms] by (simp add: frame_eq_def same_lists_def stream_view_def sender_view_def)

lemma sender_view_note_sent: "sender_view (streams (note_sent now flags s m) u) = sender_view (streams m u)"
  by (simp add: note_sent_def Let_def sender_view_timers sender_view_upd del: streams_upd_stream streams_upd_snd)

lemma sender_view_SendTCPPacket:
  assumes "SendTCPPacket env s now flags payload m = (ret, m')" "0 \<le> nif_out (snd_v m s)"
  shows "sender_view (streams m' u) = sender_view (streams m u)"
proof -
  have f: "sender_view ((t :: tcp_stream) \<lparr> snd_nxt := x \<rparr>) = sender_view t"
    "sender_view (t \<lparr> snd_nxt := x, sndvar := (sndvar t) \<lparr> ts_rto := y \<rparr> \<rparr>) = sender_view t" for t x y
    by (simp_all add: sender_view_def)
  have e: "streams (emit fr m'') = streams m''" for fr m'' by (simp add: emit_def)
  obtain y m1 where ip: "IPOutput env s (of_nat (TCP_HEADER_LEN + CalculateOptionLength flags + length payload)) m = (y, m1)" by fastforce
  have v: "sender_view (streams m1 u) = sender_view (streams m u)" by (rule sender_view_IPOutput [OF ip assms(2)])
  show ?thesis
    using assms(1) ip v sender_view_note_sent [of now flags s m1 u]
    by (cases y) (auto simp: SendTCPPacket_def Let_def sender_view_timers f e split: if_splits)
qed

lemma ack_loop_ok:
  assumes "okp env L m" "L s"
  shows "okp env L (ack_loop env s now n m) \<and> only s m (ack_loop env s now n m) \<and>
    sender_view (streams (ack_loop env s now n m) s) = sender_view (streams m s)"
  using assms
proof (induction n arbitrary: m)
  case (Suc n)
  obtain ret m1 where r: "SendTCPPacket env s now TCP_FLAG_ACK [] m = (ret, m1)" by fastforce
  let ?m2 = "upd_snd s (\<lambda>v. v \<lparr> ack_cnt := ack_cnt v - 1 \<rparr>) m1"
  have n: "0 \<le> nif_out (snd_v m s)" using okpR_nif [of "\<lambda>m. m"] Suc.prems by (simp add: okpR_id)
  have ok1: "okp env L m1" "only s m m1" "sender_view (streams m1 s) = sender_view (streams m s)"
    using okp_SendTCPPacket [OF Suc.prems r] only_SendTCPPacket [OF only_refl r] sender_view_SendTCPPacket [OF r n] by auto
  then have "okp env L ?m2" "sender_view (streams ?m2 s) = sender_view (streams m s)" "only s m ?m2"
    by (simp_all add: okp_rules sender_view_def only_rules)
  with Suc.IH [of ?m2] Suc.prems(2) ok1 r only_trans [of s m ?m2] show ?case by simp
qed simp

lemma okp_ack_unlink:
  assumes ok: "okp env L m" and s: "s \<in> set (ack_list (senders m e))"
    and f: "\<And>v. f v = (g v) \<lparr> on_ack_list := False \<rparr>" "\<And>v. (on_control_list (g v), on_send_list (g v), on_ack_list (g v), nif_out (g v)) =
      (on_control_list v, on_send_list v, on_ack_list v, nif_out v)"
  shows "okp env L (unlink_ack e s (upd_snd s f m))"
proof -
  let ?m = "upd_snd s g m"
  have ok1: "okp env L ?m" using ok f(2) by (rule okp_upd_snd)
  have h: "L s" "on_ack_list (snd_v m s)" "GetSender env m s = Some e" using okp_sender_list(3) [OF ok] s by blast+
  have g: "on_ack_list (g v) = on_ack_list v" "nif_out (g v) = nif_out v" for v using f(2) [of v] by simp_all
  have "upd_snd s (\<lambda>v. v \<lparr> on_ack_list := False \<rparr>) ?m = upd_snd s f m" using f(1) by (simp add: m_simps)
  then have "RemoveFromACKList env s ?m = unlink_ack e s (upd_snd s f m)"
    using h g s by (simp add: RemoveFromACKList_def unlink_ack_def tq_remove_mem)
  then show ?thesis using okp_list_ops(5) [OF ok1 h(1)] by simp
qed

lemma only_unlink_ack [only_rules]: "only s m m' \<Longrightarrow> only s m (unlink_ack e s m')"
  by (simp add: unlink_ack_def only_tq_remove only_rules)

lemma send_acks_ok:
  assumes ok: "okp env L m" and s: "L s"
  shows "okp env L (send_acks env s now m) \<and> only s m (send_acks env s now m) \<and>
    sender_view (streams (send_acks env s now m) s) = sender_view (streams m s)"
proof -
  define m1 where "m1 = ack_loop env s now (ack_cnt (snd_v m s)) m"
  have ok1: "okp env L m1" "only s m m1" "sender_view (streams m1 s) = sender_view (streams m s)"
    using ack_loop_ok [OF ok s] by (simp_all add: m1_def)
  define m1' where "m1' = upd_snd s (\<lambda>v. v \<lparr> is_wack := False \<rparr>) m1"
  have ok1': "okp env L m1'" "only s m m1'" "sender_view (streams m1' s) = sender_view (streams m s)"
    using ok1 by (simp_all add: m1'_def okp_rules only_rules sender_view_def)
  obtain ret m2 where w: "SendTCPPacket env s now (TCP_FLAG_ACK OR TCP_FLAG_WACK) [] m1' = (ret, m2)" by fastforce
  have n: "0 \<le> nif_out (snd_v m1' s)" using okpR_nif [of "\<lambda>m. m"] ok1' s by (simp add: okpR_id)
  have ok2: "okp env L m2" "only s m m2" "sender_view (streams m2 s) = sender_view (streams m s)"
    using okp_SendTCPPacket [OF ok1'(1) s w] only_SendTCPPacket [OF ok1'(2) w] sender_view_SendTCPPacket [OF w n] ok1' by auto
  have "send_acks env s now m = (if is_wack (snd_v m1 s)
      then (if ret < 0 then upd_snd s (\<lambda>v. v \<lparr> is_wack := True \<rparr>) m2 else m2) else m1)"
    unfolding send_acks_def m1_def [symmetric] Let_def m1'_def [symmetric] w by simp
  then show ?thesis using ok1 ok2 by (simp add: okp_rules only_rules sender_view_def)
qed

lemma ack_turn_ok:
  assumes ok: "okp env L m" and s: "s \<in> set (ack_list (senders m e))"
  shows "only s m (ack_turn env e now s m) \<and> okp env L (ack_turn env e now s m)"
proof -
  have h: "L s" "on_ack_list (snd_v m s)" "GetSender env m s = Some e" using okp_sender_list(3) [OF ok] s by blast+
  define m2 where "m2 = send_acks env s now m"
  have ok2: "okp env L m2" "only s m m2" "sender_view (streams m2 s) = sender_view (streams m s)"
    using send_acks_ok [OF ok h(1)] by (simp_all add: m2_def)
  then have s2: "s \<in> set (ack_list (senders m2 e))"
    using h GetSender_cong [of m2 s m env] by (simp add: okp_sender_list(3) [OF ok2(1)] sender_view_def)
  define m3 where "m3 = (if to_ack (streams m s)
      then if ack_cnt (snd_v m2 s) = 0 \<and> \<not> is_wack (snd_v m2 s) then unlink_ack e s (upd_snd s (\<lambda>v. v \<lparr> on_ack_list := False \<rparr>) m2) else m2
      else unlink_ack e s (upd_snd s (\<lambda>v. v \<lparr> on_ack_list := False, ack_cnt := 0, is_wack := False \<rparr>) m))"
  have ok3: "okp env L m3"
    using okp_ack_unlink [OF ok2(1) s2, of _ "\<lambda>v. v"] okp_ack_unlink [OF ok s, of _ "\<lambda>v. v \<lparr> ack_cnt := 0, is_wack := False \<rparr>"] ok2(1)
    by (simp add: m3_def)
  have o3: "only s m m3" using ok2(2) by (simp add: m3_def only_rules)
  have z: "okp env L (upd_stream s (\<lambda>t. t \<lparr> control_list_waiting := False \<rparr>) m3)"
    using ok3 by (rule okp_upd_stream) (simp_all add: stream_view_def flow_key_def)
  have t: "ack_turn env e now s m = (if control_list_waiting (streams m3 s) \<and> \<not> on_send_list (snd_v m3 s)
       then AddtoControlList env s (upd_stream s (\<lambda>t. t \<lparr> control_list_waiting := False \<rparr>) m3) else m3)"
    unfolding ack_turn_def Let_def m2_def [symmetric] m3_def [symmetric] using h(2) by simp
  show ?thesis using t ok3 o3 z h(1) by (simp add: okp_rules only_rules)
qed

lemma ack_list_loop_ok:
  assumes "okp env L m" "\<And>s. cur = Some s \<Longrightarrow> s \<in> set (ack_list (senders m e))"
  shows "okp env L (ack_list_loop env e now lst n cur m)"
  using assms
proof (induction n arbitrary: cur m)
  case 0
  then show ?case by (cases cur) auto
next
  case (Suc n)
  show ?case
  proof (cases cur)
    case None
    then show ?thesis using Suc.prems by simp
  next
    case (Some s)
    let ?m1 = "ack_turn env e now s m"
    have ok1: "only s m ?m1" "okp env L ?m1" using ack_turn_ok [OF Suc.prems(1)] Suc.prems(2) Some by blast+
    then have ok2: "okp env (L(s := L s)) ?m1" by simp
    have "u \<in> set (ack_list (senders ?m1 e))" if "tq_next (ack_list (senders m e)) s = Some u" for u
      using tq_next_mem [OF that okp_sender_list(6) [OF Suc.prems(1)]] okp_next(3) [OF Suc.prems(1) ok2 ok1(1)] by blast
    from Suc.IH [OF ok1(2) this] show ?thesis using Some ok1(2) by (simp add: Let_def)
  qed
qed

lemma tq_first_mem: "tq_first xs = Some s \<Longrightarrow> s \<in> set xs"
  by (auto simp: tq_first_def split: list.splits)

lemma okp_WriteTCPControlList: "okp env L m \<Longrightarrow> \<exists>L'. okp env L' (WriteTCPControlList env e now thresh m)"
  unfolding WriteTCPControlList_def Let_def by (rule control_loop_ok) (simp_all add: tq_first_mem)

lemma okp_WriteTCPDataList: "okp env L m \<Longrightarrow> okp env L (WriteTCPDataList env e now thresh m)"
  unfolding WriteTCPDataList_def Let_def by (rule data_loop_ok) (simp_all add: tq_first_mem)

lemma okp_WriteTCPACKList: "okp env L m \<Longrightarrow> okp env L (WriteTCPACKList env e now thresh m)"
  unfolding WriteTCPACKList_def Let_def by (rule ack_list_loop_ok) (simp_all add: tq_first_mem)

lemma okp_SendTCPPacketStandalone [okp_rules]:
  assumes "okp env L m"
  shows "okp env L (snd (SendTCPPacketStandalone env sa sp da dp sq ack window flags payload now echo m))"
proof -
  obtain x m1 where i: "IPOutputStandalone env IPPROTO_TCP 0 sa da
      (of_nat (TCP_HEADER_LEN + CalculateOptionLength flags + length payload)) m = (x, m1)" by fastforce
  have ok1: "okp env L m1" by (rule okp_frame [OF frame_eq_IPOutputStandalone [OF i] assms])
  have ok2: "okp env L (emit f m1)" for f by (rule okp_frame [OF _ ok1]) simp
  show ?thesis
    using i ok1 ok2 assms by (cases x) (auto simp: SendTCPPacketStandalone_def Let_def okp_raise)
qed

end
