(* ===== verification/Timer.thy ===== *)
theory Timer
  imports TcpOut
begin

text \<open>
  The timers (\<^verbatim>\<open>timer.c\<close>): what a retransmission timeout does to a stream, and the three checks the main loop
  makes, over the buckets of the retransmission store, the timewait list and the timeout list. Each of them keeps the
  invariant of the stack. That the checks end and when a timer is met is the subject of \<open>RtoClock\<close>.
\<close>

section \<open>A retransmission timeout\<close>

definition TCP_MAX_RTX :: u8 where "TCP_MAX_RTX = 16"
definition TCP_MAX_SYN_RETRY :: u8 where "TCP_MAX_SYN_RETRY = 7"
definition TCP_MAX_BACKOFF :: u8 where "TCP_MAX_BACKOFF = 7"

text \<open>The retransmission timeout after the \<open>n\<close>-th timeout in a row (\<open>n\<close> already counted).\<close>

definition rto_backoff :: "tcp_stream \<Rightarrow> u32" where
  "rto_backoff t =
    (let v = sndvar t in
     if TCP_ST_ESTABLISHED \<le> state t
     then let r = push_bit (unat (min (nrtx v) TCP_MAX_BACKOFF)) (drop_bit 3 (srtt (rcvvar t)) + rttvar (rcvvar t)) in
          if r = 0 then rto v else r
     else if TCP_ST_SYN_SENT \<le> state t \<and> nrtx v < TCP_MAX_BACKOFF then push_bit 1 (rto v)
     else rto v)"

definition shrink_window :: "tcp_send_vars \<Rightarrow> tcp_send_vars" where
  "shrink_window v =
    (let half = min (cwnd v) (peer_wnd v) div 2; two = 2 * ucast (mss v) in
     v \<lparr> ssthresh := (if half < two then two else half), cwnd := ucast (mss v) \<rparr>)"

definition close_stream :: "close_reason \<Rightarrow> sid \<Rightarrow> mtcp_manager \<Rightarrow> mtcp_manager" where
  "close_stream r s = upd_stream s (\<lambda>t. t \<lparr> state := TCP_ST_CLOSED, close_reason := r \<rparr>)"

definition notify_or_destroy :: "stack_env \<Rightarrow> sid \<Rightarrow> mtcp_manager \<Rightarrow> mtcp_manager" where
  "notify_or_destroy env s m =
    (if sock (streams m s) \<noteq> None then RaiseErrorEvent s m else DestroyTCPStream env s m)"

text \<open>Sending again from the first unacknowledged byte: the data list or the control list.\<close>

definition retransmit :: "stack_env \<Rightarrow> sid \<Rightarrow> mtcp_manager \<Rightarrow> mtcp_manager" where
  "retransmit env s m =
    (let m1 = upd_stream s (\<lambda>t. t \<lparr> snd_nxt := snd_una (sndvar t) \<rparr>) m in
     if st m1 s = TCP_ST_ESTABLISHED \<or> st m1 s = TCP_ST_CLOSE_WAIT then AddtoSendList env s m1
     else if st m1 s = TCP_ST_FIN_WAIT_1 \<or> st m1 s = TCP_ST_CLOSING \<or> st m1 s = TCP_ST_LAST_ACK
     then if TCP_SEQ_LT (snd_nxt (streams m1 s)) (fss (snd_v m1 s))
          then
            let m2 = (if on_control_list (snd_v m1 s) then RemoveFromControlList env s m1 else m1) in
            AddtoSendList env s (upd_stream s (\<lambda>t. t \<lparr> control_list_waiting := True \<rparr>) m2)
          else AddtoControlList env s m1
     else AddtoControlList env s m1)"

definition HandleRTO :: "stack_env \<Rightarrow> u32 \<Rightarrow> sid \<Rightarrow> mtcp_manager \<Rightarrow> int \<times> mtcp_manager" where
  "HandleRTO env now s m =
    (if rto (snd_v m s) = 0 then (- 1, raise AssertFail m)
     else if close_reason (streams m s) \<noteq> TCP_NOT_CLOSED then (0, m)
     else if \<not> nrtx (snd_v m s) < TCP_MAX_RTX
     then (- 1,
       if st m s < TCP_ST_ESTABLISHED then DestroyTCPStream env s (close_stream TCP_CONN_FAIL s m)
       else notify_or_destroy env s (close_stream TCP_CONN_LOST s m))
     else
       let m1 = upd_snd s (\<lambda>v. v \<lparr> nrtx := nrtx v + 1, max_nrtx := max (max_nrtx v) (nrtx v + 1) \<rparr>) m;
           m2 = upd_snd s (\<lambda>v. shrink_window (v \<lparr> rto := rto_backoff (streams m1 s) \<rparr>)) m1 in
       if st m2 s = TCP_ST_SYN_SENT \<and> TCP_MAX_SYN_RETRY < nrtx (snd_v m2 s)
       then (- 1, notify_or_destroy env s (close_stream TCP_CONN_FAIL s m2))
       else if st m2 s \<notin> {TCP_ST_SYN_SENT, TCP_ST_SYN_RCVD, TCP_ST_ESTABLISHED, TCP_ST_CLOSE_WAIT,
                            TCP_ST_LAST_ACK, TCP_ST_FIN_WAIT_1, TCP_ST_CLOSING}
       then (- 1, raise AssertFail m2)
       else if have_reset (streams m2 s) \<and> st m2 s = TCP_ST_SYN_RCVD then (0, DestroyTCPStream env s m2)
       else (0, retransmit env s m2))"

section \<open>Checking the retransmission store\<close>

text \<open>\<^verbatim>\<open>RearrangeRTOStore\<close>: the elements of the overflow bucket, in order; an element that is moved goes to one of
  the other buckets, so the walk meets the elements the list had at the start.\<close>

definition rearrange_one :: "sid \<Rightarrow> mtcp_manager \<Rightarrow> mtcp_manager" where
  "rearrange_one s m =
    (let diff = sint (rto_now_ts m - ts_rto (snd_v m s)) in
     if diff < int RTO_HASH
     then
       let i = rto_bucket (rto_now_idx m) diff in
       tq_remove s (rto_list m RTO_HASH)
         (\<lambda>ys m1. let m2 = upd_stream s (\<lambda>t. t \<lparr> on_rto_idx := int i \<rparr>) (set_rto_list RTO_HASH ys m1) in
            set_rto_list i (rto_list m2 i @ [s]) m2) m
     else m)"

definition RearrangeRTOStore :: "mtcp_manager \<Rightarrow> mtcp_manager" where
  "RearrangeRTOStore m = fold rearrange_one (rto_list m RTO_HASH) m"

text \<open>The inner loop of \<^verbatim>\<open>CheckRtmTimeout\<close>: the number of streams that may still be handled, the bucket and the
  stream at hand. The result has the number left, or \<open>None\<close> when the count went over the threshold.\<close>

fun rto_walk :: "stack_env \<Rightarrow> u32 \<Rightarrow> nat \<Rightarrow> nat \<Rightarrow> sid option \<Rightarrow> mtcp_manager \<Rightarrow> nat option \<times> mtcp_manager" where
  "rto_walk env now i n None m = (Some n, m)"
| "rto_walk env now i 0 (Some s) m = (None, m)"
| "rto_walk env now i (Suc n) (Some s) m =
    (let next = tq_next (rto_list m i) s in
     rto_walk env now i n next
       (if on_rto_idx (streams m s) \<ge> 0
        then snd (HandleRTO env now s
          (tq_remove s (rto_list m i)
            (\<lambda>ys m1. (set_rto_list i ys (upd_stream s (\<lambda>t. t \<lparr> on_rto_idx := - 1 \<rparr>) m1)) \<lparr> rto_list_cnt := rto_list_cnt m1 - 1 \<rparr>) m))
        else m))"

text \<open>The outer loop; the store's clock moves one tick per turn, so the distance to the current time bounds the
  number of turns.\<close>

definition rto_tick :: "mtcp_manager \<Rightarrow> mtcp_manager" where
  "rto_tick m = m \<lparr> rto_now_idx := (rto_now_idx m + 1) mod of_nat RTO_HASH, rto_now_ts := rto_now_ts m + 1 \<rparr>"

fun rto_rounds :: "stack_env \<Rightarrow> u32 \<Rightarrow> nat \<Rightarrow> nat \<Rightarrow> mtcp_manager \<Rightarrow> mtcp_manager" where
  "rto_rounds env now fuel n m =
    (if sint (now - rto_now_ts m) < 0 then m
     else case fuel of 0 \<Rightarrow> raise Diverges m
     | Suc fuel' \<Rightarrow>
       if \<not> unat (rto_now_idx m) \<le> RTO_HASH then raise OutOfBounds m
       else
         let i = unat (rto_now_idx m) in
         case rto_walk env now i n (tq_first (rto_list m i)) m of
           (None, m1) \<Rightarrow> m1
         | (Some n', m1) \<Rightarrow>
           let m2 = rto_tick m1 in
           rto_rounds env now fuel' n' (if rto_now_idx m2 mod 1000 = 0 then RearrangeRTOStore m2 else m2))"

declare rto_rounds.simps [simp del]

definition CheckRtmTimeout :: "stack_env \<Rightarrow> u32 \<Rightarrow> int \<Rightarrow> mtcp_manager \<Rightarrow> mtcp_manager" where
  "CheckRtmTimeout env now thresh m =
    (if rto_list_cnt m = 0 \<or> thresh < 0 then m
     else rto_rounds env now (nat (sint (now - rto_now_ts m) + 1)) (nat thresh) m)"

section \<open>Checking the timewait list and the timeout list\<close>

fun timewait_walk :: "stack_env \<Rightarrow> u32 \<Rightarrow> nat \<Rightarrow> sid option \<Rightarrow> mtcp_manager \<Rightarrow> mtcp_manager" where
  "timewait_walk env now n None m = m"
| "timewait_walk env now 0 (Some s) m = m"
| "timewait_walk env now (Suc n) (Some s) m =
    (let next = tq_next (timewait_list m) s in
     if on_timewait_list (streams m s)
     then if sint (now - ts_tw_expire (rcv_v m s)) \<ge> 0
          then timewait_walk env now n next
            (if on_control_list (snd_v m s) then m
             else DestroyTCPStream env s (close_stream TCP_ACTIVE_CLOSE s
               (tq_remove s (timewait_list m)
                 (\<lambda>ys m1. (upd_stream s (\<lambda>t. t \<lparr> on_timewait_list := False \<rparr>) m1)
                    \<lparr> timewait_list := ys, timewait_list_cnt := timewait_list_cnt m1 - 1 \<rparr>) m)))
          else m
     else timewait_walk env now n next m)"

definition CheckTimewaitExpire :: "stack_env \<Rightarrow> u32 \<Rightarrow> int \<Rightarrow> mtcp_manager \<Rightarrow> mtcp_manager" where
  "CheckTimewaitExpire env now thresh m = timewait_walk env now (nat thresh) (tq_first (timewait_list m)) m"

fun timeout_walk :: "stack_env \<Rightarrow> u32 \<Rightarrow> nat \<Rightarrow> sid option \<Rightarrow> mtcp_manager \<Rightarrow> mtcp_manager" where
  "timeout_walk env now n None m = m"
| "timeout_walk env now 0 (Some s) m = m"
| "timeout_walk env now (Suc n) (Some s) m =
    (let next = tq_next (timeout_list m) s in
     if sint (now - last_active_ts (streams m s)) \<ge> tcp_timeout env
     then timeout_walk env now n next (notify_or_destroy env s (close_stream TCP_TIMEDOUT s
            (tq_remove s (timeout_list m)
              (\<lambda>ys m1. m1 \<lparr> timeout_list := ys, timeout_list_cnt := timeout_list_cnt m1 - 1 \<rparr>)
              (upd_stream s (\<lambda>t. t \<lparr> on_timeout_list := False \<rparr>) m))))
     else m)"

definition CheckConnectionTimeout :: "stack_env \<Rightarrow> u32 \<Rightarrow> int \<Rightarrow> mtcp_manager \<Rightarrow> mtcp_manager" where
  "CheckConnectionTimeout env now thresh m = timeout_walk env now (nat thresh) (tq_first (timeout_list m)) m"

section \<open>The timers keep the invariant\<close>

lemma okp_AddEpollEvent [okp_rules]: "okp env L m \<Longrightarrow> okp env L (snd (AddEpollEvent qt k event m))"
  by (simp add: AddEpollEvent_def Let_def okp_rules split: option.split sum.split)

lemma okp_Raise [okp_rules]:
  assumes "okp env L m"
  shows "okp env L (RaiseReadEvent s m)" "okp env L (RaiseWriteEvent s m)" "okp env L (RaiseCloseEvent s m)" "okp env L (RaiseErrorEvent s m)"
  using assms by (simp_all add: RaiseReadEvent_def RaiseWriteEvent_def RaiseCloseEvent_def RaiseErrorEvent_def okp_rules split: option.split)

lemma streams_AddEpollEvent [simp]: "streams (snd (AddEpollEvent qt k event m)) = streams m"
  by (simp add: AddEpollEvent_def Let_def split: option.split sum.split)

lemma streams_Raise [simp]:
  "streams (RaiseReadEvent s m) = streams m" "streams (RaiseWriteEvent s m) = streams m"
  "streams (RaiseCloseEvent s m) = streams m" "streams (RaiseErrorEvent s m) = streams m"
  by (simp_all add: RaiseReadEvent_def RaiseWriteEvent_def RaiseCloseEvent_def RaiseErrorEvent_def split: option.split)

lemma only_Raise [only_rules]:
  assumes "only s m m'"
  shows "only s m (RaiseReadEvent u m')" "only s m (RaiseWriteEvent u m')" "only s m (RaiseCloseEvent u m')" "only s m (RaiseErrorEvent u m')"
  using assms by (simp_all add: only_def)

lemma okp_close_stream [okp_rules]: "okp env L m \<Longrightarrow> okp env L (close_stream r s m)"
  unfolding close_stream_def by (erule okp_upd_stream) (simp_all add: stream_view_def flow_key_def)

lemma only_close_stream [only_rules]: "only s m m' \<Longrightarrow> only s m (close_stream r s m')"
  by (simp add: close_stream_def only_rules)

text \<open>An operation on the live stream \<open>s\<close> that may end it.\<close>

definition may_end :: "stack_env \<Rightarrow> (sid \<Rightarrow> bool) \<Rightarrow> sid \<Rightarrow> mtcp_manager \<Rightarrow> mtcp_manager \<Rightarrow> bool" where
  "may_end env L s m m' \<longleftrightarrow> only s m m' \<and> (\<exists>l. okp env (L(s := l)) m')"

lemma may_endI: "okp env L m' \<Longrightarrow> L s \<Longrightarrow> only s m m' \<Longrightarrow> may_end env L s m m'"
  unfolding may_end_def by (intro conjI exI [of _ True]) (simp_all add: fun_upd_idem)

lemma may_end_destroy: "okp env L m' \<Longrightarrow> L s \<Longrightarrow> only s m m' \<Longrightarrow> may_end env L s m (DestroyTCPStream env s m')"
  unfolding may_end_def by (intro conjI exI [of _ False]) (simp_all add: okp_DestroyTCPStream only_rules)

lemma may_end_notify: "okp env L m' \<Longrightarrow> L s \<Longrightarrow> only s m m' \<Longrightarrow> may_end env L s m (notify_or_destroy env s m')"
  by (simp add: notify_or_destroy_def may_end_destroy may_endI okp_rules only_rules)

lemmas may_end_intros = may_endI may_end_destroy may_end_notify

lemma okp_retransmit [okp_rules]: "okp env L m \<Longrightarrow> L s \<Longrightarrow> okp env L (retransmit env s m)"
  by (simp add: retransmit_def Let_def okp_rules stream_view_def flow_key_def)

lemma only_retransmit [only_rules]: "only s m m' \<Longrightarrow> only s m (retransmit env s m')"
  by (simp add: retransmit_def Let_def only_rules)

lemma shrink_window_flags [simp]:
  "on_control_list (shrink_window v) = on_control_list v" "on_send_list (shrink_window v) = on_send_list v"
  "on_ack_list (shrink_window v) = on_ack_list v" "nif_out (shrink_window v) = nif_out v"
  by (simp_all add: shrink_window_def Let_def)

lemma HandleRTO_ok:
  assumes ok: "okp env L m" and s: "L s" and o: "only s m0 m"
  shows "may_end env L s m0 (snd (HandleRTO env now s m))"
  using assms
  by (auto simp: HandleRTO_def Let_def okp_rules only_rules intro!: may_end_intros)

lemma okp_timer_lists:
  assumes "okp env L m"
  shows "u \<in> set (rto_list m i) \<longleftrightarrow> L u \<and> on_rto_idx (streams m u) = int i"
    "u \<in> set (timewait_list m) \<longleftrightarrow> L u \<and> on_timewait_list (streams m u)"
    "u \<in> set (timeout_list m) \<longleftrightarrow> L u \<and> on_timeout_list (streams m u)"
    "distinct (rto_list m i)" "distinct (timewait_list m)" "distinct (timeout_list m)"
proof -
  have "timers_ok m" "live m = L" using assms by (auto simp: okp_def stack_inv_def lists_ok_def)
  then show "u \<in> set (rto_list m i) \<longleftrightarrow> L u \<and> on_rto_idx (streams m u) = int i"
    "u \<in> set (timewait_list m) \<longleftrightarrow> L u \<and> on_timewait_list (streams m u)"
    "u \<in> set (timeout_list m) \<longleftrightarrow> L u \<and> on_timeout_list (streams m u)"
    "distinct (rto_list m i)" "distinct (timewait_list m)" "distinct (timeout_list m)"
    by (auto simp: timers_ok_def listed_def list_sets)
qed

lemma okp_next_timer:
  assumes ok: "okp env L m" and ok': "okp env (L(s := l)) m'" and o: "only s m m'" and u: "u \<noteq> s"
  shows "u \<in> set (rto_list m' i) \<longleftrightarrow> u \<in> set (rto_list m i)"
    "u \<in> set (timewait_list m') \<longleftrightarrow> u \<in> set (timewait_list m)"
    "u \<in> set (timeout_list m') \<longleftrightarrow> u \<in> set (timeout_list m)"
  using u onlyD [OF o u] by (simp_all add: okp_timer_lists [OF ok] okp_timer_lists [OF ok'])

lemma rto_walk_ok:
  assumes "okp env L m" "\<And>s. cur = Some s \<Longrightarrow> s \<in> set (rto_list m i)" "i \<le> RTO_HASH"
  shows "\<exists>L'. okp env L' (snd (rto_walk env now i n cur m))"
  using assms
proof (induction n arbitrary: cur m L)
  case 0
  then show ?case by (cases cur) auto
next
  case (Suc n)
  show ?case
  proof (cases cur)
    case None
    then show ?thesis using Suc.prems by auto
  next
    case (Some s)
    have f: "L s" "on_rto_idx (streams m s) = int i" "s \<in> set (rto_list m i)"
      using Suc.prems(2) Some okp_timer_lists(1) [OF Suc.prems(1)] by blast+
    have rm: "RemoveFromRTOList s m = tq_remove s (rto_list m i)
        (\<lambda>ys m1. (set_rto_list i ys (upd_stream s (\<lambda>t. t \<lparr> on_rto_idx := - 1 \<rparr>) m1)) \<lparr> rto_list_cnt := rto_list_cnt m1 - 1 \<rparr>) m"
      using f Suc.prems(3) by (simp add: RemoveFromRTOList_def Let_def)
    define m1 where "m1 = snd (HandleRTO env now s (RemoveFromRTOList s m))"
    have "may_end env L s m m1"
      unfolding m1_def by (rule HandleRTO_ok) (simp_all add: Suc.prems f okp_rules only_rules)
    then obtain l where ok1: "only s m m1" "okp env (L(s := l)) m1" by (auto simp: may_end_def)
    have "u \<in> set (rto_list m1 i)" if "tq_next (rto_list m i) s = Some u" for u
      using tq_next_mem [OF that okp_timer_lists(4) [OF Suc.prems(1)]] okp_next_timer(1) [OF Suc.prems(1) ok1(2,1)] by blast
    from Suc.IH [OF ok1(2) this Suc.prems(3)] show ?thesis
      using f Some by (simp add: Let_def rm [symmetric] m1_def [symmetric])
  qed
qed

lemma rto_bucket_less: "diff < int RTO_HASH \<Longrightarrow> rto_bucket idx diff < RTO_HASH"
  by (simp add: rto_bucket_def RTO_HASH_def unat_mod_distrib)

lemma rearrange_one_ok:
  assumes ok: "okp env L m" and s: "s \<in> set (rto_list m RTO_HASH)"
  shows "okp env L (rearrange_one s m) \<and> only s m (rearrange_one s m)"
proof -
  define diff where "diff = sint (rto_now_ts m - ts_rto (snd_v m s))"
  show ?thesis
  proof (cases "diff < int RTO_HASH")
    case False
    then show ?thesis using ok by (simp add: rearrange_one_def diff_def [symmetric])
  next
    case True
    have f: "L s" "on_rto_idx (streams m s) = int RTO_HASH" using okp_timer_lists(1) [OF ok] s by blast+
    define i where "i = rto_bucket (rto_now_idx m) diff"
    have i: "i < RTO_HASH" using True by (simp add: i_def rto_bucket_less)
    define m' where "m' = RemoveFromRTOList s m"
    have ok': "okp env L m'" "only s m m'" by (simp_all add: m'_def ok f okp_rules only_rules)
    have m': "m' = (set_rto_list RTO_HASH (remove1 s (rto_list m RTO_HASH)) (upd_stream s (\<lambda>t. t \<lparr> on_rto_idx := - 1 \<rparr>) m))
        \<lparr> rto_list_cnt := rto_list_cnt m - 1 \<rparr>"
      using f s by (simp add: m'_def RemoveFromRTOList_def Let_def tq_remove_mem)
    have tw: "\<not> on_timewait_list (streams m s)"
      using ok f okp_live [OF ok, of s] by (auto simp: okp_def stack_inv_def lists_ok_def timers_ok_def)
    define r where "r = (set_rto_list i (rto_list m' i @ [s]) (upd_stream s (\<lambda>t. t \<lparr> on_rto_idx := int i \<rparr>) m')) \<lparr> rto_list_cnt := rto_list_cnt m' + 1 \<rparr>"
    have "lists_ok env r"
      by (rule conjunct1 [OF rto_insert_ok [OF okp_lists [OF ok'(1)] _ _ _ _ r_def]])
        (use i f tw okp_live [OF ok, of s] in \<open>simp_all add: m' set_rto_list_def\<close>)
    moreover have "same_flows m' r"
      unfolding r_def by (auto simp: set_rto_list_def flow_key_def intro!: same_flows_upd_stream)
    ultimately have "okp env L r" by (rule okp_step [OF ok'(1)])
    moreover have "rearrange_one s m = r"
      using True i s by (simp add: rearrange_one_def diff_def [symmetric] i_def [symmetric] tq_remove_mem r_def m' set_rto_list_def upd_stream_def fun_upd_twist)
    moreover have "only s m r" using ok'(2) by (simp add: r_def set_rto_list_def only_rules)
    ultimately show ?thesis by simp
  qed
qed

lemma rearrange_fold_ok:
  "okp env L m \<Longrightarrow> set xs \<subseteq> set (rto_list m RTO_HASH) \<Longrightarrow> distinct xs \<Longrightarrow> okp env L (fold rearrange_one xs m)"
proof (induction xs arbitrary: m)
  case (Cons s xs)
  have ok1: "okp env L (rearrange_one s m)" "only s m (rearrange_one s m)"
    using rearrange_one_ok [OF Cons.prems(1)] Cons.prems(2) by auto
  then have ok2: "okp env (L(s := L s)) (rearrange_one s m)" by simp
  have "u \<in> set (rto_list (rearrange_one s m) RTO_HASH)" if "u \<in> set xs" for u
    using okp_next_timer(1) [OF Cons.prems(1) ok2 ok1(2), of u] Cons.prems that by (metis distinct.simps(2) list.set_intros(2) subsetD)
  then have "set xs \<subseteq> set (rto_list (rearrange_one s m) RTO_HASH)" by blast
  then show ?case using Cons.IH [OF ok1(1)] Cons.prems by simp
qed simp

lemma okp_RearrangeRTOStore [okp_rules]: "okp env L m \<Longrightarrow> okp env L (RearrangeRTOStore m)"
  unfolding RearrangeRTOStore_def by (rule rearrange_fold_ok) (simp_all add: okp_timer_lists)

lemma rto_rounds_ok: "okp env L m \<Longrightarrow> \<exists>L'. okp env L' (rto_rounds env now fuel n m)"
proof (induction fuel arbitrary: n m L)
  case 0
  then show ?case by (auto simp: rto_rounds.simps [of env now 0] intro: okp_raise)
next
  case (Suc fuel)
  show ?case
  proof (cases "sint (now - rto_now_ts m) < 0 \<or> \<not> unat (rto_now_idx m) \<le> RTO_HASH")
    case True
    then show ?thesis using Suc.prems by (auto simp: rto_rounds.simps [of env now "Suc fuel"] intro: okp_raise)
  next
    case False
    define i where "i = unat (rto_now_idx m)"
    obtain x m1 where w: "rto_walk env now i n (tq_first (rto_list m i)) m = (x, m1)" by fastforce
    obtain L1 where ok1: "okp env L1 m1"
      using rto_walk_ok [OF Suc.prems, of "tq_first (rto_list m i)" i now n] w False by (auto simp: i_def tq_first_mem)
    define m2 where "m2 = rto_tick m1"
    have ok2: "okp env L1 m2" "okp env L1 (RearrangeRTOStore m2)" using ok1 by (simp_all add: m2_def rto_tick_def okp_rules)
    show ?thesis
    proof (cases x)
      case None
      then show ?thesis using w False ok1 by (auto simp: rto_rounds.simps [of env now "Suc fuel"] i_def [symmetric])
    next
      case (Some n')
      then have "rto_rounds env now (Suc fuel) n m =
          rto_rounds env now fuel n' (if rto_now_idx m2 mod 1000 = 0 then RearrangeRTOStore m2 else m2)"
        using w False by (simp add: rto_rounds.simps [of env now "Suc fuel"] i_def [symmetric] m2_def Let_def)
      then show ?thesis using Suc.IH [OF ok2(1)] Suc.IH [OF ok2(2)] by (auto split: if_splits)
    qed
  qed
qed

lemma okp_CheckRtmTimeout: "okp env L m \<Longrightarrow> \<exists>L'. okp env L' (CheckRtmTimeout env now thresh m)"
  using rto_rounds_ok by (auto simp: CheckRtmTimeout_def)

lemma timewait_walk_ok:
  assumes "okp env L m" "\<And>s. cur = Some s \<Longrightarrow> s \<in> set (timewait_list m)"
  shows "\<exists>L'. okp env L' (timewait_walk env now n cur m)"
  using assms
proof (induction n arbitrary: cur m L)
  case 0
  then show ?case by (cases cur) auto
next
  case (Suc n)
  show ?case
  proof (cases cur)
    case None
    then show ?thesis using Suc.prems by auto
  next
    case (Some s)
    have f: "L s" "on_timewait_list (streams m s)" using Suc.prems(2) Some okp_timer_lists(2) [OF Suc.prems(1)] by blast+
    have rm: "RemoveFromTimewaitList s m = tq_remove s (timewait_list m)
        (\<lambda>ys m1. (upd_stream s (\<lambda>t. t \<lparr> on_timewait_list := False \<rparr>) m1)
           \<lparr> timewait_list := ys, timewait_list_cnt := timewait_list_cnt m1 - 1 \<rparr>) m"
      using f by (simp add: RemoveFromTimewaitList_def)
    define m1 where "m1 = (if on_control_list (snd_v m s) then m
      else DestroyTCPStream env s (close_stream TCP_ACTIVE_CLOSE s (RemoveFromTimewaitList s m)))"
    have "may_end env L s m m1"
      unfolding m1_def using Suc.prems(1) f by (auto simp: okp_rules only_rules intro!: may_end_intros)
    then obtain l where ok1: "only s m m1" "okp env (L(s := l)) m1" by (auto simp: may_end_def)
    have "u \<in> set (timewait_list m1)" if "tq_next (timewait_list m) s = Some u" for u
      using tq_next_mem [OF that okp_timer_lists(5) [OF Suc.prems(1)]] okp_next_timer(2) [OF Suc.prems(1) ok1(2,1)] by blast
    from Suc.IH [OF ok1(2) this] obtain L' where "okp env L' (timewait_walk env now n (tq_next (timewait_list m) s) m1)" by blast
    moreover have "timewait_walk env now (Suc n) (Some s) m = (if sint (now - ts_tw_expire (rcv_v m s)) \<ge> 0
        then timewait_walk env now n (tq_next (timewait_list m) s) m1 else m)"
      using f by (simp add: Let_def rm m1_def)
    ultimately show ?thesis using Some Suc.prems(1) by (cases "sint (now - ts_tw_expire (rcv_v m s)) \<ge> 0") auto
  qed
qed

lemma timeout_walk_ok:
  assumes "okp env L m" "\<And>s. cur = Some s \<Longrightarrow> s \<in> set (timeout_list m)"
  shows "\<exists>L'. okp env L' (timeout_walk env now n cur m)"
  using assms
proof (induction n arbitrary: cur m L)
  case 0
  then show ?case by (cases cur) auto
next
  case (Suc n)
  show ?case
  proof (cases cur)
    case None
    then show ?thesis using Suc.prems by auto
  next
    case (Some s)
    have f: "L s" "on_timeout_list (streams m s)" using Suc.prems(2) Some okp_timer_lists(3) [OF Suc.prems(1)] by blast+
    have rm: "RemoveFromTimeoutList s m = tq_remove s (timeout_list m)
        (\<lambda>ys m1. m1 \<lparr> timeout_list := ys, timeout_list_cnt := timeout_list_cnt m1 - 1 \<rparr>)
        (upd_stream s (\<lambda>t. t \<lparr> on_timeout_list := False \<rparr>) m)"
      using f by (simp add: RemoveFromTimeoutList_def)
    define m1 where "m1 = notify_or_destroy env s (close_stream TCP_TIMEDOUT s (RemoveFromTimeoutList s m))"
    have "may_end env L s m m1"
      unfolding m1_def using Suc.prems(1) f by (auto simp: okp_rules only_rules intro!: may_end_intros)
    then obtain l where ok1: "only s m m1" "okp env (L(s := l)) m1" by (auto simp: may_end_def)
    have "u \<in> set (timeout_list m1)" if "tq_next (timeout_list m) s = Some u" for u
      using tq_next_mem [OF that okp_timer_lists(6) [OF Suc.prems(1)]] okp_next_timer(3) [OF Suc.prems(1) ok1(2,1)] by blast
    from Suc.IH [OF ok1(2) this] show ?thesis
      using Some Suc.prems(1) by (auto simp: Let_def rm [symmetric] m1_def [symmetric])
  qed
qed

lemma okp_CheckTimewaitExpire: "okp env L m \<Longrightarrow> \<exists>L'. okp env L' (CheckTimewaitExpire env now thresh m)"
  unfolding CheckTimewaitExpire_def by (rule timewait_walk_ok) (simp_all add: tq_first_mem)

lemma okp_CheckConnectionTimeout: "okp env L m \<Longrightarrow> \<exists>L'. okp env L' (CheckConnectionTimeout env now thresh m)"
  unfolding CheckConnectionTimeout_def by (rule timeout_walk_ok) (simp_all add: tq_first_mem)

end
