(* ===== verification/StackInit.thy ===== *)
theory StackInit
  imports StreamLife
begin

text \<open>
  The state a stack thread starts with (\<^verbatim>\<open>InitializeMTCPManager\<close> and \<^verbatim>\<open>CreateMTCPSender\<close> of \<^verbatim>\<open>core.c\<close>,
  \<^verbatim>\<open>InitRTOHashstore\<close> of \<^verbatim>\<open>timer.c\<close>), and that it satisfies the invariant of the stack with no stream.
\<close>

section \<open>The outcomes of the allocations\<close>

text \<open>The sizes of the three structures come from the compiler. The source does not test the \<^verbatim>\<open>calloc\<close> of the
  retransmission store, which is taken to succeed. \<open>ie_queues i\<close> are the two \<^verbatim>\<open>calloc\<close> outcomes of the
  \<open>i\<close>-th queue; the last three fields are the global tables that the configuration has filled before.\<close>

record init_env =
  ie_mgr :: bool
  ie_tables :: "bool \<times> bool"
  ie_flow :: "bool \<times> addr option \<times> (addr \<Rightarrow> mem_chunk)"
  ie_rv :: "bool \<times> addr option \<times> (addr \<Rightarrow> mem_chunk)"
  ie_sv :: "bool \<times> addr option \<times> (addr \<Rightarrow> mem_chunk)"
  ie_size_stream :: u32
  ie_size_rv :: u32
  ie_size_sv :: u32
  ie_sb :: sbm_env
  ie_rb :: rbm_env
  ie_rcvbuf_size :: u64
  ie_num_buffers :: u32
  ie_smap :: bool
  ie_log :: bool
  ie_queues :: "nat \<Rightarrow> bool \<times> bool"
  ie_sender :: "int \<Rightarrow> bool"
  ie_arp :: "arp_entry list"
  ie_arp_gateway :: "arp_entry option"
  ie_ap_dev :: "int \<Rightarrow> addr_pool option"

section \<open>The start state\<close>

definition BACKLOG_SIZE :: u32 where "BACKLOG_SIZE = 10240"

definition CreateMTCPSender :: mtcp_sender where
  "CreateMTCPSender = \<lparr> control_list = [], send_list = [], ack_list = [], control_list_cnt = 0, send_list_cnt = 0, ack_list_cnt = 0 \<rparr>"

definition InitRTOHashstore :: "nat \<Rightarrow> sid list" where
  "InitRTOHashstore = (\<lambda>_. [])"

definition unused_socket :: socket_map where
  "unused_socket = \<lparr> sock_type = MTCP_SOCK_UNUSED, sock_opts = 0, sock_saddr = \<lparr> sin_addr = 0, sin_port = 0 \<rparr>,
     sock_obj = SockNull, sock_epoll = 0, sock_events = 0, sock_ep_data = 0 \<rparr>"

text \<open>A step that may return a null pointer or exit the process, and the rest of the function.\<close>

definition need :: "'a option c_result \<Rightarrow> ('a \<Rightarrow> 'b option c_result) \<Rightarrow> 'b option c_result" where
  "need x f = (case x of Inl e \<Rightarrow> Inl e | Inr None \<Rightarrow> Inr None | Inr (Some a) \<Rightarrow> f a)"

definition create_pool :: "bool \<times> addr option \<times> (addr \<Rightarrow> mem_chunk) \<Rightarrow> u32 \<Rightarrow> int \<Rightarrow> mem_pool option c_result" where
  "create_pool x sz n = (case x of (ok, start, mem) \<Rightarrow> MPCreate ok start mem sz (ucast sz * of_int n))"

definition create_queue :: "init_env \<Rightarrow> nat \<Rightarrow> u32 \<Rightarrow> addr click_queue option c_result" where
  "create_queue ie i n = Inr (CreateStreamQueue (fst (ie_queues ie i)) (snd (ie_queues ie i)) n)"

definition create_queue_int :: "init_env \<Rightarrow> nat \<Rightarrow> u32 \<Rightarrow> addr stream_queue_int option c_result" where
  "create_queue_int ie i n = Inr (CreateInternalStreamQueue (fst (ie_queues ie i)) (snd (ie_queues ie i)) n)"

text \<open>What the chunks of the pools hold before their first use is not read; it is taken to be zero.\<close>

definition InitializeMTCPManager :: "init_env \<Rightarrow> stack_env \<Rightarrow> mtcp_manager option c_result" where
  "InitializeMTCPManager ie env =
    (let conc = max_concurrency env; n = of_int conc in
     if \<not> ie_mgr ie \<or> \<not> fst (ie_tables ie) \<or> \<not> snd (ie_tables ie) then Inr None
     else
       need (create_pool (ie_flow ie) (ie_size_stream ie) conc) (\<lambda>fp.
       need (create_pool (ie_rv ie) (ie_size_rv ie) conc) (\<lambda>rp.
       need (create_pool (ie_sv ie) (ie_size_sv ie) conc) (\<lambda>sp.
       need (SBManagerCreate (ie_sb ie) (ucast (sndbuf_size env)) (ie_num_buffers ie)) (\<lambda>sbm.
       need (RBManagerCreate (ie_rb ie) (ie_rcvbuf_size ie) (ie_num_buffers ie)) (\<lambda>rbm.
       if \<not> ie_smap ie \<or> \<not> ie_log ie then Inr None
       else
       need (create_queue ie 0 BACKLOG_SIZE) (\<lambda>q0.
       need (create_queue ie 1 n) (\<lambda>q1.
       need (create_queue ie 2 n) (\<lambda>q2.
       need (create_queue ie 3 n) (\<lambda>q3.
       need (create_queue_int ie 4 n) (\<lambda>q4.
       need (create_queue ie 5 n) (\<lambda>q5.
       need (create_queue_int ie 6 n) (\<lambda>q6.
       need (create_queue ie 7 n) (\<lambda>q7.
       if \<not> (\<forall>i\<in>set [- 1..int (length (eths env)) - 1]. ie_sender ie i) then Inr None
       else Inr (Some
         \<lparr> fault = None, streams = (\<lambda>_. zero_stream), flow_pool = fp, rv_pool = rp, sv_pool = sp, rbm_snd = sbm, rbm_rcv = rbm,
           flow_table = (\<lambda>_. []), smap = (\<lambda>_. unused_socket), free_smap = [0..<nat conc], pipes = (\<lambda>_. None),
           ap_core = None, ap_dev = ie_ap_dev ie, g_id = 0, flow_cnt = 0, ep = None, ts_last_event = 0,
           listeners = (\<lambda>_. []), listener_mem = undefined, connectq = q0, sendq = q1, ackq = q2, closeq = q3, closeq_int = q4,
           resetq = q5, resetq_int = q6, destroyq = q7, senders = (\<lambda>_. CreateMTCPSender), rto_now_idx = 0, rto_now_ts = 0,
           rto_list = InitRTOHashstore, timewait_list = [], timeout_list = [], rto_list_cnt = 0, timewait_list_cnt = 0,
           timeout_list_cnt = 0, cur_ts = 0, wakeup_flag = False, arp_entries = ie_arp ie, arp_gateway = ie_arp_gateway ie,
           arp_queue = [], tx = [], wptr_calls = 0 \<rparr>)))))))))))))))"

section \<open>The invariant holds at the start\<close>

lemma need_Some: "need x f = Inr (Some b) \<longleftrightarrow> (\<exists>a. x = Inr (Some a) \<and> f a = Inr (Some b))"
  by (auto simp: need_def split: sum.splits option.splits)

lemma need_ok: "x = Inr (Some a) \<Longrightarrow> need x f = f a"
  by (simp add: need_def)

text \<open>What the pool of streams is created with: a chunk size the allocator accepts and at least one stream.\<close>

definition pool_args :: "u32 \<Rightarrow> int \<Rightarrow> bool" where
  "pool_args sz n \<longleftrightarrow> 16 \<le> unat sz \<and> unat sz < 2 ^ 31 \<and> sint sz mod 4 = 0 \<and> 0 < n \<and> n < 2 ^ 31"

lemma create_pool_rel:
  assumes "create_pool x sz n = Inr (Some mp)" "pool_args sz n"
  shows "\<exists>xs. pool_rel mp xs \<and> set xs = pool_chunks mp \<and> length xs = nat n"
proof -
  obtain ok start mem where x: "x = (ok, start, mem)" by (cases x)
  let ?t = "ucast sz * of_int n :: u64"
  have a: "16 \<le> unat sz" "unat sz < 2 ^ 31" "sint sz mod 4 = 0" "0 < nat n" "nat n < 2 ^ 31"
    using assms(2) by (simp_all add: pool_args_def nat_less_iff)
  have n: "unat (of_int n :: u64) = nat n"
  proof -
    have "n mod 2 ^ 64 = n" using assms(2) by (intro mod_pos_pos_trivial) (simp_all add: pool_args_def)
    then have "uint (of_int n :: u64) = n" by (simp add: uint_word_of_int)
    then show ?thesis by (simp only: unat_eq_nat_uint)
  qed
  have lt: "unat sz * nat n < 2 ^ 31 * 2 ^ 31" using a by (intro mult_strict_mono) simp_all
  have "unat (ucast sz :: u64) = unat sz" 
    using a(2) by (simp add: unsigned_ucast_eq take_bit_nat_eq_self)
  with lt have t: "unat ?t = unat sz * nat n" by (simp only: unat_word_ariths(2) n) simp
  have sl: "pool_slots (unat sz) (unat ?t) = nat n"
  proof -
    have "(unat sz * nat n + (unat sz - 1)) div unat sz = nat n + (unat sz - 1) div unat sz"
      using a(1) by (intro div_mult_self4) simp
    then show ?thesis using a(1) by (simp only: t pool_slots_def) simp
  qed
  obtain c where "ok" "start = Some c"
    using assms(1) a by (auto simp: x create_pool_def MPCreate_def Let_def split: if_splits option.splits)
  moreover have "\<exists>mp xs. MPCreate True (Some c) mem sz ?t = Inr (Some mp) \<and> pool_rel mp xs \<and>
      set xs = pool_chunks mp \<and> length xs = pool_slots (unat sz) (unat ?t)"
    using a lt sl by (intro MPCreate_OK) (simp_all add: t)
  ultimately show ?thesis using assms(1) by (auto simp: x create_pool_def sl)
qed

lemma empty_lists: "listed [] {}"
  by (simp add: listed_def)

theorem InitializeMTCPManager_okp:
  assumes "InitializeMTCPManager ie env = Inr (Some m)" "pool_args (ie_size_stream ie) (max_concurrency env)"
  shows "okp env (\<lambda>_. False) m" "fault m = None" "rto_now_idx m = 0"
proof -
  obtain fp where fp: "create_pool (ie_flow ie) (ie_size_stream ie) (max_concurrency env) = Inr (Some fp)" "flow_pool m = fp"
    and m: "streams m = (\<lambda>_. zero_stream)" "flow_table m = (\<lambda>_. [])" "senders m = (\<lambda>_. CreateMTCPSender)"
      "rto_list m = (\<lambda>_. [])" "timewait_list m = []" "timeout_list m = []" "rto_list_cnt m = 0" "timewait_list_cnt m = 0" "timeout_list_cnt m = 0"
    and r: "fault m = None" "rto_now_idx m = 0"
    using assms(1) by (auto simp: InitializeMTCPManager_def Let_def need_Some InitRTOHashstore_def split: if_splits)
  show "fault m = None" "rto_now_idx m = 0" by (fact r)+
  have z: "\<not> on_hash_table zero_stream" by (simp add: zero_stream_def)
  then have dead: "\<not> live m s" for s by (simp add: m)
  have "chunks_ok m" using create_pool_rel [OF fp(1) assms(2)] by (auto simp: chunks_ok_def fp(2) dead)
  moreover have "lists_ok env m"
    by (simp add: lists_ok_def sender_ok_def timers_ok_def z m CreateMTCPSender_def control_set_def send_set_def ack_set_def
        rto_set_def timewait_set_def timeout_set_def empty_lists)
  ultimately show "okp env (\<lambda>_. False) m"
    by (simp add: okp_def stack_inv_def timeout_ok_def routed_def table_ok_def z m empty_lists fun_eq_iff)
qed

section \<open>A small configuration\<close>

text \<open>One interface with the address 10.0.0.1, one route, two streams; it shows that the hypotheses of the results
  about the whole stack can be met.\<close>

definition demo_stack :: stack_env where
  "demo_stack = \<lparr> max_concurrency = 2, sndbuf_size = 16, tcp_timeout = 30, tcp_timewait = 5,
     eths = [\<lparr> eth_ifindex = 0, eth_haddr = [2, 0, 0, 0, 0, 1], eth_ip_addr = 0x0100000A, eth_netmask = 0x000000FF \<rparr>],
     nif_to_eidx = (\<lambda>_. 0),
     rtable = [\<lparr> rt_daddr = 0x0000000A, rt_mask = 0x000000FF, rt_masked = 0x0000000A, rt_prefix = 8, rt_nif = 0 \<rparr>],
     gateway = None, wptr = (\<lambda>_. True), hw_csum = True, rand_iss = 1000, malloc_ok = True, frag_calloc = None,
     chunk_bytes = (\<lambda>_. replicate 16 0), icmp_junk = 0 \<rparr>"

definition demo_heap :: "addr \<Rightarrow> bool \<times> addr option \<times> (addr \<Rightarrow> mem_chunk)" where
  "demo_heap a = (True, Some a, \<lambda>_. \<lparr> mc_free_chunks = 0, mc_next = None \<rparr>)"

definition demo_init :: init_env where
  "demo_init = \<lparr> ie_mgr = True, ie_tables = (True, True), ie_flow = demo_heap 4096, ie_rv = demo_heap 8192, ie_sv = demo_heap 12288,
     ie_size_stream = 256, ie_size_rv = 128, ie_size_sv = 128,
     ie_sb = \<lparr> env_sbm_ok = True, env_sb_mp = demo_heap 16384, env_sbq = (True, True) \<rparr>,
     ie_rb = demo_env, ie_rcvbuf_size = 16, ie_num_buffers = 2, ie_smap = True, ie_log = True, ie_queues = (\<lambda>_. (True, True)),
     ie_sender = (\<lambda>_. True), ie_arp = [], ie_arp_gateway = None, ie_ap_dev = (\<lambda>_. None) \<rparr>"

definition demo_mtcp :: mtcp_manager where
  "demo_mtcp = (case InitializeMTCPManager demo_init demo_stack of Inr (Some m) \<Rightarrow> m)"

lemma demo_pool:
  "create_pool (demo_heap a) 256 2 = Inr (Some \<lparr> mp_startptr = a, mp_freeptr = Some a, mp_free_chunks = 2, mp_total_chunks = 2, mp_chunk_size = 256,
     mp_mem = (\<lambda>_. \<lparr> mc_free_chunks = 0, mc_next = None \<rparr>)(a := \<lparr> mc_free_chunks = 2, mc_next = None \<rparr>) \<rparr>)"
  "create_pool (demo_heap a) 128 2 = Inr (Some \<lparr> mp_startptr = a, mp_freeptr = Some a, mp_free_chunks = 2, mp_total_chunks = 2, mp_chunk_size = 128,
     mp_mem = (\<lambda>_. \<lparr> mc_free_chunks = 0, mc_next = None \<rparr>)(a := \<lparr> mc_free_chunks = 2, mc_next = None \<rparr>) \<rparr>)"
  by (simp_all add: create_pool_def demo_heap_def MPCreate_def size_of_int_def sizeof_mem_chunk_def put_header_def Let_def)

lemma demo_queues:
  "create_queue demo_init i n = Inr (click_create True True n)" "create_queue_int demo_init i n = Inr (CreateInternalStreamQueue True True n)"
  by (simp_all add: create_queue_def create_queue_int_def CreateStreamQueue_def demo_init_def)

definition demo_mem_pool :: "addr \<Rightarrow> u32 \<Rightarrow> mem_pool" where
  "demo_mem_pool a sz = \<lparr> mp_startptr = a, mp_freeptr = Some a, mp_free_chunks = 2, mp_total_chunks = 2, mp_chunk_size = sz,
     mp_mem = (\<lambda>_. \<lparr> mc_free_chunks = 0, mc_next = None \<rparr>)(a := \<lparr> mc_free_chunks = 2, mc_next = None \<rparr>) \<rparr>"

lemma demo_start_ok:
  "InitializeMTCPManager demo_init demo_stack = Inr (Some demo_mtcp)"
  "flow_pool demo_mtcp = demo_mem_pool 4096 256" "rv_pool demo_mtcp = demo_mem_pool 8192 128" "sv_pool demo_mtcp = demo_mem_pool 12288 128"
  "streams demo_mtcp = (\<lambda>_. zero_stream)" "flow_table demo_mtcp = (\<lambda>_. [])" "flow_cnt demo_mtcp = 0" "tx demo_mtcp = []" "wptr_calls demo_mtcp = 0" "rto_list_cnt demo_mtcp = 0"
proof -
  obtain sbm where "SBManagerCreate (ie_sb demo_init) 16 2 = Inr (Some sbm)"
    by (simp add: SBManagerCreate_def demo_init_def demo_heap_def MPCreate_def size_of_int_def sizeof_mem_chunk_def Let_def
        CreateSBQueue_def click_create_def)
  moreover have "max_concurrency demo_stack = 2" "ucast (sndbuf_size demo_stack) = (16 :: u64)" by (simp_all add: demo_stack_def)
  moreover have "ie_flow demo_init = demo_heap 4096" "ie_rv demo_init = demo_heap 8192" "ie_sv demo_init = demo_heap 12288"
    "ie_size_stream demo_init = 256" "ie_size_rv demo_init = 128" "ie_size_sv demo_init = 128" "ie_rb demo_init = demo_env"
    "ie_rcvbuf_size demo_init = 16" "ie_num_buffers demo_init = 2" "ie_mgr demo_init" "ie_tables demo_init = (True, True)"
    "ie_smap demo_init" "ie_log demo_init" "ie_sender demo_init = (\<lambda>_. True)" by (simp_all add: demo_init_def)
  ultimately obtain m where m: "InitializeMTCPManager demo_init demo_stack = Inr (Some m)"
    "flow_pool m = demo_mem_pool 4096 256" "rv_pool m = demo_mem_pool 8192 128" "sv_pool m = demo_mem_pool 12288 128"
    "streams m = (\<lambda>_. zero_stream)" "flow_table m = (\<lambda>_. [])" "flow_cnt m = 0" "tx m = []" "wptr_calls m = 0" "rto_list_cnt m = 0"
    by (simp add: InitializeMTCPManager_def need_def demo_queues demo_pool demo_rbm_OK(1) CreateInternalStreamQueue_def click_create_def
        Let_def demo_mem_pool_def)
  then have "demo_mtcp = m" by (simp add: demo_mtcp_def)
  with m show "InitializeMTCPManager demo_init demo_stack = Inr (Some demo_mtcp)"
    "flow_pool demo_mtcp = demo_mem_pool 4096 256" "rv_pool demo_mtcp = demo_mem_pool 8192 128" "sv_pool demo_mtcp = demo_mem_pool 12288 128"
    "streams demo_mtcp = (\<lambda>_. zero_stream)" "flow_table demo_mtcp = (\<lambda>_. [])" "flow_cnt demo_mtcp = 0" "tx demo_mtcp = []" "wptr_calls demo_mtcp = 0" "rto_list_cnt demo_mtcp = 0"
    by simp_all
qed


lemma demo_okp: "okp demo_stack (\<lambda>_. False) demo_mtcp" "fault demo_mtcp = None" "rto_now_idx demo_mtcp = 0"
  using InitializeMTCPManager_okp [OF demo_start_ok(1)] by (simp_all add: pool_args_def demo_init_def demo_stack_def)

lemma demo_env_ok: "env_ok demo_stack"
  by (simp add: env_ok_def demo_stack_def)

lemma demo_route: "GetOutputInterface demo_stack 0x0200000A = Inr (0, False)"
  by (simp add: GetOutputInterface_def demo_stack_def)

text \<open>The same with one stream, from 10.0.0.1 to 10.0.0.2.\<close>

definition demo_one :: mtcp_manager where
  "demo_one = snd (CreateTCPStream demo_stack None 0 0x0100000A 80 0x0200000A 1024 demo_mtcp)"

lemma demo_one_created:
  "fst (CreateTCPStream demo_stack None 0 0x0100000A 80 0x0200000A 1024 demo_mtcp) = Some 4096"
  "\<exists>h. streams demo_one = (\<lambda>_. zero_stream)(4096 := init_stream demo_stack 0 (0, False) (zero_stream \<lparr> stream_id := g_id demo_mtcp,
     saddr := 0x0100000A, sport := 80, daddr := 0x0200000A, dport := 1024, on_hash_table := True, ht_idx := h, rcvvar_p := 8192, sndvar_p := 12288 \<rparr>))"
  "tx demo_one = []" "wptr_calls demo_one = 0" "fault demo_one = None" "rto_list_cnt demo_one = 0"
proof -
  obtain p q r where al: "MPAllocateChunk (demo_mem_pool 4096 256) = Inr (Some 4096, p)" "MPAllocateChunk (demo_mem_pool 8192 128) = Inr (Some 8192, q)"
    "MPAllocateChunk (demo_mem_pool 12288 128) = Inr (Some 12288, r)"
    by (simp add: demo_mem_pool_def MPAllocateChunk_def put_header_def Let_def)
  show "fst (CreateTCPStream demo_stack None 0 0x0100000A 80 0x0200000A 1024 demo_mtcp) = Some 4096"
    "\<exists>h. streams demo_one = (\<lambda>_. zero_stream)(4096 := init_stream demo_stack 0 (0, False) (zero_stream \<lparr> stream_id := g_id demo_mtcp,
       saddr := 0x0100000A, sport := 80, daddr := 0x0200000A, dport := 1024, on_hash_table := True, ht_idx := h, rcvvar_p := 8192, sndvar_p := 12288 \<rparr>))"
    "tx demo_one = []" "wptr_calls demo_one = 0" "fault demo_one = None" "rto_list_cnt demo_one = 0"
    by (auto simp: demo_one_def CreateTCPStream_def alloc_stream_def demo_start_ok StreamHTInsert_def demo_route upd_stream_def Let_def al HashFlow_less
        init_stream_def zero_stream_def demo_okp(2) intro!: ext)
qed

lemma demo_one_okp: "okp demo_stack ((\<lambda>_. False)(4096 := True)) demo_one"
  using CreateTCPStream_ok [OF demo_env_ok demo_okp(1) surjective_pairing] demo_one_created(1)
  unfolding demo_one_def by blast

lemma demo_stream:
  "live demo_one 4096" "on_rto_idx (streams demo_one 4096) = - 1" "\<not> on_timewait_list (streams demo_one 4096)"
  "\<not> on_timeout_list (streams demo_one 4096)" "state (streams demo_one 4096) = TCP_ST_LISTEN" "sock (streams demo_one 4096) = None"
  "snd_nxt (streams demo_one 4096) = 1000" "rcv_nxt (streams demo_one 4096) = 0"
  "snd_v demo_one 4096 = zero_sndvar \<lparr> ip_id := 0, mss := 1460, wscale_mine := 7, wscale_peer := 0, nif_out := 0, iss := 1000, snd_una := 1000,
     snd_wnd := 16, rto := 500 \<rparr>"
  using demo_one_created(2)
  by (auto simp: init_stream_def demo_stack_def zero_stream_def Let_def TCP_MAX_SEQ_def TCP_DEFAULT_MSS_def TCP_DEFAULT_WSCALE_def TCP_INITIAL_RTO_def)

end
