(* ===== verification/RtoClock.thy ===== *)
theory RtoClock
  imports Timer StackInit
begin

text \<open>
  The clock of the retransmission store (\<^verbatim>\<open>struct rto_hashstore\<close>, \<^verbatim>\<open>timer.c\<close>): the index of the bucket that is
  checked next and the tick it stands for. Only \<^verbatim>\<open>CheckRtmTimeout\<close> moves it while timers are pending, so the
  number of turns of its outer loop is known beforehand and, with a threshold as large as the number of pending
  timers, it catches up with the current time. A timer that \<^verbatim>\<open>AddtoRTOList\<close> enters lies in the bucket that is
  checked at its tick; one that \<^verbatim>\<open>RearrangeRTOStore\<close> moves does not.
\<close>

section \<open>What moves the clock\<close>

text \<open>\<open>clock_rules\<close> peel one operation off the state.\<close>

named_theorems clock_rules

definition clock :: "mtcp_manager \<Rightarrow> u32 \<times> u32" where
  "clock m = (rto_now_idx m, rto_now_ts m)"

text \<open>The clock shows \<open>c\<close> and at most \<open>k\<close> timers are pending.\<close>

definition calm :: "u32 \<times> u32 \<Rightarrow> int \<Rightarrow> mtcp_manager \<Rightarrow> bool" where
  "calm c k m \<longleftrightarrow> clock m = c \<and> rto_list_cnt m \<le> k"

lemma calm_fields [simp]:
  "calm c k (m \<lparr> fault := x1 \<rparr>) = calm c k m" "calm c k (m \<lparr> streams := x2 \<rparr>) = calm c k m"
  "calm c k (m \<lparr> flow_pool := x3 \<rparr>) = calm c k m" "calm c k (m \<lparr> rv_pool := x4 \<rparr>) = calm c k m"
  "calm c k (m \<lparr> sv_pool := x5 \<rparr>) = calm c k m" "calm c k (m \<lparr> rbm_snd := x6 \<rparr>) = calm c k m"
  "calm c k (m \<lparr> rbm_rcv := x7 \<rparr>) = calm c k m" "calm c k (m \<lparr> flow_table := x8 \<rparr>) = calm c k m"
  "calm c k (m \<lparr> smap := x9 \<rparr>) = calm c k m" "calm c k (m \<lparr> ap_core := x10 \<rparr>) = calm c k m"
  "calm c k (m \<lparr> ap_dev := x11 \<rparr>) = calm c k m" "calm c k (m \<lparr> flow_cnt := x12 \<rparr>) = calm c k m"
  "calm c k (m \<lparr> ep := x13 \<rparr>) = calm c k m" "calm c k (m \<lparr> senders := x14 \<rparr>) = calm c k m"
  "calm c k (m \<lparr> rto_list := x15 \<rparr>) = calm c k m" "calm c k (m \<lparr> timewait_list := x16 \<rparr>) = calm c k m"
  "calm c k (m \<lparr> timewait_list_cnt := x17 \<rparr>) = calm c k m" "calm c k (m \<lparr> timeout_list := x18 \<rparr>) = calm c k m"
  "calm c k (m \<lparr> timeout_list_cnt := x19 \<rparr>) = calm c k m"
  by (simp_all add: calm_def clock_def)

lemma calm_upd [simp]:
  "calm c k (upd_stream s f m) = calm c k m" "calm c k (upd_snd s g m) = calm c k m" "calm c k (upd_rcv s h m) = calm c k m"
  "calm c k (raise e m) = calm c k m" "calm c k (upd_sender i f' m) = calm c k m" "calm c k (set_rto_list j xs m) = calm c k m"
  by (simp_all add: m_simps raise_def upd_sender_def set_rto_list_def split: option.split)

lemma calm_less [intro]: "calm c k m \<Longrightarrow> calm c k (m \<lparr> rto_list_cnt := rto_list_cnt m - 1 \<rparr>)"
  by (simp add: calm_def clock_def)

lemma calm_tq_remove:
  "calm c k m \<Longrightarrow> (\<And>ys. calm c k (store ys m)) \<Longrightarrow> calm c k (tq_remove s xs store m)"
  by (simp add: tq_remove_def split: sum.split)

lemma calm_peel [clock_rules]:
  "calm c k m \<Longrightarrow> calm c k (upd_stream s f m)" "calm c k m \<Longrightarrow> calm c k (upd_snd s g m)" "calm c k m \<Longrightarrow> calm c k (upd_rcv s h m)"
  "calm c k m \<Longrightarrow> calm c k (raise e m)" "calm c k m \<Longrightarrow> calm c k (m \<lparr> flow_cnt := n \<rparr>)"
  "calm c k x \<Longrightarrow> calm c k y \<Longrightarrow> calm c k (if b then x else y)"
  "calm c k (snd p) \<Longrightarrow> calm c k (snd q) \<Longrightarrow> calm c k (snd (if b then p else q))"
  "calm c k m \<Longrightarrow> calm c k (snd (i, m))"
  by simp_all

lemma calm_rto_unlink:
  "calm c k m \<Longrightarrow> calm c k (tq_remove s (rto_list m i)
     (\<lambda>ys m1. (set_rto_list i ys (upd_stream s (\<lambda>t. t \<lparr> on_rto_idx := - 1 \<rparr>) m1)) \<lparr> rto_list_cnt := rto_list_cnt m1 - 1 \<rparr>) m)"
  by (rule calm_tq_remove) (simp_all add: calm_def clock_def set_rto_list_def m_simps)

lemma calm_RemoveFromRTOList [clock_rules]: "calm c k m \<Longrightarrow> calm c k (RemoveFromRTOList s m)"
  by (simp add: RemoveFromRTOList_def Let_def calm_rto_unlink)

lemma calm_lists [clock_rules]:
  assumes "calm c k m"
  shows "calm c k (AddtoControlList env s m)" "calm c k (AddtoSendList env s m)"
    "calm c k (RemoveFromControlList env s m)" "calm c k (RemoveFromSendList env s m)" "calm c k (RemoveFromACKList env s m)"
    "calm c k (RemoveFromTimewaitList s m)" "calm c k (RemoveFromTimeoutList s m)"
  using assms
  by (simp_all add: AddtoControlList_def AddtoSendList_def RemoveFromControlList_def RemoveFromSendList_def
      RemoveFromACKList_def RemoveFromTimewaitList_def RemoveFromTimeoutList_def Let_def calm_tq_remove split: option.split)

lemma calm_parts [clock_rules]:
  assumes "calm c k m"
  shows "calm c k (free_flow s m)" "calm c k (free_rv a m)" "calm c k (free_sv a m)" "calm c k (StreamHTRemove s m)"
    "calm c k (free_buffers s m)" "calm c k (release_address env b m)" "calm c k (RaiseErrorEvent s m)"
    "calm c k (close_stream r s m)"
  using assms
  by (simp_all add: free_buffers_def release_address_def free_address_def free_flow_def free_rv_def free_sv_def
      StreamHTRemove_def calm_tq_remove RaiseErrorEvent_def AddEpollEvent_def close_stream_def Let_def
      split: option.split sum.split prod.split)

lemma calm_leave_lists [clock_rules]: "calm c k m \<Longrightarrow> calm c k (leave_lists env s m)"
  unfolding leave_lists_def Let_def by (intro clock_rules)

lemma calm_DestroyTCPStream [clock_rules]: "calm c k m \<Longrightarrow> calm c k (DestroyTCPStream env s m)"
  unfolding DestroyTCPStream_def Let_def by (intro clock_rules)

lemma calm_retransmit [clock_rules]: "calm c k m \<Longrightarrow> calm c k (retransmit env s m)"
  unfolding retransmit_def Let_def by (intro clock_rules)

lemma calm_HandleRTO [clock_rules]: "calm c k m \<Longrightarrow> calm c k (snd (HandleRTO env now s m))"
  unfolding HandleRTO_def notify_or_destroy_def Let_def by (intro clock_rules)

lemma calm_rto_walk: "calm c k m \<Longrightarrow> calm c k (snd (rto_walk env now i n cur m))"
proof (induction env now i n cur m rule: rto_walk.induct)
  case (3 env now i n s m)
  show ?case unfolding rto_walk.simps Let_def
    by (rule 3(1) [OF refl]) (intro clock_rules calm_rto_unlink 3(2))
qed simp_all

lemma calm_rearrange_one: "calm c k m \<Longrightarrow> calm c k (rearrange_one s m)"
  unfolding rearrange_one_def Let_def by (intro clock_rules calm_tq_remove) simp_all

lemma calm_RearrangeRTOStore [clock_rules]: "calm c k m \<Longrightarrow> calm c k (RearrangeRTOStore m)"
proof -
  have "calm c k m \<Longrightarrow> calm c k (fold rearrange_one xs m)" for xs
    by (induction xs arbitrary: m) (simp_all add: calm_rearrange_one)
  then show "calm c k m \<Longrightarrow> calm c k (RearrangeRTOStore m)" by (simp add: RearrangeRTOStore_def)
qed

section \<open>The outer loop ends\<close>

lemma sint_tick: "0 \<le> sint (now - t) \<Longrightarrow> sint (now - (t + 1)) = sint (now - t) - 1" for now t :: u32
proof -
  assume a: "0 \<le> sint (now - t)"
  have b: "sint (now - t) < 2147483648" using sint_lt [of "now - t"] by simp
  have "sint (now - (t + 1)) = sint ((now - t) - 1)" by (simp add: algebra_simps)
  also have "\<dots> = signed_take_bit 31 (sint (now - t) - 1)" by (simp add: sint_word_ariths(2))
  also have "\<dots> = sint (now - t) - 1" using a b by (intro signed_take_bit_int_eq_self) simp_all
  finally show ?thesis .
qed

abbreviation behind :: "u32 \<Rightarrow> mtcp_manager \<Rightarrow> int" where "behind now m \<equiv> sint (now - rto_now_ts m)"

definition after_turn :: "mtcp_manager \<Rightarrow> mtcp_manager" where
  "after_turn m = (if rto_now_idx (rto_tick m) mod 1000 = 0 then RearrangeRTOStore (rto_tick m) else rto_tick m)"

lemma rto_rounds_Suc:
  "0 \<le> behind now m \<Longrightarrow> unat (rto_now_idx m) \<le> RTO_HASH \<Longrightarrow> rto_rounds env now (Suc fuel) n m =
    (let i = unat (rto_now_idx m) in case rto_walk env now i n (tq_first (rto_list m i)) m of
       (None, m1) \<Rightarrow> m1 | (Some n', m1) \<Rightarrow> rto_rounds env now fuel n' (after_turn m1))"
  by (simp add: rto_rounds.simps [of env now "Suc fuel"] after_turn_def Let_def split: prod.split option.split)

lemma calm_after_turn:
  assumes "calm c k m"
  shows "calm ((fst c + 1) mod of_nat RTO_HASH, snd c + 1) k (after_turn m)"
proof -
  have "calm ((fst c + 1) mod of_nat RTO_HASH, snd c + 1) k (rto_tick m)"
    using assms by (auto simp: calm_def clock_def rto_tick_def)
  then show ?thesis unfolding after_turn_def by (intro clock_rules)
qed

lemma rto_rounds_enough:
  "behind now m < int fuel \<Longrightarrow> behind now m < int fuel' \<Longrightarrow> rto_rounds env now fuel n m = rto_rounds env now fuel' n m"
proof (induction fuel arbitrary: fuel' n m)
  case 0
  then show ?case by (simp add: rto_rounds.simps [of env now 0] rto_rounds.simps [of env now fuel'])
next
  case (Suc fuel)
  show ?case
  proof (cases "behind now m < 0 \<or> \<not> unat (rto_now_idx m) \<le> RTO_HASH")
    case True
    then show ?thesis using Suc.prems
      by (cases fuel') (auto simp: rto_rounds.simps [of env now "Suc fuel"] rto_rounds.simps [of env now fuel'] rto_rounds.simps [of env now 0] rto_rounds.simps [of env now "Suc f" for f])
  next
    case False
    then obtain f where f: "fuel' = Suc f" using Suc.prems(2) by (cases fuel') auto
    define i where "i = unat (rto_now_idx m)"
    obtain x m1 where w: "rto_walk env now i n (tq_first (rto_list m i)) m = (x, m1)" by fastforce
    have "calm (clock m) (rto_list_cnt m) m1"
      using calm_rto_walk [of "clock m" "rto_list_cnt m" m env now i n "tq_first (rto_list m i)"] w by (simp add: calm_def)
    from calm_after_turn [OF this] have "behind now (after_turn m1) = behind now m - 1"
      using False by (auto simp: calm_def clock_def sint_tick)
    then have "rto_rounds env now fuel n' (after_turn m1) = rto_rounds env now f n' (after_turn m1)" for n'
      using Suc.prems by (intro Suc.IH) (simp_all add: f)
    then show ?thesis using False w by (simp add: f rto_rounds_Suc i_def [symmetric] Let_def split: option.split)
  qed
qed

section \<open>Catching up\<close>

lemma cnt_pos:
  assumes "okp env L m" "s \<in> set (rto_list m i)" "i \<le> RTO_HASH"
  shows "0 < rto_list_cnt m"
proof -
  have "rto_list_cnt m = (\<Sum>i\<le>RTO_HASH. int (length (rto_list m i)))"
    using assms(1) by (simp add: okp_def stack_inv_def lists_ok_def timers_ok_def)
  moreover have "0 < int (length (rto_list m i))" using assms(2) by (cases "rto_list m i") auto
  ultimately show ?thesis using assms(3) by (auto intro!: sum_pos2 [of _ i])
qed

lemma rto_walk_all:
  assumes "okp env L m" "\<And>s. cur = Some s \<Longrightarrow> s \<in> set (rto_list m i)" "i \<le> RTO_HASH" "rto_list_cnt m \<le> int n"
  shows "\<exists>n' m'. rto_walk env now i n cur m = (Some n', m') \<and> rto_list_cnt m' \<le> int n'"
  using assms
proof (induction n arbitrary: cur m L)
  case 0
  then show ?case using cnt_pos [OF 0(1)] by (cases cur) force+
next
  case (Suc n)
  show ?case
  proof (cases cur)
    case None
    then show ?thesis using Suc.prems by auto
  next
    case (Some s)
    have f: "L s" "on_rto_idx (streams m s) = int i" "s \<in> set (rto_list m i)"
      using Suc.prems(2) Some okp_timer_lists(1) [OF Suc.prems(1)] by blast+
    define m1 where "m1 = snd (HandleRTO env now s (RemoveFromRTOList s m))"
    have rm: "RemoveFromRTOList s m = tq_remove s (rto_list m i)
        (\<lambda>ys m1. (set_rto_list i ys (upd_stream s (\<lambda>t. t \<lparr> on_rto_idx := - 1 \<rparr>) m1)) \<lparr> rto_list_cnt := rto_list_cnt m1 - 1 \<rparr>) m"
      using f Suc.prems(3) by (simp add: RemoveFromRTOList_def Let_def)
    have "may_end env L s m m1"
      unfolding m1_def by (rule HandleRTO_ok) (simp_all add: Suc.prems f okp_rules only_rules)
    then obtain l where ok1: "only s m m1" "okp env (L(s := l)) m1" by (auto simp: may_end_def)
    have nx: "u \<in> set (rto_list m1 i)" if "tq_next (rto_list m i) s = Some u" for u
      using tq_next_mem [OF that okp_timer_lists(4) [OF Suc.prems(1)]] okp_next_timer(1) [OF Suc.prems(1) ok1(2,1)] by blast
    have "rto_list_cnt (RemoveFromRTOList s m) = rto_list_cnt m - 1"
      using f(3) by (simp add: rm tq_remove_mem)
    then have "calm (clock (RemoveFromRTOList s m)) (int n) (RemoveFromRTOList s m)" using Suc.prems(4) by (simp add: calm_def)
    then have "rto_list_cnt m1 \<le> int n" unfolding m1_def using calm_HandleRTO by (simp add: calm_def)
    from Suc.IH [OF ok1(2) nx Suc.prems(3) this] show ?thesis
      using f Some by (simp add: Let_def rm [symmetric] m1_def [symmetric])
  qed
qed

lemma rto_rounds_catch_up:
  assumes "okp env L m" "unat (rto_now_idx m) < RTO_HASH" "rto_list_cnt m \<le> int n" "- 1 \<le> behind now m" "behind now m < int fuel"
  shows "behind now (rto_rounds env now fuel n m) = - 1"
  using assms
proof (induction fuel arbitrary: n m L)
  case 0
  then show ?case by (simp add: rto_rounds.simps [of env now 0])
next
  case (Suc fuel)
  show ?case
  proof (cases "behind now m < 0")
    case True
    then show ?thesis using Suc.prems by (simp add: rto_rounds.simps [of env now "Suc fuel"])
  next
    case False
    define i where "i = unat (rto_now_idx m)"
    define cur where "cur = tq_first (rto_list m i)"
    have i: "i \<le> RTO_HASH" using Suc.prems(2) by (simp add: i_def)
    have mem: "cur = Some s \<Longrightarrow> s \<in> set (rto_list m i)" for s by (simp add: cur_def tq_first_mem)
    obtain n' m1 where w: "rto_walk env now i n cur m = (Some n', m1)" "rto_list_cnt m1 \<le> int n'"
      using rto_walk_all [OF Suc.prems(1) mem i Suc.prems(3)] by blast
    obtain L1 where ok1: "okp env L1 m1" using rto_walk_ok [OF Suc.prems(1), where cur = cur and i = i and now = now and n = n, OF mem i] w(1) by auto
    have "calm (clock m) (rto_list_cnt m) m1"
      using calm_rto_walk [of "clock m" "rto_list_cnt m" m env now i n cur] w(1) by (simp add: calm_def)
    then have c1: "calm (clock m) (int n') m1" using w(2) by (simp add: calm_def)
    have a: "okp env L1 (after_turn m1)" using ok1 by (simp add: after_turn_def rto_tick_def okp_rules)
    have b: "behind now (after_turn m1) = behind now m - 1" "rto_list_cnt (after_turn m1) \<le> int n'"
      "unat (rto_now_idx (after_turn m1)) < RTO_HASH"
      using calm_after_turn [OF c1] False by (auto simp: calm_def clock_def sint_tick unat_mod_distrib RTO_HASH_def)
    have "rto_rounds env now (Suc fuel) n m = rto_rounds env now fuel n' (after_turn m1)"
      using False i w(1) by (simp add: rto_rounds_Suc i_def [symmetric] cur_def [symmetric] Let_def)
    then show ?thesis using Suc.IH [OF a b(3,2)] b(1) False Suc.prems(5) by simp
  qed
qed

section \<open>Buckets and ticks\<close>

lemma unat_add_mod_hash:
  fixes idx :: u32
  assumes "unat idx < RTO_HASH" "0 \<le> d" "d < int RTO_HASH"
  shows "unat ((of_int d + idx) mod of_nat RTO_HASH) = (unat idx + nat d) mod RTO_HASH"
proof -
  have "unat (of_int d :: u32) = nat d"
  proof -
    have "d mod 2 ^ 32 = d" using assms by (intro mod_pos_pos_trivial) (simp_all add: RTO_HASH_def)
    then have "uint (of_int d :: u32) = d" by (simp add: uint_word_of_int)
    then show ?thesis by (simp only: unat_eq_nat_uint)
  qed
  moreover have "unat (of_int d :: u32) + unat idx < 2 ^ 32" using assms calculation by (simp add: RTO_HASH_def)
  ultimately have "unat (of_int d + idx) = nat d + unat idx" by (simp only: unat_add_small)
  moreover have "unat (of_nat RTO_HASH :: u32) = RTO_HASH" by (simp add: RTO_HASH_def)
  ultimately show ?thesis by (simp only: unat_mod_distrib add.commute)
qed

lemma rto_tick_simps:
  "rto_now_idx (rto_tick m) = (rto_now_idx m + 1) mod of_nat RTO_HASH" "rto_now_ts (rto_tick m) = rto_now_ts m + 1"
  by (simp_all add: rto_tick_def)

lemma rto_ticks:
  assumes "unat (rto_now_idx m) < RTO_HASH"
  shows "unat (rto_now_idx ((rto_tick ^^ d) m)) = (unat (rto_now_idx m) + d) mod RTO_HASH \<and>
    rto_now_ts ((rto_tick ^^ d) m) = rto_now_ts m + of_nat d"
proof (induction d)
  case 0
  then show ?case using assms by simp
next
  case (Suc d)
  have "(unat (rto_now_idx m) + d) mod RTO_HASH < RTO_HASH" by (simp add: RTO_HASH_def)
  then have "unat ((rto_now_idx ((rto_tick ^^ d) m) + 1) mod of_nat RTO_HASH) = ((unat (rto_now_idx m) + d) mod RTO_HASH + 1) mod RTO_HASH"
    using Suc unat_add_mod_hash [of "rto_now_idx ((rto_tick ^^ d) m)" 1] by (simp add: RTO_HASH_def add.commute)
  then show ?case using Suc by (simp add: rto_tick_simps mod_Suc_eq algebra_simps)
qed

section \<open>Properties\<close>

text \<open>C17. A timer whose tick is less than \<^verbatim>\<open>RTO_HASH\<close> ahead of the clock of a store that is in use is entered into
  the bucket that \<^verbatim>\<open>CheckRtmTimeout\<close> looks at when its clock shows that tick.\<close>

theorem AddtoRTOList_checked_at_tick:
  assumes "rto_list_cnt m \<noteq> 0" "on_rto_idx (streams m s) < 0" "\<not> on_timewait_list (streams m s)"
    and "unat (rto_now_idx m) < RTO_HASH" "ts_rto (snd_v m s) = rto_now_ts m + of_nat d" "d < RTO_HASH"
  shows "rto_now_ts ((rto_tick ^^ d) (AddtoRTOList s m)) = ts_rto (snd_v (AddtoRTOList s m) s) \<and>
    s \<in> set (rto_list (AddtoRTOList s m) (unat (rto_now_idx ((rto_tick ^^ d) (AddtoRTOList s m)))))"
proof -
  have "unat (of_nat d :: u32) = d" using assms(6) by (simp add: unat_of_nat RTO_HASH_def)
  then have sd: "sint (of_nat d :: u32) = int d" using assms(6) by (simp add: sint_eq_unat RTO_HASH_def)
  have b: "rto_bucket (rto_now_idx m) (int d) = (unat (rto_now_idx m) + d) mod RTO_HASH"
    using unat_add_mod_hash [OF assms(4), of "int d"] assms(6) by (simp add: rto_bucket_def)
  have c: "clock (AddtoRTOList s m) = clock m"
    using assms(1) by (simp add: AddtoRTOList_def Let_def clock_def set_rto_list_def m_simps)
  then have c: "rto_now_idx (AddtoRTOList s m) = rto_now_idx m" "rto_now_ts (AddtoRTOList s m) = rto_now_ts m"
    by (simp_all add: clock_def)
  have "s \<in> set (rto_list (AddtoRTOList s m) ((unat (rto_now_idx m) + d) mod RTO_HASH))"
    "ts_rto (snd_v (AddtoRTOList s m) s) = rto_now_ts m + of_nat d"
    using assms(1-3,5) by (simp_all add: AddtoRTOList_def Let_def sd b set_rto_list_def)
  then show ?thesis using rto_ticks [of "AddtoRTOList s m" d] assms(4) by (simp add: c)
qed

theorem AddtoRTOList_checked_at_tick_witness:
  "\<exists>m'. m' = AddtoRTOList 4096 ((upd_snd 4096 (\<lambda>v. v \<lparr> ts_rto := 7 \<rparr>) demo_one) \<lparr> rto_list_cnt := 1, rto_now_idx := 2995, rto_now_ts := 0 \<rparr>) \<and>
    rto_now_ts ((rto_tick ^^ 7) m') = ts_rto (snd_v m' 4096) \<and>
    4096 \<in> set (rto_list m' (unat (rto_now_idx ((rto_tick ^^ 7) m'))))"
  using AddtoRTOList_checked_at_tick [of "(upd_snd 4096 (\<lambda>v. v \<lparr> ts_rto := 7 \<rparr>) demo_one) \<lparr> rto_list_cnt := 1, rto_now_idx := 2995, rto_now_ts := 0 \<rparr>" 4096 7]
  by (simp add: demo_stream RTO_HASH_def)

lemma minus_of_nat:
  assumes "0 < d" "d < 2147483648"
  shows "unat (- of_nat d :: u32) = 4294967296 - d" "sint (- of_nat d :: u32) = - int d"
proof -
  have "of_nat (4294967296 - d) + of_nat d = (of_nat 4294967296 :: u32)"
    using assms by (simp only: flip: of_nat_add) simp
  also have "(of_nat 4294967296 :: u32) = 0" by simp
  finally have "- of_nat d = (of_nat (4294967296 - d) :: u32)" by (metis add_eq_0_iff2)
  then show u: "unat (- of_nat d :: u32) = 4294967296 - d" using assms by (simp only: unat_of_nat) simp
  show "sint (- of_nat d :: u32) = - int d" using assms by (simp only: sint_eq_unat u) simp
qed

lemma rto_bucket_behind:
  assumes "0 < d" "d \<le> 2296"
  shows "rto_bucket 0 (- int d) = 2296 - d"
proof -
  have "unat (- of_nat d :: u32) = 4294967296 - d" using assms by (intro minus_of_nat) simp_all
  moreover have "unat (of_nat RTO_HASH :: u32) = RTO_HASH" by (simp add: RTO_HASH_def)
  ultimately have "unat ((- of_nat d :: u32) mod of_nat RTO_HASH) = (4294967296 - d) mod RTO_HASH" by (simp only: unat_mod_distrib)
  also have "\<dots> = (2296 - d + 1431655 * RTO_HASH) mod RTO_HASH" using assms by (simp add: RTO_HASH_def)
  also have "\<dots> = (2296 - d) mod RTO_HASH" by (rule mod_mult_self1)
  also have "\<dots> = 2296 - d" by (simp add: RTO_HASH_def)
  finally show ?thesis using assms by (simp add: rto_bucket_def RTO_HASH_def)
qed

text \<open>C33. \<^verbatim>\<open>RearrangeRTOStore\<close> subtracts the two ticks in the wrong order and adds the negative distance to the index in
  unsigned arithmetic: a timer that lies \<open>d\<close> ticks ahead of the clock moves from the overflow bucket into the
  bucket that is checked after \<open>2296 - d\<close> ticks, and it is not in the bucket that is checked at its tick.\<close>

theorem RearrangeRTOStore_misses_tick:
  assumes "rto_list m RTO_HASH = [s]" "\<And>i. i < RTO_HASH \<Longrightarrow> s \<notin> set (rto_list m i)" "rto_now_idx m = 0"
    and "ts_rto (snd_v m s) = rto_now_ts m + of_nat d" "0 < d" "d \<le> 2296" "d \<noteq> 1148"
  shows "s \<in> set (rto_list (RearrangeRTOStore m) (unat (rto_now_idx ((rto_tick ^^ (2296 - d)) (RearrangeRTOStore m))))) \<and>
    rto_now_ts ((rto_tick ^^ d) (RearrangeRTOStore m)) = ts_rto (snd_v (RearrangeRTOStore m) s) \<and>
    s \<notin> set (rto_list (RearrangeRTOStore m) (unat (rto_now_idx ((rto_tick ^^ d) (RearrangeRTOStore m)))))"
proof -
  have sd: "sint (- of_nat d :: u32) = - int d" using assms by (intro minus_of_nat) simp_all
  have n: "2296 - d < RTO_HASH" "2296 - d \<noteq> RTO_HASH" using assms(5) by (simp_all add: RTO_HASH_def)
  define m' where "m' = RearrangeRTOStore m"
  have m': "m' = set_rto_list (2296 - d) (rto_list m (2296 - d) @ [s]) (upd_stream s (\<lambda>t. t \<lparr> on_rto_idx := int (2296 - d) \<rparr>) (set_rto_list RTO_HASH [] m))"
    using assms(1,3-6) n by (simp add: m'_def RearrangeRTOStore_def rearrange_one_def sd rto_bucket_behind tq_remove_mem set_rto_list_def Let_def m_simps)
  have c: "rto_now_idx m' = 0" "rto_now_ts m' = rto_now_ts m" using assms(3) by (simp_all add: m' set_rto_list_def m_simps)
  have idx: "unat (rto_now_idx ((rto_tick ^^ k) m')) = k mod RTO_HASH" "rto_now_ts ((rto_tick ^^ k) m') = rto_now_ts m + of_nat k" for k
    using rto_ticks [of m' k] by (simp_all add: c RTO_HASH_def)
  have d: "d mod RTO_HASH = d" "(2296 - d) mod RTO_HASH = 2296 - d" "d < RTO_HASH" "2296 - d \<noteq> d" using assms by (simp_all add: RTO_HASH_def)
  show ?thesis unfolding m'_def [symmetric] idx d
    using assms(2) [OF d(3)] assms(4) d n by (simp add: m' set_rto_list_def m_simps)
qed

theorem RearrangeRTOStore_misses_tick_witness:
  "\<exists>m. m = RearrangeRTOStore ((upd_snd 4096 (\<lambda>v. v \<lparr> ts_rto := 100 \<rparr>) demo_one) \<lparr> rto_list := (\<lambda>_. [])(RTO_HASH := [4096]), rto_now_idx := 0, rto_now_ts := 0 \<rparr>) \<and>
    4096 \<in> set (rto_list m (unat (rto_now_idx ((rto_tick ^^ 2196) m)))) \<and>
    rto_now_ts ((rto_tick ^^ 100) m) = ts_rto (snd_v m 4096) \<and> 4096 \<notin> set (rto_list m (unat (rto_now_idx ((rto_tick ^^ 100) m))))"
  using RearrangeRTOStore_misses_tick [of "(upd_snd 4096 (\<lambda>v. v \<lparr> ts_rto := 100 \<rparr>) demo_one) \<lparr> rto_list := (\<lambda>_. [])(RTO_HASH := [4096]), rto_now_idx := 0, rto_now_ts := 0 \<rparr>" 4096 100]
  by simp

text \<open>The outer loop of \<^verbatim>\<open>CheckRtmTimeout\<close> ends: as many turns as the clock is behind the current time, and one
  more, are enough, whatever the handled streams do, and further turns would change nothing.\<close>

theorem CheckRtmTimeout_ends:
  "rto_rounds env now (nat (sint (now - rto_now_ts m) + 1) + k) n m = rto_rounds env now (nat (sint (now - rto_now_ts m) + 1)) n m"
  by (rule rto_rounds_enough) simp_all


definition demo_timed :: mtcp_manager where
  "demo_timed = AddtoRTOList 4096 (upd_snd 4096 (\<lambda>v. v \<lparr> ts_rto := 510 \<rparr>) demo_one)"

lemma demo_timed_ok: "stack_inv demo_stack demo_timed" "rto_list_cnt demo_timed = 1" "rto_now_idx demo_timed = 0" "rto_now_ts demo_timed = 510"
proof -
  have "okp demo_stack ((\<lambda>_. False)(4096 := True)) demo_timed"
    unfolding demo_timed_def using demo_one_okp by (simp add: okp_rules)
  then show "stack_inv demo_stack demo_timed" by (simp add: okp_def)
  show "rto_list_cnt demo_timed = 1" "rto_now_idx demo_timed = 0" "rto_now_ts demo_timed = 510"
    by (simp_all add: demo_timed_def AddtoRTOList_def m_simps set_rto_list_def demo_stream demo_one_created Let_def)
qed


end
