(* ===== verification/TcpFlush.thy ===== *)
theory TcpFlush
  imports RtoClock
begin

text \<open>
  What \<^verbatim>\<open>FlushTCPSendingBuffer\<close> puts on the wire (\<^verbatim>\<open>tcp_out.c\<close>): when the MSS leaves room for a byte, the loop ends; the
  segments it sends carry, one after the other and under their sequence numbers, the bytes of the send buffer from
  \<^verbatim>\<open>snd_nxt\<close> on; and no byte lies beyond the window of the peer or the congestion window.
\<close>

section \<open>Segments on the wire\<close>

text \<open>A frame whose last bytes are a TCP header with sequence number \<open>q\<close>, the timestamp option and the payload \<open>p\<close>; and
  a sequence of such frames that together carry \<open>bs\<close>.\<close>

definition carries :: "frame \<Rightarrow> u32 \<Rightarrow> u8 list \<Rightarrow> bool" where
  "carries f q p \<longleftrightarrow> (\<exists>pre h opts. snd f = pre @ tcphdr_bytes h @ opts @ p \<and> th_seq h = htonl q \<and> length opts = 12)"

fun carried :: "frame list \<Rightarrow> u32 \<Rightarrow> u8 list \<Rightarrow> bool" where
  "carried [] q bs \<longleftrightarrow> bs = []"
| "carried (f # fs) q bs \<longleftrightarrow> (\<exists>p bs'. bs = p @ bs' \<and> p \<noteq> [] \<and> carries f q p \<and> carried fs (q + of_nat (length p)) bs')"

lemma carried_snoc:
  "carried fs q bs \<Longrightarrow> carries f (q + of_nat (length bs)) p \<Longrightarrow> p \<noteq> [] \<Longrightarrow> carried (fs @ [f]) q (bs @ p)"
proof (induction fs arbitrary: q bs)
  case (Cons g fs)
  then obtain x bs' where x: "bs = x @ bs'" "x \<noteq> []" "carries g q x" "carried fs (q + of_nat (length x)) bs'" by auto
  have "carried (fs @ [f]) (q + of_nat (length x)) (bs' @ p)"
    using Cons.IH [OF x(4)] Cons.prems x(1) by (simp add: add.assoc)
  then show ?case using x by auto
qed simp

section \<open>What sending leaves alone\<close>

definition fc :: "tcp_stream \<Rightarrow> u32 \<times> u32 \<times> u32 \<times> u16 \<times> tcp_send_buffer option \<times> u32" where
  "fc t = (snd_una (sndvar t), cwnd (sndvar t), peer_wnd (sndvar t), mss (sndvar t), sndbuf (sndvar t), snd_nxt t)"

definition quiet :: "sid \<Rightarrow> mtcp_manager \<Rightarrow> mtcp_manager \<Rightarrow> bool" where
  "quiet s m m' \<longleftrightarrow> fc (streams m' s) = fc (streams m s) \<and> tx m' = tx m"

lemma quiet_refl [simp]: "quiet s m m"
  by (simp add: quiet_def)

lemma quiet_trans: "quiet s m m' \<Longrightarrow> quiet s m' m'' \<Longrightarrow> quiet s m m''"
  by (simp add: quiet_def)

lemma quiet_raise [simp]: "quiet s m (raise e m)"
  by (simp add: quiet_def raise_def split: option.split)

lemma quiet_upd_snd: "(\<And>v. snd_una (f v) = snd_una v \<and> cwnd (f v) = cwnd v \<and> peer_wnd (f v) = peer_wnd v \<and> mss (f v) = mss v \<and> sndbuf (f v) = sndbuf v)
    \<Longrightarrow> quiet s m (upd_snd s f m)"
  by (simp add: quiet_def fc_def m_simps)

lemma quiet_upd_stream: "(\<And>t. fc (f t) = fc t) \<Longrightarrow> quiet s m (upd_stream s f m)"
  by (simp add: quiet_def m_simps)

lemma quiet_AddtoRTOList: "quiet s m (AddtoRTOList s m)"
  by (simp add: quiet_def AddtoRTOList_def set_rto_list_def m_simps fc_def Let_def)

lemma quiet_UpdateTimeoutList: "quiet s m (UpdateTimeoutList s m)"
  by (simp add: quiet_def UpdateTimeoutList_def tq_remove_def raise_def split: sum.split option.split)

lemma quiet_EnqueueACK: "quiet s m (EnqueueACK env opt s m)"
  by (simp add: quiet_def EnqueueACK_def AddtoACKList_def upd_sender_def raise_def m_simps fc_def Let_def split: option.split ack_opt.split)

lemma quiet_note_sent: "quiet s m (note_sent now flags s m)"
proof -
  have u: "quiet s m (UpdateTimeoutList s (upd_stream s (\<lambda>t. t \<lparr> last_active_ts := now \<rparr>) (upd_snd s (\<lambda>v. v \<lparr> ts_lastack_sent := now \<rparr>) m)))" for m
    by (rule quiet_trans [OF _ quiet_UpdateTimeoutList]) (simp add: quiet_def m_simps fc_def)
  have f: "quiet s m (upd_snd s (\<lambda>v. v \<lparr> is_fin_sent := True \<rparr>) m)" "quiet s m (upd_stream s (\<lambda>t. t \<lparr> need_wnd_adv := True \<rparr>) m)" for m
    by (simp_all add: quiet_def m_simps fc_def)
  show ?thesis unfolding note_sent_def Let_def
    by (simp add: f quiet_trans [OF f(1) u] u quiet_trans [OF u f(2)] quiet_trans [OF quiet_trans [OF f(1) u] f(2)] quiet_trans [OF f(1) f(2)])
qed

text \<open>At most one frame, an ARP request, leaves when there is no result.\<close>

definition may_ask :: "sid \<Rightarrow> mtcp_manager \<Rightarrow> mtcp_manager \<Rightarrow> bool" where
  "may_ask s m m' \<longleftrightarrow> fc (streams m' s) = fc (streams m s) \<and> (\<exists>rest. tx m' = tx m @ rest \<and> length rest \<le> 1)"

lemma quiet_may_ask: "quiet s m m' \<Longrightarrow> may_ask s m m'"
  by (simp add: quiet_def may_ask_def)

lemma may_ask_before: "quiet s m m' \<Longrightarrow> may_ask s m' m'' \<Longrightarrow> may_ask s m m''"
  by (auto simp: quiet_def may_ask_def)

lemma quiet_EthernetOutput: "EthernetOutput env p nif dst m = (x, m1) \<Longrightarrow> quiet s m m1"
  by (auto simp: EthernetOutput_def Let_def quiet_def raise_def split: if_splits option.splits)

lemma may_ask_RequestARP: "may_ask s m (RequestARP env ip nif now m)"
proof (cases "\<exists>e\<in>set (arp_queue m). aq_ip e = ip")
  case False
  define m1 where "m1 = m \<lparr> arp_queue := arp_queue m @ [\<lparr> aq_ip = ip, aq_nif_out = nif, aq_ts_out = now \<rparr>] \<rparr>"
  obtain x m2 where e: "EthernetOutput env ETH_P_ARP nif (replicate 6 0xFF) m1 = (x, m2)" by fastforce
  have "quiet s m m1" by (simp add: m1_def quiet_def)
  then have q: "quiet s m m2" using quiet_EthernetOutput [OF e] by (rule quiet_trans)
  have "RequestARP env ip nif now m = snd (ARPOutput env nif arp_op_request ip (replicate 6 0xFF) (Some (replicate 6 0)) m1)"
    using False by (simp add: RequestARP_def Let_def m1_def)
  also have "\<dots> = (case x of None \<Rightarrow> m2 | Some f \<Rightarrow> emit (fst f, snd f @ arphdr_bytes \<lparr> ar_op = htons arp_op_request,
        ar_sha = eth_haddr (eths env ! nat (nif_to_eidx env nif)), ar_sip = eth_ip_addr (eths env ! nat (nif_to_eidx env nif)),
        ar_tha = replicate 6 0, ar_tip = ip \<rparr>) m2)"
    by (simp add: ARPOutput_def e Let_def split: option.split)
  finally show ?thesis using q by (auto simp: may_ask_def quiet_def emit_def split: option.splits)
qed (simp add: RequestARP_def may_ask_def)

lemma quiet_next:
  assumes "quiet s m m'"
  shows "quiet s m (raise e m')" "quiet s m (upd_snd s (\<lambda>v. v \<lparr> ip_id := i v \<rparr>) m')" "may_ask s m (RequestARP env ip nif now m')" "may_ask s m m'"
    "EthernetOutput env p nif dst m' = (x, m1) \<Longrightarrow> quiet s m m1"
  using assms quiet_raise quiet_EthernetOutput may_ask_RequestARP
  by (auto intro: quiet_trans may_ask_before quiet_may_ask) (simp add: quiet_def m_simps fc_def)

lemma IPOutput_asks:
  assumes "IPOutput env s len m = (x, m1)"
  shows "may_ask s m m1" "x \<noteq> None \<Longrightarrow> quiet s m m1"
proof -
  define src where "src = (if nif_out (snd_v m s) \<ge> 0 then Inr m
    else case GetOutputInterface env (daddr (streams m s)) of Inl e \<Rightarrow> Inl e
      | Inr (nif, ext) \<Rightarrow> Inr (upd_stream s (\<lambda>t. t \<lparr> is_external := ext \<rparr>) (upd_snd s (\<lambda>v. v \<lparr> nif_out := nif \<rparr>) m)))"
  have "may_ask s m m1 \<and> (x \<noteq> None \<longrightarrow> quiet s m m1)"
  proof (cases src)
    case (Inl e)
    then show ?thesis using assms unfolding IPOutput_def src_def [symmetric] by (auto simp: quiet_may_ask)
  next
    case (Inr m')
    then have q: "quiet s m m'" unfolding src_def by (auto simp: quiet_def m_simps fc_def split: if_splits sum.splits prod.splits)
    show ?thesis using assms q unfolding IPOutput_def src_def [symmetric] Inr
      by (auto simp: Let_def quiet_next split: option.splits prod.splits if_splits sum.splits dest!: quiet_next(5) [OF q])
  qed
  then show "may_ask s m m1" "x \<noteq> None \<Longrightarrow> quiet s m m1" by blast+
qed

lemma ack_flags: "TCP_FLAG_ACK AND TCP_FLAG_SYN = 0" "TCP_FLAG_ACK AND TCP_FLAG_FIN = 0" "TCP_FLAG_ACK AND TCP_FLAG_WACK = 0"
  "CalculateOptionLength TCP_FLAG_ACK = 12" "length (GenerateTCPOptions t now TCP_FLAG_ACK) = 12"
  by (simp_all add: TCP_FLAG_ACK_def TCP_FLAG_SYN_def TCP_FLAG_FIN_def TCP_FLAG_WACK_def CalculateOptionLength_def GenerateTCPOptions_def
      GenerateTCPTimestamp_def TCP_OPT_TIMESTAMP_LEN_def bytes32_def)

lemma tcp_segment_carries:
  assumes "th_seq h = htonl q" "length opts = 12"
  shows "carries (dev, pre @ tcp_segment env h (opts @ p) sa da) q p"
  unfolding carries_def
proof (intro exI conjI)
  show "snd (dev, pre @ tcp_segment env h (opts @ p) sa da) =
      pre @ tcphdr_bytes (if hw_csum env then h else h \<lparr> th_check := TCPCalcChecksum (tcphdr_bytes h @ opts @ p) sa da \<rparr>) @ opts @ p"
    by (simp add: tcp_segment_def)
qed (use assms in simp_all)

definition advanced :: "sid \<Rightarrow> u8 list \<Rightarrow> mtcp_manager \<Rightarrow> mtcp_manager \<Rightarrow> bool" where
  "advanced s p m m' \<longleftrightarrow> (\<exists>q. fc q = fc (streams m s) \<and> fc (streams m' s) = fc (q \<lparr> snd_nxt := snd_nxt q + of_nat (length p) \<rparr>)) \<and>
     (\<exists>f. tx m' = tx m @ [f] \<and> carries f (snd_nxt (streams m s)) p)"

lemma advanced_quiet: "advanced s p m m' \<Longrightarrow> quiet s m' m'' \<Longrightarrow> advanced s p m m''"
  by (auto simp: advanced_def quiet_def)

lemma SendTCPPacket_ack:
  assumes "SendTCPPacket env s now TCP_FLAG_ACK p m = (ret, m')"
  shows "ret < 0 \<and> may_ask s m m' \<or> ret = int (length p) \<and> advanced s p m m'"
proof (cases "unat (mss (snd_v m s)) < length p + 12")
  case True
  then show ?thesis using assms by (simp add: SendTCPPacket_def ack_flags may_ask_def)
next
  case False
  obtain x m1 where ip: "IPOutput env s (of_nat (TCP_HEADER_LEN + 12 + length p)) m = (x, m1)" by fastforce
  show ?thesis
  proof (cases x)
    case None
    then show ?thesis using assms False ip IPOutput_asks(1) [OF ip] by (simp add: SendTCPPacket_def ack_flags)
  next
    case (Some f)
    obtain dev pre where f: "f = (dev, pre)" by (cases f)
    have q1: "quiet s m m1" using IPOutput_asks(2) [OF ip] Some by simp
    define m2 where "m2 = note_sent now TCP_FLAG_ACK s m1"
    have q2: "quiet s m m2" unfolding m2_def using q1 quiet_note_sent by (rule quiet_trans)
    define t where "t = streams m2 s"
    define m3 where "m3 = emit (dev, pre @ tcp_segment env (stream_header (streams m1 s) TCP_FLAG_ACK) (GenerateTCPOptions t now TCP_FLAG_ACK @ p) (saddr t) (daddr t)) m2"
    define m4 where "m4 = upd_stream s (\<lambda>t. t \<lparr> snd_nxt := snd_nxt t + of_nat (length p) \<rparr>) m3"
    have nx: "snd_nxt (streams m1 s) = snd_nxt (streams m s)" using q1 by (simp add: quiet_def fc_def)
    have "carries (dev, pre @ tcp_segment env (stream_header (streams m1 s) TCP_FLAG_ACK) (GenerateTCPOptions t now TCP_FLAG_ACK @ p) (saddr t) (daddr t))
        (snd_nxt (streams m s)) p"
      by (rule tcp_segment_carries) (simp_all add: stream_header_def Let_def ack_flags nx)
    moreover have "fc (streams m2 s) = fc (streams m s)" using q2 by (simp add: quiet_def)
    ultimately have "advanced s p m m4"
      unfolding advanced_def m4_def m3_def using q2 by (auto simp: emit_def quiet_def upd_stream_def intro!: exI [of _ "streams m2 s"])
    moreover have "quiet s m4 m'" "ret = int (length p)"
    proof -
      have sf: "\<not> th_syn (stream_header (streams m1 s) TCP_FLAG_ACK)" "\<not> th_fin (stream_header (streams m1 s) TCP_FLAG_ACK)"
        by (simp_all add: stream_header_def Let_def ack_flags)
      have "(ret, m') = (int (length p), if 0 < length p then AddtoRTOList s (upd_snd s (\<lambda>v. v \<lparr> ts_rto := now + rto v \<rparr>) m4) else m4)"
        unfolding assms [symmetric] SendTCPPacket_def using False ip Some
        by (simp add: ack_flags f Let_def m2_def [symmetric] t_def [symmetric] m3_def [symmetric] m4_def [symmetric] sf)
          (simp add: m4_def m3_def)
      moreover have "quiet s m4 (AddtoRTOList s (upd_snd s (\<lambda>v. v \<lparr> ts_rto := now + rto v \<rparr>) m4))"
        by (rule quiet_trans [OF _ quiet_AddtoRTOList]) (simp add: quiet_upd_snd)
      ultimately show "quiet s m4 m'" "ret = int (length p)" by simp_all
    qed
    ultimately show ?thesis by (auto intro: advanced_quiet)
  qed
qed

section \<open>The loop\<close>

text \<open>The window: what may be in flight.\<close>

lemma window_room:
  fixes w k :: u32
  assumes "0 < sint (w - k)" "unat k < 2147483648"
  shows "sint (w - k) = int (unat w) - int (unat k)" "unat k < unat w"
proof -
  have s: "sint (w - k) = (if unat (w - k) < 2147483648 then int (unat (w - k)) else int (unat (w - k)) - 4294967296)"
    by (simp only: sint_eq_unat) simp
  have "unat (w - k) < 4294967296" using unsigned_less [of "w - k"] by simp
  then have "unat (w - k) < 2147483648" "0 < unat (w - k)" using assms(1) unfolding s by (auto split: if_splits simp del: of_nat_unat)
  moreover have "unat (w - k) = (if unat k \<le> unat w then unat w - unat k else unat w + 4294967296 - unat k)"
    using unat_sub_if' [of w k] unsigned_less [of k] by (simp add: word_le_nat_alt)
  ultimately show "sint (w - k) = int (unat w) - int (unat k)" "unat k < unat w"
    using assms(2) unfolding s by (auto split: if_splits simp del: of_nat_unat)
qed

text \<open>The state of the loop after \<open>n\<close> bytes, relative to the state it starts in.\<close>

definition flushed :: "sid \<Rightarrow> tcp_send_buffer \<Rightarrow> nat \<Rightarrow> mtcp_manager \<Rightarrow> nat \<Rightarrow> bool \<Rightarrow> mtcp_manager \<Rightarrow> bool" where
  "flushed s b k m n going m' \<longleftrightarrow>
     k + n \<le> unat (sb_len b) \<and> (n = 0 \<or> k + n \<le> unat (min (cwnd (snd_v m s)) (peer_wnd (snd_v m s)))) \<and>
     fc (streams m' s) = fc ((streams m s) \<lparr> snd_nxt := snd_nxt (streams m s) + of_nat n \<rparr>) \<and>
     (\<exists>fs rest. tx m' = tx m @ fs @ rest \<and> length rest \<le> (if going then 0 else 1) \<and>
        carried fs (snd_nxt (streams m s)) (take n (drop k (sb_content b))))"

lemma flushed_stop: "flushed s b k m n True m' \<Longrightarrow> may_ask s m' m'' \<Longrightarrow> flushed s b k m n False m''"
  by (fastforce simp: flushed_def may_ask_def)

lemma flushed_more:
  assumes "flushed s b k m n True m'" "advanced s p m' m''" "p = take j (drop (k + n) (sb_content b))" "0 < j" "k + n + j \<le> unat (sb_len b)"
    "k + n + j \<le> unat (min (cwnd (snd_v m s)) (peer_wnd (snd_v m s)))" "length (sb_content b) = unat (sb_len b)"
  shows "flushed s b k m (n + j) True m''"
proof -
  obtain fs where fs: "tx m' = tx m @ fs" "carried fs (snd_nxt (streams m s)) (take n (drop k (sb_content b)))"
    using assms(1) by (auto simp: flushed_def)
  obtain f where f: "tx m'' = tx m' @ [f]" "carries f (snd_nxt (streams m' s)) p" using assms(2) by (auto simp: advanced_def)
  have len: "length p = j" "length (take n (drop k (sb_content b))) = n" using assms by simp_all
  have fc': "fc (streams m' s) = fc ((streams m s) \<lparr> snd_nxt := snd_nxt (streams m s) + of_nat n \<rparr>)" using assms(1) by (simp add: flushed_def)
  then have nx: "snd_nxt (streams m' s) = snd_nxt (streams m s) + of_nat n" by (simp add: fc_def)
  have "p \<noteq> []" using len(1) assms(4) by auto
  then have "carried (fs @ [f]) (snd_nxt (streams m s)) (take n (drop k (sb_content b)) @ p)"
    using f(2) len(2) by (intro carried_snoc [OF fs(2)]) (simp_all add: nx)
  moreover have "take n (drop k (sb_content b)) @ p = take (n + j) (drop k (sb_content b))"
    by (simp add: assms(3) take_add add.commute [of k n])
  moreover have "fc (streams m'' s) = fc ((streams m s) \<lparr> snd_nxt := snd_nxt (streams m s) + of_nat (n + j) \<rparr>)"
    using assms(2) fc' len(1) by (auto simp: advanced_def fc_def add.assoc)
  ultimately show ?thesis using assms(5,6) fs(1) f(1) by (auto simp: flushed_def add.assoc)
qed

lemma unat_of_int_small: "0 \<le> i \<Longrightarrow> i < 4294967296 \<Longrightarrow> unat (of_int i :: u32) = nat i"
proof -
  assume "0 \<le> i" "i < 4294967296"
  then have "i mod 2 ^ 32 = i" by (intro mod_pos_pos_trivial) simp_all
  then have "uint (of_int i :: u32) = i" by (simp add: uint_word_of_int)
  then show ?thesis by (simp only: unat_eq_nat_uint)
qed

lemma unat_min: "unat (min a b) = min (unat a) (unat b)" for a b :: u32
  by (simp add: min_def word_le_nat_alt)

text \<open>The size of the next segment.\<close>

lemma segment_size:
  fixes len :: u32
  assumes "0 < unat len" "0 < r" "r < 2147483648" "12 < unat (ms :: u16)"
  defines "j \<equiv> unat (ucast (min (min len (of_int r)) (ucast ms - 12)) :: u16)"
  shows "0 < j" "j \<le> unat len" "int j \<le> r" "j + 12 \<le> unat ms"
proof -
  have ms: "unat ms < 65536" using unsigned_less [of ms] by simp
  have "unat (ucast ms :: u32) = unat ms" using ms by (simp add: unsigned_ucast_eq take_bit_nat_eq_self)
  then have "unat (ucast ms - 12 :: u32) = unat ms - 12" using assms(4) by (simp add: unat_sub word_le_nat_alt)
  then have u: "unat (min (min len (of_int r)) (ucast ms - 12)) = min (min (unat len) (nat r)) (unat ms - 12)"
    using assms(2,3) by (simp only: unat_min unat_of_int_small)
  then have "j = min (min (unat len) (nat r)) (unat ms - 12)"
  proof -
    have "min (min (unat len) (nat r)) (unat ms - 12) < 65536" using ms by linarith
    then have "take_bit 16 (min (min (unat len) (nat r)) (unat ms - 12)) = min (min (unat len) (nat r)) (unat ms - 12)"
      by (intro take_bit_nat_eq_self) simp
    then show ?thesis unfolding j_def using u by (simp add: unsigned_ucast_eq)
  qed
  then show "0 < j" "j \<le> unat len" "int j \<le> r" "j + 12 \<le> unat ms" using assms(1,2,4) by auto
qed

definition flush_ready :: "sid \<Rightarrow> tcp_send_buffer \<Rightarrow> nat \<Rightarrow> mtcp_manager \<Rightarrow> bool" where
  "flush_ready s b k m \<longleftrightarrow> sndbuf (snd_v m s) = Some b \<and> sb_inv b \<and> unat (sb_len b) < 2147483648 \<and>
     snd_una (snd_v m s) = sb_head_seq b \<and> snd_nxt (streams m s) = sb_head_seq b + of_nat k \<and> k \<le> unat (sb_len b) \<and>
     12 < unat (mss (snd_v m s))"

lemma flush_step_flushed:
  assumes r: "flush_ready s b k m" and fl: "flushed s b k m n True m'"
  shows "case flush_step env s now (m', packets, x) of (m'', _, r) \<Rightarrow>
    (if r = None then \<exists>j>0. flushed s b k m (n + j) True m'' else flushed s b k m n False m'')"
proof -
  have b: "sndbuf (snd_v m s) = Some b" "sb_inv b" "unat (sb_len b) < 2147483648" "snd_una (snd_v m s) = sb_head_seq b"
    "snd_nxt (streams m s) = sb_head_seq b + of_nat k" "12 < unat (mss (snd_v m s))"
    using r by (simp_all add: flush_ready_def)
  have v: "snd_una (snd_v m' s) = sb_head_seq b" "cwnd (snd_v m' s) = cwnd (snd_v m s)" "peer_wnd (snd_v m' s) = peer_wnd (snd_v m s)"
    "mss (snd_v m' s) = mss (snd_v m s)" "sndbuf (snd_v m' s) = Some b" "snd_nxt (streams m' s) = sb_head_seq b + of_nat (k + n)"
    and kn: "k + n \<le> unat (sb_len b)"
    using fl b by (simp_all add: flushed_def fc_def)
  define W where "W = min (cwnd (snd_v m s)) (peer_wnd (snd_v m s))"
  define off :: u32 where "off = of_nat (k + n)"
  have off: "unat off = k + n" unfolding off_def using kn b(3) by (simp only: unat_of_nat) simp
  define len where "len = sb_len b - off"
  have len: "unat len = unat (sb_len b) - (k + n)" unfolding len_def using kn by (simp add: unat_sub word_le_nat_alt off)
  have seq: "snd_nxt (streams m' s) - sb_head_seq b = off" by (simp add: v(6) off_def)
  have stop: "flushed s b k m n False (raise e m')" "flushed s b k m n False m'" "flushed s b k m n False (EnqueueACK env ACK_OPT_WACK s m')" for e
    by (rule flushed_stop [OF fl], simp add: quiet_may_ask quiet_EnqueueACK)+
  define rm where "rm = sint (W - off)"
  show ?thesis
  proof (cases "TCP_SEQ_LT (snd_nxt (streams m' s)) (sb_head_seq b) \<or> sb_len b < off \<or> len = 0 \<or> rm \<le> 0 \<or> (rm < int (unat (mss (snd_v m s))) \<and> off > 0)")
    case True
    then show ?thesis
      by (auto simp: flush_step_def Let_def v(1-5) seq W_def [symmetric] len_def [symmetric] rm_def [symmetric] stop)
  next
    case False
    then have rp: "0 < rm" and lp: "0 < unat len" by (auto simp: unat_gt_0)
    have k31: "unat off < 2147483648" using off kn b(3) by simp
    have rmW: "rm = int (unat W) - int (k + n)" "k + n < unat W"
      using window_room [OF rp [unfolded rm_def] k31] by (simp_all add: rm_def off)
    have r31: "rm < 2147483648" unfolding rm_def using sint_lt [of "W - off"] by simp
    define j where "j = unat (ucast (min (min len (of_int rm)) (ucast (mss (snd_v m s)) - 12)) :: u16)"
    note j = segment_size [OF lp rp r31 b(6), folded j_def]
    define p where "p = take j (drop (sb_head b + unat off) (sb_data b))"
    have cont: "length (sb_content b) = unat (sb_len b)" "p = take j (drop (k + n) (sb_content b))" "sb_head b + unat off + j \<le> length (sb_data b)"
      using b(2) j(2) kn by (auto simp: sb_inv_def sb_content_def slice_def p_def off len drop_take min_def add.commute)
    obtain ret m'' where snd: "SendTCPPacket env s now TCP_FLAG_ACK p m' = (ret, m'')" by fastforce
    have step: "flush_step env s now (m', packets, x) = (if ret < 0 then (m'', packets, Some (- 3)) else (m'', packets + 1, None))"
      using False cont(3) snd
      by (auto simp: flush_step_def Let_def v(1-5) seq W_def [symmetric] len_def [symmetric] rm_def [symmetric] ack_flags j_def [symmetric] p_def [symmetric])
    from SendTCPPacket_ack [OF snd] show ?thesis
    proof
      assume "ret < 0 \<and> may_ask s m' m''"
      then show ?thesis using flushed_stop [OF fl, of m''] by (simp add: step)
    next
      assume a: "ret = int (length p) \<and> advanced s p m' m''"
      have "k + n + j \<le> unat W" using j(3) rmW by linarith
      then have "flushed s b k m (n + j) True m''"
        using j cont len kn a by (intro flushed_more [OF fl, of p]) (auto simp: W_def)
      then show ?thesis using a j(1) by (auto simp: step)
    qed
  qed
qed

definition flush_left :: "sid \<Rightarrow> tcp_send_buffer \<Rightarrow> mtcp_manager \<times> int \<times> int option \<Rightarrow> nat" where
  "flush_left s b = (\<lambda>(m, _, r). 2 * (unat (sb_len b) - unat (snd_nxt (streams m s) - sb_head_seq b)) + (if r = None then 1 else 0))"

lemma flushed_left:
  assumes "flush_ready s b k m" "flushed s b k m n g m'"
  shows "unat (snd_nxt (streams m' s) - sb_head_seq b) = k + n" "k + n \<le> unat (sb_len b)"
proof -
  show le: "k + n \<le> unat (sb_len b)" using assms(2) by (simp add: flushed_def)
  have "snd_nxt (streams m' s) - sb_head_seq b = of_nat (k + n)"
    using assms by (simp add: flush_ready_def flushed_def fc_def)
  moreover have "unat (of_nat (k + n) :: u32) = k + n" using le assms(1) by (simp only: unat_of_nat flush_ready_def) simp
  ultimately show "unat (snd_nxt (streams m' s) - sb_head_seq b) = k + n" by (simp only:)
qed

lemma flush_loop_result:
  assumes r: "flush_ready s b k m"
  shows "\<exists>m' packets x n. while_option (\<lambda>(_, _, r). r = None) (flush_step env s now) (m, 0, None) = Some (m', packets, Some x) \<and>
    flushed s b k m n False m'"
proof -
  let ?P = "\<lambda>(m', _ :: int, r :: int option). \<exists>n. flushed s b k m n (r = None) m'"
  have init: "?P (m, 0, None)"
    using r by (auto simp: flushed_def flush_ready_def fc_def intro!: exI [of _ 0])
  have step: "?P (flush_step env s now st) \<and> flush_left s b (flush_step env s now st) < flush_left s b st"
    if st: "?P st" "(\<lambda>(_, _, r). r = None) st" for st
  proof -
    obtain m' packets n where s: "st = (m', packets, None)" and f: "flushed s b k m n True m'" using st by (cases st) auto
    obtain m'' p' r' where t: "flush_step env s now st = (m'', p', r')" by (cases "flush_step env s now st") auto
    have "if r' = None then \<exists>j>0. flushed s b k m (n + j) True m'' else flushed s b k m n False m''"
      using flush_step_flushed [OF r f, of env now packets None] t unfolding s by simp
    then obtain n' where n': "flushed s b k m n' (r' = None) m''" "if r' = None then n < n' else n' = n"
      by (cases r') auto
    have "k + n' \<le> unat (sb_len b)" using flushed_left(2) [OF r n'(1)] .
    then have "flush_left s b (m'', p', r') < flush_left s b st"
      using n'(2) by (simp add: flush_left_def s flushed_left(1) [OF r f] flushed_left(1) [OF r n'(1)] split: if_splits)
    then show ?thesis using n'(1) t by auto
  qed
  obtain t where t: "while_option (\<lambda>(_, _, r). r = None) (flush_step env s now) (m, 0, None) = Some t"
    using measure_while_option_Some [of ?P "\<lambda>(_, _, r). r = None" "flush_step env s now" "flush_left s b", OF step init] by blast
  have "?P t" by (rule while_option_rule [where P = ?P, OF _ t init]) (rule conjunct1 [OF step])
  moreover have "\<not> (\<lambda>(_, _, r). r = None) t" by (rule while_option_stop [OF t])
  ultimately show ?thesis using t by (cases t) auto
qed

section \<open>Properties\<close>



definition demo_sb :: tcp_send_buffer where
  "demo_sb = \<lparr> sb_data_ptr = 16384, sb_data = [1, 2, 3] @ replicate 13 0, sb_head = 0, sb_head_off = 0, sb_tail_off = 3, sb_len = 3,
     sb_cum_len = 3, sb_size = 16, sb_head_seq = 1000, sb_init_seq = 1000 \<rparr>"

definition demo_sending :: mtcp_manager where
  "demo_sending = upd_snd 4096 (\<lambda>v. v \<lparr> sndbuf := Some demo_sb, cwnd := 2920, peer_wnd := 65535 \<rparr>) demo_one"

lemma demo_ready: "flush_ready 4096 demo_sb 0 demo_sending"
  by (simp add: flush_ready_def demo_sending_def demo_stream demo_sb_def sb_inv_def)



end
