(* ===== verification/TcpIn.thy ===== *)
theory TcpIn
  imports TcpFlush
begin

text \<open>
  Receiving (\<^verbatim>\<open>tcp_in.c\<close>): the checks a segment passes, opening a connection, validation of sequence numbers and
  timestamps, resets, acknowledgements with congestion control, payload, and the handler of every state. A segment is
  the record \<open>tcp_seg\<close> of what the functions get as arguments. The conditional compilation is that of the repository:
  no SACK, received checksums verified, \<^verbatim>\<open>snd_nxt\<close> recovered after a loss, selective write events. Every path
  keeps the invariant of the stack; what the segments do to the state of a connection is proved in \<open>TcpStates\<close>, the
  arithmetic of the round trip times and the faults a peer can provoke in \<open>RttEstimate\<close>.
\<close>

section \<open>A segment\<close>

text \<open>\<open>sg_opts\<close> is the memory behind the fixed header and \<open>sg_optlen\<close> the length of the options in it, which is negative
  when \<^verbatim>\<open>doff\<close> is below 5. Addresses are in network order, \<open>sg_seq\<close>, \<open>sg_ack\<close> and \<open>sg_window\<close> in host order.\<close>

record tcp_seg =
  sg_sa :: u32
  sg_da :: u32
  sg_hdr :: tcphdr
  sg_seq :: u32
  sg_ack :: u32
  sg_window :: u16
  sg_opts :: "u8 list"
  sg_optlen :: int
  sg_payload :: "u8 list"
  sg_len :: int

abbreviation sg_end :: "tcp_seg \<Rightarrow> u32" where "sg_end g \<equiv> sg_seq g + of_int (sg_len g)"

text \<open>A shift by a variable amount uses the low five bits of the amount.\<close>

definition shl32 :: "u32 \<Rightarrow> u8 \<Rightarrow> u32" where
  "shl32 w k = push_bit (unat k mod 32) w"

definition send_reset :: "stack_env \<Rightarrow> u32 \<Rightarrow> tcp_seg \<Rightarrow> u32 \<Rightarrow> u32 \<Rightarrow> u8 \<Rightarrow> mtcp_manager \<Rightarrow> mtcp_manager" where
  "send_reset env now g sq ack flags m =
    snd (SendTCPPacketStandalone env (sg_da g) (th_dest (sg_hdr g)) (sg_sa g) (th_source (sg_hdr g)) sq ack 0 flags [] now 0 m)"

definition parse_into :: "u32 \<Rightarrow> tcp_seg \<Rightarrow> sid \<Rightarrow> mtcp_manager \<Rightarrow> mtcp_manager" where
  "parse_into now g s m =
    (case ParseTCPOptions (streams m s) now (sg_opts g) (sg_optlen g) of
       None \<Rightarrow> raise Diverges m
     | Some (Inl e) \<Rightarrow> raise e m
     | Some (Inr t) \<Rightarrow> upd_stream s (\<lambda>_. t) m)"

section \<open>Opening\<close>

definition INADDR_ANY :: u32 where "INADDR_ANY = 0"

definition FilterSYNPacket :: "stack_env \<Rightarrow> u32 \<Rightarrow> u16 \<Rightarrow> mtcp_manager \<Rightarrow> bool" where
  "FilterSYNPacket env ip port m =
    (case ListenerHTSearch port m of None \<Rightarrow> False
     | Some l \<Rightarrow>
       let a = sock_saddr (smap m (l_sockid (listener_mem m l))) in
       if sin_port a = port
       then if sin_addr a \<noteq> INADDR_ANY then ip = sin_addr a else \<exists>e\<in>set (eths env). ip = eth_ip_addr e
       else False)"

definition HandlePassiveOpen :: "stack_env \<Rightarrow> u32 \<Rightarrow> tcp_seg \<Rightarrow> mtcp_manager \<Rightarrow> sid option \<times> mtcp_manager" where
  "HandlePassiveOpen env now g m =
    (case CreateTCPStream env None 1 (sg_da g) (th_dest (sg_hdr g)) (sg_sa g) (th_source (sg_hdr g)) m of
       (None, m1) \<Rightarrow> (None, m1)
     | (Some s, m1) \<Rightarrow>
       let m2 = upd_rcv s (\<lambda>v. v \<lparr> irs := sg_seq g \<rparr>) m1;
           m3 = upd_stream s (\<lambda>t. t \<lparr> rcv_nxt := irs (rcvvar t) \<rparr>) (upd_snd s (\<lambda>v. v \<lparr> peer_wnd := ucast (sg_window g) \<rparr>) m2);
           m4 = upd_snd s (\<lambda>v. v \<lparr> cwnd := 1 \<rparr>) m3 in
       (Some s, parse_into now g s m4))"

definition HandleActiveOpen :: "stack_env \<Rightarrow> u32 \<Rightarrow> tcp_seg \<Rightarrow> sid \<Rightarrow> mtcp_manager \<Rightarrow> mtcp_manager" where
  "HandleActiveOpen env now g s m =
    (let m1 = upd_snd s (\<lambda>v. v \<lparr> peer_wnd := ucast (sg_window g) \<rparr>)
                (upd_stream s (\<lambda>t. t \<lparr> snd_nxt := sg_ack g \<rparr>) (upd_rcv s (\<lambda>v. v \<lparr> irs := sg_seq g \<rparr>) m));
         m2 = upd_rcv s (\<lambda>v. v \<lparr> snd_wl1 := irs v - 1 \<rparr>) m1;
         m3 = upd_rcv s (\<lambda>v. v \<lparr> last_ack_seq := sg_ack g \<rparr>) (upd_stream s (\<lambda>t. t \<lparr> rcv_nxt := irs (rcvvar t) + 1 \<rparr>) m2);
         m4 = parse_into now g s m3;
         m5 = upd_snd s (\<lambda>v. v \<lparr> cwnd := (if cwnd v = 1 then ucast (mss v) * 2 else ucast (mss v)) \<rparr>) m4;
         m6 = upd_snd s (\<lambda>v. v \<lparr> ssthresh := ucast (mss v) * 10 \<rparr>) m5 in
     UpdateRetransmissionTimer now s m6)"

section \<open>Validation\<close>

text \<open>The protection against wrapped sequence numbers: the result says whether the segment is accepted.\<close>

definition check_paws :: "stack_env \<Rightarrow> u32 \<Rightarrow> tcp_seg \<Rightarrow> sid \<Rightarrow> mtcp_manager \<Rightarrow> bool \<times> mtcp_manager" where
  "check_paws env now g s m =
    (if th_rst (sg_hdr g) \<or> \<not> saw_timestamp (streams m s) then (True, m)
     else case ParseTCPTimestamp (sg_opts g) (sg_optlen g) of
       None \<Rightarrow> (False, raise Diverges m)
     | Some (Inl e) \<Rightarrow> (False, raise e m)
     | Some (Inr None) \<Rightarrow> (False, m)
     | Some (Inr (Some (ts_val, ts_ref))) \<Rightarrow>
       if TCP_SEQ_LT ts_val (ts_recent (rcv_v m s)) then (False, EnqueueACK env ACK_OPT_NOW s m)
       else
         let m1 = (if TCP_SEQ_GT ts_val (ts_recent (rcv_v m s)) then upd_rcv s (\<lambda>v. v \<lparr> ts_last_ts_upd := now \<rparr>) m else m) in
         (True, upd_rcv s (\<lambda>v. v \<lparr> ts_recent := ts_val, ts_lastack_rcvd := ts_ref \<rparr>) m1))"

definition ValidateSequence :: "stack_env \<Rightarrow> u32 \<Rightarrow> tcp_seg \<Rightarrow> sid \<Rightarrow> mtcp_manager \<Rightarrow> bool \<times> mtcp_manager" where
  "ValidateSequence env now g s m =
    (case check_paws env now g s m of
       (False, m1) \<Rightarrow> (False, m1)
     | (True, m1) \<Rightarrow>
       let t = streams m1 s in
       if TCP_SEQ_BETWEEN (sg_end g) (rcv_nxt t) (rcv_nxt t + rcv_wnd (rcvvar t)) then (True, m1)
       else if th_rst (sg_hdr g) then (False, m1)
       else if state t = TCP_ST_ESTABLISHED
       then (False,
         if sg_seq g + 1 = rcv_nxt t then EnqueueACK env ACK_OPT_AGGREGATE s m1
         else if TCP_SEQ_LEQ (sg_seq g) (rcv_nxt t) then EnqueueACK env ACK_OPT_AGGREGATE s m1
         else EnqueueACK env ACK_OPT_NOW s m1)
       else (False, AddtoControlList env s (if state t = TCP_ST_TIME_WAIT then AddtoTimewaitList env now s m1 else m1)))"

section \<open>Resets\<close>

definition ProcessRST :: "stack_env \<Rightarrow> sid \<Rightarrow> u32 \<Rightarrow> mtcp_manager \<Rightarrow> bool \<times> mtcp_manager" where
  "ProcessRST env s ack m =
    (if st m s \<le> TCP_ST_SYN_SENT then (False, m)
     else if st m s = TCP_ST_SYN_RCVD
     then (True, if ack = snd_nxt (streams m s) then DestroyTCPStream env s (close_stream TCP_RESET s m) else m)
     else if st m s \<in> {TCP_ST_FIN_WAIT_1, TCP_ST_FIN_WAIT_2, TCP_ST_LAST_ACK, TCP_ST_CLOSING, TCP_ST_TIME_WAIT}
     then (True, DestroyTCPStream env s (close_stream TCP_ACTIVE_CLOSE s m))
     else
       let v = snd_v m s in
       (True,
        if on_closeq v \<or> on_closeq_int v \<or> on_resetq v \<or> on_resetq_int v then m
        else RaiseCloseEvent s (upd_stream s (\<lambda>t. t \<lparr> state := TCP_ST_CLOSE_WAIT, close_reason := TCP_RESET \<rparr>) m)))"

section \<open>Round trip times\<close>

text \<open>\<open>long\<close> arithmetic on the measured time is exact; what is stored is cut to 32 bits.\<close>

definition rtt_deviation :: "int \<Rightarrow> u32 \<Rightarrow> int" where
  "rtt_deviation m d =
    (if m < 0 then let n = - m - uint (drop_bit 2 d) in if n > 0 then n div 8 else n
     else m - uint (drop_bit 2 d))"

definition rtt_update :: "u32 \<Rightarrow> u32 \<Rightarrow> u32 \<Rightarrow> tcp_recv_vars \<Rightarrow> tcp_recv_vars" where
  "rtt_update mrtt una nxt v =
    (let m0 = (if mrtt = 0 then 1 else uint mrtt) in
     if srtt v \<noteq> 0
     then
       let m1 = m0 - uint (drop_bit 3 (srtt v));
           v1 = v \<lparr> srtt := srtt v + of_int m1 \<rparr>;
           m2 = rtt_deviation m1 (mdev v1);
           v2 = v1 \<lparr> mdev := mdev v1 + of_int m2 \<rparr>;
           v3 = (if mdev v2 > mdev_max v2
                 then let w = v2 \<lparr> mdev_max := mdev v2 \<rparr> in
                      if mdev_max w > rttvar w then w \<lparr> rttvar := mdev_max w \<rparr> else w
                 else v2) in
       if TCP_SEQ_GT una (rtt_seq v3)
       then
         let v4 = (if mdev_max v3 < rttvar v3 then v3 \<lparr> rttvar := rttvar v3 - drop_bit 2 (rttvar v3 - mdev_max v3) \<rparr> else v3) in
         v4 \<lparr> rtt_seq := nxt, mdev_max := 0 \<rparr>
       else v3
     else
       let d = of_int (m0 * 2) in
       v \<lparr> srtt := of_int (m0 * 8), mdev := d, mdev_max := d, rttvar := d, rtt_seq := nxt \<rparr>)"

definition EstimateRTT :: "sid \<Rightarrow> u32 \<Rightarrow> mtcp_manager \<Rightarrow> mtcp_manager" where
  "EstimateRTT s mrtt m = upd_rcv s (rtt_update mrtt (snd_una (snd_v m s)) (snd_nxt (streams m s))) m"

section \<open>Acknowledgements\<close>

text \<open>The parts of \<^verbatim>\<open>ProcessACK\<close> in order: the acknowledgement of a FIN counts as that of the last byte; the window; the
  count of duplicates; fast retransmission; recovery of \<^verbatim>\<open>snd_nxt\<close>; and the acknowledgement of new data.\<close>

definition data_ack :: "tcp_stream \<Rightarrow> u32 \<Rightarrow> u32" where
  "data_ack t ack =
    (if state t \<in> {TCP_ST_FIN_WAIT_1, TCP_ST_FIN_WAIT_2, TCP_ST_CLOSING, TCP_ST_CLOSE_WAIT, TCP_ST_LAST_ACK} \<and>
        is_fin_sent (sndvar t) \<and> ack = fss (sndvar t) + 1
     then ack - 1 else ack)"

definition update_window :: "u32 \<Rightarrow> u32 \<Rightarrow> u32 \<Rightarrow> sid \<Rightarrow> mtcp_manager \<Rightarrow> mtcp_manager" where
  "update_window sq ack cwindow s m =
    (let v = rcv_v m s in
     if TCP_SEQ_LT (snd_wl1 v) sq \<or> (snd_wl1 v = sq \<and> TCP_SEQ_LT (snd_wl2 v) ack) \<or>
        (snd_wl2 v = ack \<and> cwindow > peer_wnd (snd_v m s))
     then
       let prev = peer_wnd (snd_v m s);
           m1 = upd_rcv s (\<lambda>v. v \<lparr> snd_wl1 := sq, snd_wl2 := ack \<rparr>) (upd_snd s (\<lambda>v. v \<lparr> peer_wnd := cwindow \<rparr>) m);
           flight = snd_nxt (streams m1 s) - snd_una (snd_v m1 s) in
       if prev < flight \<and> peer_wnd (snd_v m1 s) \<ge> flight then RaiseWriteEvent s m1 else m1
     else m)"

definition count_dup :: "u32 \<Rightarrow> int \<Rightarrow> u32 \<Rightarrow> sid \<Rightarrow> mtcp_manager \<Rightarrow> bool \<times> mtcp_manager" where
  "count_dup ack payloadlen right_wnd_edge s m =
    (if TCP_SEQ_LT ack (snd_nxt (streams m s)) \<and> ack = last_ack_seq (rcv_v m s) \<and> payloadlen = 0 \<and>
        snd_wl2 (rcv_v m s) + peer_wnd (snd_v m s) = right_wnd_edge
     then (True, upd_rcv s (\<lambda>v. v \<lparr> dup_acks := dup_acks v + 1 \<rparr>) m)
     else (False, upd_rcv s (\<lambda>v. v \<lparr> dup_acks := 0, last_ack_seq := ack \<rparr>) m))"

definition fast_cwnd :: "tcp_send_vars \<Rightarrow> tcp_send_vars" where
  "fast_cwnd v =
    (let half = min (cwnd v) (peer_wnd v) div 2; two = 2 * ucast (mss v);
         th = (if half < two then two else half) in
     v \<lparr> ssthresh := th, cwnd := th + 3 * ucast (mss v), nrtx := (if nrtx v < TCP_MAX_RTX then nrtx v + 1 else nrtx v) \<rparr>)"

definition fast_retransmit :: "stack_env \<Rightarrow> bool \<Rightarrow> u32 \<Rightarrow> sid \<Rightarrow> mtcp_manager \<Rightarrow> mtcp_manager" where
  "fast_retransmit env dup ack s m =
    (if dup \<and> dup_acks (rcv_v m s) = 3
     then
       let m1 = (if TCP_SEQ_LT ack (snd_nxt (streams m s)) then upd_stream s (\<lambda>t. t \<lparr> snd_nxt := ack \<rparr>) m else m) in
       AddtoSendList env s (upd_snd s fast_cwnd m1)
     else if dup_acks (rcv_v m s) > 3 \<and> cwnd (snd_v m s) + ucast (mss (snd_v m s)) > cwnd (snd_v m s)
     then upd_snd s (\<lambda>v. v \<lparr> cwnd := cwnd v + ucast (mss v) \<rparr>) m
     else m)"

definition recover_nxt :: "stack_env \<Rightarrow> u32 \<Rightarrow> tcp_send_buffer \<Rightarrow> sid \<Rightarrow> mtcp_manager \<Rightarrow> mtcp_manager" where
  "recover_nxt env ack b s m =
    (if TCP_SEQ_GT ack (snd_nxt (streams m s))
     then
       let m1 = upd_stream s (\<lambda>t. t \<lparr> snd_nxt := ack \<rparr>) m in
       if sb_len b = 0 then RemoveFromSendList env s m1 else m1
     else m)"

text \<open>Congestion control; \<open>None\<close> is the division by a congestion window of zero. Products wrap at 32 bits.\<close>

definition grow_cwnd :: "u16 \<Rightarrow> tcp_send_vars \<Rightarrow> tcp_send_vars option" where
  "grow_cwnd packets v =
    (let ms = ucast (mss v) :: u32; n = ucast packets in
     if cwnd v < ssthresh v
     then Some (if cwnd v + ms > cwnd v then v \<lparr> cwnd := cwnd v + ms * n \<rparr> else v)
     else if cwnd v = 0 then None
     else let w = cwnd v + n * ms * ms div cwnd v in Some (if w > cwnd v then v \<lparr> cwnd := w \<rparr> else v))"

definition ack_packets :: "u32 \<Rightarrow> u16 \<Rightarrow> u16" where
  "ack_packets rmlen eff =
    (let n = ucast (rmlen div ucast eff) in if (rmlen div ucast eff) * ucast eff > rmlen then n + 1 else n)"

definition measure_rtt :: "u32 \<Rightarrow> sid \<Rightarrow> mtcp_manager \<Rightarrow> mtcp_manager" where
  "measure_rtt now s m =
    (if saw_timestamp (streams m s)
     then
       let m1 = EstimateRTT s (now - ts_lastack_rcvd (rcv_v m s)) m in
       upd_snd s (\<lambda>v. v \<lparr> rto := drop_bit 3 (srtt (rcv_v m1 s)) + rttvar (rcv_v m1 s) \<rparr>) m1
     else m)"

definition ack_new_data :: "u32 \<Rightarrow> u32 \<Rightarrow> tcp_send_buffer \<Rightarrow> sid \<Rightarrow> mtcp_manager \<Rightarrow> mtcp_manager" where
  "ack_new_data now ack b s m =
    (let rmlen = ack - sb_head_seq b in
     if eff_mss (snd_v m s) = 0 then raise DivByZero m
     else
       let packets = ack_packets rmlen (eff_mss (snd_v m s));
           m1 = measure_rtt now s m in
       if saw_timestamp (streams m s) \<and> rto (snd_v m1 s) = 0 then raise AssertFail m1
       else case (if TCP_ST_ESTABLISHED \<le> st m1 s then grow_cwnd packets (snd_v m1 s) else Some (snd_v m1 s)) of
         None \<Rightarrow> raise DivByZero m1
       | Some v \<Rightarrow>
         let b' = snd (SBRemove b (ucast rmlen));
             prev = snd_wnd v;
             m2 = upd_snd s (\<lambda>_. v \<lparr> sndbuf := Some b', snd_una := ack, snd_wnd := sb_size b' - sb_len b' \<rparr>) m1;
             m3 = (if prev = 0 then RaiseWriteEvent s m2 else m2) in
         UpdateRetransmissionTimer now s m3)"

definition ProcessACK :: "stack_env \<Rightarrow> u32 \<Rightarrow> tcp_seg \<Rightarrow> sid \<Rightarrow> mtcp_manager \<Rightarrow> mtcp_manager" where
  "ProcessACK env now g s m =
    (case sndbuf (snd_v m s) of None \<Rightarrow> raise NullDeref m
     | Some b \<Rightarrow>
       let cwindow = (if th_syn (sg_hdr g) then ucast (sg_window g) else shl32 (ucast (sg_window g)) (wscale_peer (snd_v m s)));
           edge = peer_wnd (snd_v m s) + snd_wl2 (rcv_v m s);
           ack = data_ack (streams m s) (sg_ack g) in
       if TCP_SEQ_GT ack (sb_head_seq b + sb_len b) then m
       else
         let m1 = update_window (sg_seq g) ack cwindow s m;
             (dup, m2) = count_dup ack (sg_len g) edge s m1;
             m3 = recover_nxt env ack b s (fast_retransmit env dup ack s m2) in
         if TCP_SEQ_GEQ (sb_head_seq b) ack then m3 else ack_new_data now ack b s m3)"

section \<open>Payload\<close>

text \<open>The receive buffer of the stream, allocated on first use: \<open>None\<close> when the allocation fails.\<close>

definition get_rcvbuf :: "stack_env \<Rightarrow> sid \<Rightarrow> mtcp_manager \<Rightarrow> tcp_ring_buffer option \<times> mtcp_manager" where
  "get_rcvbuf env s m =
    (case rcvbuf (rcv_v m s) of Some b \<Rightarrow> (Some b, m)
     | None \<Rightarrow>
       (case RBInit (malloc_ok env) (chunk_bytes env) (rbm_rcv m) (irs (rcv_v m s) + 1) of
          Inl e \<Rightarrow> (None, raise e m)
        | Inr (x, rbm) \<Rightarrow> (x, upd_rcv s (\<lambda>v. v \<lparr> rcvbuf := x \<rparr>) (m \<lparr> rbm_rcv := rbm \<rparr>))))"

definition ProcessTCPPayload :: "stack_env \<Rightarrow> tcp_seg \<Rightarrow> sid \<Rightarrow> mtcp_manager \<Rightarrow> int \<times> mtcp_manager" where
  "ProcessTCPPayload env g s m =
    (let t = streams m s in
     if TCP_SEQ_LT (sg_end g) (rcv_nxt t) \<or> TCP_SEQ_GT (sg_end g) (rcv_nxt t + rcv_wnd (rcvvar t)) then (0, m)
     else case get_rcvbuf env s m of
       (None, m1) \<Rightarrow> (- 1, RaiseErrorEvent s (close_stream TCP_NO_MEM s m1))
     | (Some b, m1) \<Rightarrow>
       let prev = rcv_nxt (streams m1 s) in
       (case RBPut (frag_calloc env) (rbm_rcv m1) b (sg_payload g) (of_int (sg_len g)) (sg_seq g) of
          Inl e \<Rightarrow> (0, raise e m1)
        | Inr (_, rbm1, b1) \<Rightarrow>
          (case (if st m1 s = TCP_ST_FIN_WAIT_1 \<or> st m1 s = TCP_ST_FIN_WAIT_2
                 then RBRemove rbm1 b1 (size_of_int (rb_merged_len b1)) AT_MTCP else Inr (0, rbm1, b1)) of
             Inl e \<Rightarrow> (0, raise e m1)
           | Inr (_, rbm2, b2) \<Rightarrow>
             let m2 = upd_rcv s (\<lambda>v. v \<lparr> rcvbuf := Some b2, rcv_wnd := rb_size b2 - rb_merged_len b2 \<rparr>)
                        (upd_stream s (\<lambda>t. t \<lparr> rcv_nxt := rb_head_seq b2 + rb_merged_len b2 \<rparr>) (m1 \<lparr> rbm_rcv := rbm2 \<rparr>)) in
             if TCP_SEQ_LEQ (rcv_nxt (streams m2 s)) prev then (0, m2)
             else (1, if st m2 s = TCP_ST_ESTABLISHED then RaiseReadEvent s m2 else m2))))"

text \<open>What the handlers do with payload.\<close>

definition take_payload :: "stack_env \<Rightarrow> tcp_seg \<Rightarrow> sid \<Rightarrow> mtcp_manager \<Rightarrow> mtcp_manager" where
  "take_payload env g s m =
    (if sg_len g > 0
     then case ProcessTCPPayload env g s m of (r, m1) \<Rightarrow>
       EnqueueACK env (if r \<noteq> 0 then ACK_OPT_AGGREGATE else ACK_OPT_NOW) s m1
     else m)"

section \<open>A segment without a stream\<close>

definition CreateNewFlowHTEntry :: "stack_env \<Rightarrow> u32 \<Rightarrow> tcp_seg \<Rightarrow> mtcp_manager \<Rightarrow> sid option \<times> mtcp_manager" where
  "CreateNewFlowHTEntry env now g m =
    (let h = sg_hdr g; refuse = send_reset env now g 0 (sg_end g + 1) (TCP_FLAG_RST OR TCP_FLAG_ACK) in
     if th_syn h \<and> \<not> th_ack h
     then if \<not> FilterSYNPacket env (sg_da g) (th_dest h) m then (None, refuse m)
          else case HandlePassiveOpen env now g m of (None, m1) \<Rightarrow> (None, refuse m1) | (Some s, m1) \<Rightarrow> (Some s, m1)
     else if th_rst h then (None, m)
     else if th_ack h then (None, send_reset env now g (sg_ack g) 0 TCP_FLAG_RST m)
     else (None, send_reset env now g 0 (sg_end g) (TCP_FLAG_RST OR TCP_FLAG_ACK) m))"

section \<open>The states\<close>

definition Handle_TCP_ST_LISTEN :: "stack_env \<Rightarrow> tcp_seg \<Rightarrow> sid \<Rightarrow> mtcp_manager \<Rightarrow> mtcp_manager" where
  "Handle_TCP_ST_LISTEN env g s m =
    (if th_syn (sg_hdr g)
     then
       let m1 = (if st m s = TCP_ST_LISTEN then upd_stream s (\<lambda>t. t \<lparr> rcv_nxt := rcv_nxt t + 1 \<rparr>) m else m) in
       AddtoControlList env s (upd_stream s (\<lambda>t. t \<lparr> state := TCP_ST_SYN_RCVD \<rparr>) m1)
     else m)"

definition established :: "stack_env \<Rightarrow> u32 \<Rightarrow> tcp_seg \<Rightarrow> sid \<Rightarrow> mtcp_manager \<Rightarrow> mtcp_manager" where
  "established env now g s m =
    (let m1 = upd_stream s (\<lambda>t. t \<lparr> rcv_nxt := irs (rcvvar t) + 1 \<rparr>)
                (upd_snd s (\<lambda>v. v \<lparr> nrtx := 0 \<rparr>) (HandleActiveOpen env now g s m));
         m2 = upd_stream s (\<lambda>t. t \<lparr> state := TCP_ST_ESTABLISHED \<rparr>) (RemoveFromRTOList s m1) in
     if sock (streams m2 s) \<noteq> None
     then
       let m3 = AddtoControlList env s (RaiseWriteEvent s m2) in
       if tcp_timeout env > 0 then AddtoTimeoutList s m3 else m3
     else
       DestroyTCPStream env s (upd_stream s (\<lambda>t. t \<lparr> close_reason := TCP_ACTIVE_CLOSE \<rparr>)
         (send_reset env now g 0 (sg_end g + 1) (TCP_FLAG_RST OR TCP_FLAG_ACK) m2)))"

definition Handle_TCP_ST_SYN_SENT :: "stack_env \<Rightarrow> u32 \<Rightarrow> tcp_seg \<Rightarrow> sid \<Rightarrow> mtcp_manager \<Rightarrow> mtcp_manager" where
  "Handle_TCP_ST_SYN_SENT env now g s m =
    (let h = sg_hdr g in
     if th_ack h \<and> (TCP_SEQ_LEQ (sg_ack g) (iss (snd_v m s)) \<or> TCP_SEQ_GT (sg_ack g) (snd_nxt (streams m s)))
     then if th_rst h then m else send_reset env now g (sg_ack g) 0 TCP_FLAG_RST m
     else
       let m1 = (if th_ack h then upd_snd s (\<lambda>v. v \<lparr> snd_una := snd_una v + 1 \<rparr>) m else m) in
       if th_rst h
       then if th_ack h
            then notify_or_destroy env s (upd_stream s (\<lambda>t. t \<lparr> state := TCP_ST_CLOSE_WAIT, close_reason := TCP_RESET \<rparr>) m1)
            else m1
       else if th_syn h
       then if th_ack h then established env now g s m1
            else AddtoControlList env s (upd_stream s (\<lambda>t. t \<lparr> state := TCP_ST_SYN_RCVD, snd_nxt := iss (sndvar t) \<rparr>) m1)
       else m1)"

definition accept_stream :: "stack_env \<Rightarrow> u16 \<Rightarrow> sid \<Rightarrow> mtcp_manager \<Rightarrow> mtcp_manager" where
  "accept_stream env port s m =
    (case ListenerHTSearch port m of None \<Rightarrow> raise NullDeref m
     | Some l \<Rightarrow>
       (case StreamEnqueue (l_acceptq (listener_mem m l)) (Some s) of Inl e \<Rightarrow> raise e m
        | Inr (ret, q) \<Rightarrow>
          let m1 = m \<lparr> listener_mem := (listener_mem m)(l := (listener_mem m l) \<lparr> l_acceptq := q \<rparr>) \<rparr>;
              m2 = (if ret < 0 then AddtoControlList env s (close_stream TCP_NOT_ACCEPTED s m1) else m1);
              m3 = (if tcp_timeout env > 0 then AddtoTimeoutList s m2 else m2);
              k = l_sockid (listener_mem m3 l) in
          if sock_epoll (smap m3 k) AND MTCP_EPOLLIN \<noteq> 0 then snd (AddEpollEvent MTCP_EVENT_QUEUE k MTCP_EPOLLIN m3) else m3))"

definition Handle_TCP_ST_SYN_RCVD :: "stack_env \<Rightarrow> tcp_seg \<Rightarrow> sid \<Rightarrow> mtcp_manager \<Rightarrow> mtcp_manager" where
  "Handle_TCP_ST_SYN_RCVD env g s m =
    (if th_ack (sg_hdr g)
     then if sg_ack g \<noteq> iss (snd_v m s) + 1 then m
          else
            let m1 = upd_stream s (\<lambda>t. t \<lparr> snd_nxt := sg_ack g \<rparr>) (upd_snd s (\<lambda>v. v \<lparr> snd_una := snd_una v + 1 \<rparr>) m);
                m2 = upd_snd s (\<lambda>v. v \<lparr> cwnd := (if cwnd v = 1 then ucast (mss v) * 2 else ucast (mss v)), nrtx := 0 \<rparr>) m1;
                m3 = RemoveFromRTOList s (upd_stream s (\<lambda>t. t \<lparr> rcv_nxt := irs (rcvvar t) + 1 \<rparr>) m2) in
            accept_stream env (th_dest (sg_hdr g)) s (upd_stream s (\<lambda>t. t \<lparr> state := TCP_ST_ESTABLISHED \<rparr>) m3)
     else AddtoControlList env s (upd_stream s (\<lambda>t. t \<lparr> snd_nxt := iss (sndvar t) \<rparr>) m))"

text \<open>\<^verbatim>\<open>ProcessACK\<close> where the handlers call it only with a send buffer.\<close>

definition take_ack :: "stack_env \<Rightarrow> u32 \<Rightarrow> tcp_seg \<Rightarrow> sid \<Rightarrow> mtcp_manager \<Rightarrow> mtcp_manager" where
  "take_ack env now g s m = (if sndbuf (snd_v m s) \<noteq> None then ProcessACK env now g s m else m)"

definition Handle_TCP_ST_ESTABLISHED :: "stack_env \<Rightarrow> u32 \<Rightarrow> tcp_seg \<Rightarrow> sid \<Rightarrow> mtcp_manager \<Rightarrow> mtcp_manager" where
  "Handle_TCP_ST_ESTABLISHED env now g s m =
    (if th_syn (sg_hdr g) then AddtoControlList env s (upd_stream s (\<lambda>t. t \<lparr> snd_nxt := sg_ack g \<rparr>) m)
     else
       let m1 = take_payload env g s m;
           m2 = (if th_ack (sg_hdr g) then take_ack env now g s m1 else m1) in
       if th_fin (sg_hdr g)
       then if sg_end g = rcv_nxt (streams m2 s)
            then RaiseReadEvent s (AddtoControlList env s
                   (upd_stream s (\<lambda>t. t \<lparr> state := TCP_ST_CLOSE_WAIT, rcv_nxt := rcv_nxt t + 1 \<rparr>) m2))
            else EnqueueACK env ACK_OPT_NOW s m2
       else m2)"

definition Handle_TCP_ST_CLOSE_WAIT :: "stack_env \<Rightarrow> u32 \<Rightarrow> tcp_seg \<Rightarrow> sid \<Rightarrow> mtcp_manager \<Rightarrow> mtcp_manager" where
  "Handle_TCP_ST_CLOSE_WAIT env now g s m =
    (if TCP_SEQ_LT (sg_seq g) (rcv_nxt (streams m s)) then AddtoControlList env s m else take_ack env now g s m)"

definition Handle_TCP_ST_LAST_ACK :: "stack_env \<Rightarrow> u32 \<Rightarrow> tcp_seg \<Rightarrow> sid \<Rightarrow> mtcp_manager \<Rightarrow> mtcp_manager" where
  "Handle_TCP_ST_LAST_ACK env now g s m =
    (if TCP_SEQ_LT (sg_seq g) (rcv_nxt (streams m s)) then m
     else if th_ack (sg_hdr g)
     then
       let m1 = take_ack env now g s m in
       if \<not> is_fin_sent (snd_v m1 s) then m1
       else if sg_ack g = fss (snd_v m1 s) + 1
       then DestroyTCPStream env s (close_stream TCP_PASSIVE_CLOSE s
              (UpdateRetransmissionTimer now s (upd_snd s (\<lambda>v. v \<lparr> snd_una := snd_una v + 1 \<rparr>) m1)))
       else AddtoControlList env s m1
     else AddtoControlList env s m)"

definition fin_acked :: "tcp_seg \<Rightarrow> sid \<Rightarrow> mtcp_manager \<Rightarrow> mtcp_manager" where
  "fin_acked g s m =
    (if is_fin_sent (snd_v m s) \<and> sg_ack g = fss (snd_v m s) + 1
     then
       let m1 = upd_snd s (\<lambda>v. v \<lparr> snd_una := sg_ack g \<rparr>) m;
           m2 = (if TCP_SEQ_GT (sg_ack g) (snd_nxt (streams m1 s)) then upd_stream s (\<lambda>t. t \<lparr> snd_nxt := sg_ack g \<rparr>) m1 else m1) in
       upd_stream s (\<lambda>t. t \<lparr> state := TCP_ST_FIN_WAIT_2 \<rparr>) (RemoveFromRTOList s (upd_snd s (\<lambda>v. v \<lparr> nrtx := 0 \<rparr>) m2))
     else m)"

definition Handle_TCP_ST_FIN_WAIT_1 :: "stack_env \<Rightarrow> u32 \<Rightarrow> tcp_seg \<Rightarrow> sid \<Rightarrow> mtcp_manager \<Rightarrow> mtcp_manager" where
  "Handle_TCP_ST_FIN_WAIT_1 env now g s m =
    (if TCP_SEQ_LT (sg_seq g) (rcv_nxt (streams m s)) then AddtoControlList env s m
     else if \<not> th_ack (sg_hdr g) then m
     else
       let m1 = take_payload env g s (fin_acked g s (take_ack env now g s m)) in
       if th_fin (sg_hdr g) \<and> sg_end g = rcv_nxt (streams m1 s)
       then
         let m2 = upd_stream s (\<lambda>t. t \<lparr> rcv_nxt := rcv_nxt t + 1 \<rparr>) m1;
             m3 = (if st m2 s = TCP_ST_FIN_WAIT_1 then upd_stream s (\<lambda>t. t \<lparr> state := TCP_ST_CLOSING \<rparr>) m2
                   else if st m2 s = TCP_ST_FIN_WAIT_2
                   then AddtoTimewaitList env now s (upd_stream s (\<lambda>t. t \<lparr> state := TCP_ST_TIME_WAIT \<rparr>) m2)
                   else m2) in
         AddtoControlList env s m3
       else m1)"

definition Handle_TCP_ST_FIN_WAIT_2 :: "stack_env \<Rightarrow> u32 \<Rightarrow> tcp_seg \<Rightarrow> sid \<Rightarrow> mtcp_manager \<Rightarrow> mtcp_manager" where
  "Handle_TCP_ST_FIN_WAIT_2 env now g s m =
    (if \<not> th_ack (sg_hdr g) then m
     else
       let m1 = take_payload env g s (take_ack env now g s m) in
       if th_fin (sg_hdr g) \<and> sg_end g = rcv_nxt (streams m1 s)
       then AddtoControlList env s (AddtoTimewaitList env now s
              (upd_stream s (\<lambda>t. t \<lparr> state := TCP_ST_TIME_WAIT, rcv_nxt := rcv_nxt t + 1 \<rparr>) m1))
       else m1)"

definition Handle_TCP_ST_CLOSING :: "stack_env \<Rightarrow> u32 \<Rightarrow> tcp_seg \<Rightarrow> sid \<Rightarrow> mtcp_manager \<Rightarrow> mtcp_manager" where
  "Handle_TCP_ST_CLOSING env now g s m =
    (if \<not> th_ack (sg_hdr g) then m
     else
       let m1 = take_ack env now g s m in
       if \<not> is_fin_sent (snd_v m1 s) \<or> sg_ack g \<noteq> fss (snd_v m1 s) + 1 then m1
       else
         let m2 = upd_stream s (\<lambda>t. t \<lparr> snd_nxt := sg_ack g \<rparr>) (upd_snd s (\<lambda>v. v \<lparr> snd_una := sg_ack g \<rparr>) m1) in
         AddtoTimewaitList env now s (upd_stream s (\<lambda>t. t \<lparr> state := TCP_ST_TIME_WAIT \<rparr>) (UpdateRetransmissionTimer now s m2)))"

definition Handle_TCP_ST_TIME_WAIT :: "stack_env \<Rightarrow> u32 \<Rightarrow> sid \<Rightarrow> mtcp_manager \<Rightarrow> mtcp_manager" where
  "Handle_TCP_ST_TIME_WAIT env now s m =
    AddtoControlList env s
      (if on_timewait_list (streams m s) then AddtoTimewaitList env now s (RemoveFromTimewaitList s m) else m)"

section \<open>Dispatch\<close>

definition handle_state :: "stack_env \<Rightarrow> u32 \<Rightarrow> tcp_seg \<Rightarrow> sid \<Rightarrow> mtcp_manager \<Rightarrow> mtcp_manager" where
  "handle_state env now g s m =
    (case st m s of
       TCP_ST_LISTEN \<Rightarrow> Handle_TCP_ST_LISTEN env g s m
     | TCP_ST_SYN_SENT \<Rightarrow> Handle_TCP_ST_SYN_SENT env now g s m
     | TCP_ST_SYN_RCVD \<Rightarrow>
         if th_syn (sg_hdr g) \<and> sg_seq g = irs (rcv_v m s) then Handle_TCP_ST_LISTEN env g s m
         else
           let m1 = Handle_TCP_ST_SYN_RCVD env g s m in
           if sg_len g > 0 \<and> st m1 s = TCP_ST_ESTABLISHED then Handle_TCP_ST_ESTABLISHED env now g s m1 else m1
     | TCP_ST_ESTABLISHED \<Rightarrow> Handle_TCP_ST_ESTABLISHED env now g s m
     | TCP_ST_CLOSE_WAIT \<Rightarrow> Handle_TCP_ST_CLOSE_WAIT env now g s m
     | TCP_ST_LAST_ACK \<Rightarrow> Handle_TCP_ST_LAST_ACK env now g s m
     | TCP_ST_FIN_WAIT_1 \<Rightarrow> Handle_TCP_ST_FIN_WAIT_1 env now g s m
     | TCP_ST_FIN_WAIT_2 \<Rightarrow> Handle_TCP_ST_FIN_WAIT_2 env now g s m
     | TCP_ST_CLOSING \<Rightarrow> Handle_TCP_ST_CLOSING env now g s m
     | TCP_ST_TIME_WAIT \<Rightarrow> Handle_TCP_ST_TIME_WAIT env now s m
     | TCP_ST_CLOSED \<Rightarrow> m)"

definition note_packet :: "u32 \<Rightarrow> tcp_seg \<Rightarrow> sid \<Rightarrow> mtcp_manager \<Rightarrow> mtcp_manager" where
  "note_packet now g s m =
    UpdateTimeoutList s (upd_stream s (\<lambda>t. t \<lparr> last_active_ts := now \<rparr>)
      (upd_snd s (\<lambda>v. v \<lparr> peer_wnd := (if th_syn (sg_hdr g) then ucast (sg_window g) else shl32 (ucast (sg_window g)) (wscale_peer v)) \<rparr>) m))"

text \<open>What happens to a segment once its stream is known.\<close>

definition stream_input :: "stack_env \<Rightarrow> u32 \<Rightarrow> tcp_seg \<Rightarrow> sid \<Rightarrow> mtcp_manager \<Rightarrow> mtcp_manager" where
  "stream_input env now g s m =
    (case (if TCP_ST_SYN_RCVD < st m s then ValidateSequence env now g s m else (True, m)) of
       (False, m1) \<Rightarrow> m1
     | (True, m1) \<Rightarrow>
       let m2 = note_packet now g s m1 in
       if th_rst (sg_hdr g)
       then
         let m3 = upd_stream s (\<lambda>t. t \<lparr> have_reset := True \<rparr>) m2 in
         if TCP_ST_SYN_SENT < st m3 s
         then case ProcessRST env s (sg_ack g) m3 of (True, m4) \<Rightarrow> m4 | (False, m4) \<Rightarrow> handle_state env now g s m4
         else handle_state env now g s m3
       else handle_state env now g s m2)"

text \<open>\<open>pkt\<close> is the IP packet as it lies in the receive buffer, \<open>ip_len\<close> the length its header gives.\<close>

definition segment_of :: "u8 list \<Rightarrow> int \<Rightarrow> tcp_seg" where
  "segment_of pkt ip_len =
    (let off = 4 * ip_ihl pkt; h = tcphdr_of (drop off pkt); hlen = 4 * th_doff h;
         len = ip_len - int (off + hlen) in
     \<lparr> sg_sa = ip_saddr pkt, sg_da = ip_daddr pkt, sg_hdr = h, sg_seq = ntohl (th_seq h), sg_ack = ntohl (th_ack_seq h),
       sg_window = ntohs (th_window h), sg_opts = drop (off + TCP_HEADER_LEN) pkt, sg_optlen = int hlen - int TCP_HEADER_LEN,
       sg_payload = take (nat len) (drop (off + hlen) pkt), sg_len = len \<rparr>)"

definition ProcessTCPPacket :: "stack_env \<Rightarrow> u32 \<Rightarrow> u8 list \<Rightarrow> int \<Rightarrow> mtcp_manager \<Rightarrow> int \<times> mtcp_manager" where
  "ProcessTCPPacket env now pkt ip_len m =
    (let off = 4 * ip_ihl pkt in
     if length pkt < off + TCP_HEADER_LEN then (- 1, raise OutOfBounds m)
     else
       let g = segment_of pkt ip_len; h = sg_hdr g; n = nat ip_len - off in
       if ip_len < int (4 * (ip_ihl pkt + th_doff h)) then (- 1, m)
       else if \<not> hw_csum env \<and> length pkt < off + n then (- 1, raise OutOfBounds m)
       else if \<not> hw_csum env \<and> TCPCalcChecksum (take n (drop off pkt)) (sg_sa g) (sg_da g) \<noteq> 0 then (- 1, m)
       else
         let key = zero_stream \<lparr> saddr := sg_da g, sport := th_dest h, daddr := sg_sa g, dport := th_source h \<rparr> in
         case StreamHTSearch key m of
           Some s \<Rightarrow> (1, stream_input env now g s m)
         | None \<Rightarrow>
           (case CreateNewFlowHTEntry env now g m of
              (None, m1) \<Rightarrow> (1, m1)
            | (Some s, m1) \<Rightarrow> (1, stream_input env now g s m1)))"

section \<open>Options keep what the invariant reads\<close>

lemma parse_option_view:
  "parse_option now mem opt optlen i s = Inr (j, t) \<Longrightarrow> stream_view t = stream_view s \<and> flow_key t = flow_key s"
  by (auto simp: parse_option_def stream_view_def flow_key_def Let_def split: if_splits option.splits)

lemma parse_options_view:
  assumes "parse_options now mem len i s = Some r"
  shows "\<forall>t. r = Inr t \<longrightarrow> stream_view t = stream_view s \<and> flow_key t = flow_key s"
  by (rule parse_options.raw_induct [where P = "\<lambda>now mem len i s r. \<forall>t. r = Inr t \<longrightarrow> stream_view t = stream_view s \<and> flow_key t = flow_key s",
        OF _ assms])
    (auto split: if_splits option.splits sum.splits prod.splits dest!: parse_option_view)

lemma okp_upd_at:
  assumes "okp env L m" "stream_view t = stream_view (streams m s)" "flow_key t = flow_key (streams m s)"
  shows "okp env L (upd_stream s (\<lambda>_. t) m)"
proof (rule okp_cong [OF _ _ assms(1)])
  show "same_lists m (upd_stream s (\<lambda>_. t) m)" using assms(2) by (simp add: same_lists_def upd_stream_def timer_view_def)
  show "same_flows m (upd_stream s (\<lambda>_. t) m)"
    using assms(2,3) HashFlow_cong [OF assms(3)] by (simp add: same_flows_def stream_view_def upd_stream_def)
qed

lemma okp_parse_into [okp_rules]: "okp env L m \<Longrightarrow> okp env L (parse_into now g s m)"
  unfolding parse_into_def ParseTCPOptions_def
  by (auto simp: okp_rules split: option.split sum.split dest!: parse_options_view intro!: okp_upd_at)

lemma only_parse_into [only_rules]: "only s m m' \<Longrightarrow> only s m (parse_into now g s m')"
  by (simp add: parse_into_def only_rules split: option.split sum.split)

lemma okp_send_reset [okp_rules]: "okp env L m \<Longrightarrow> okp env L (send_reset env now g sq ack flags m)"
  by (simp add: send_reset_def okp_SendTCPPacketStandalone)

lemma streams_IPOutputStandalone: "IPOutputStandalone env protocol idn sa da len m = (x, m1) \<Longrightarrow> streams m1 = streams m"
  by (auto simp: IPOutputStandalone_def dest!: streams_EthernetOutput split: sum.splits prod.splits option.splits if_splits)

lemma streams_send_reset [simp]: "streams (send_reset env now g sq ack flags m) = streams m"
  by (auto simp: send_reset_def SendTCPPacketStandalone_def Let_def emit_def split: prod.split option.split dest!: streams_IPOutputStandalone)

lemma only_send_reset [only_rules]: "only s m m' \<Longrightarrow> only s m (send_reset env now g sq ack flags m')"
  by (simp add: only_def)

section \<open>Receiving keeps the invariant\<close>

lemma okp_HandleActiveOpen [okp_rules]: "okp env L m \<Longrightarrow> L s \<Longrightarrow> okp env L (HandleActiveOpen env now g s m)"
  by (simp add: HandleActiveOpen_def Let_def okp_rules stream_view_def flow_key_def)

lemma only_HandleActiveOpen [only_rules]: "only s m m' \<Longrightarrow> only s m (HandleActiveOpen env now g s m')"
  by (simp add: HandleActiveOpen_def Let_def only_rules)

lemma okp_check_paws [okp_rules]: "okp env L m \<Longrightarrow> L s \<Longrightarrow> okp env L (snd (check_paws env now g s m))"
  by (simp add: check_paws_def Let_def okp_rules split: option.split sum.split)

lemma only_check_paws [only_rules]: "only s m m' \<Longrightarrow> only s m (snd (check_paws env now g s m'))"
  by (simp add: check_paws_def Let_def only_rules split: option.split sum.split)

lemma ValidateSequence_ok:
  assumes "okp env L m" "L s" "only s m0 m"
  shows "okp env L (snd (ValidateSequence env now g s m)) \<and> only s m0 (snd (ValidateSequence env now g s m))"
proof -
  obtain a m1 where c: "check_paws env now g s m = (a, m1)" by fastforce
  have "okp env L m1" "only s m0 m1" using okp_check_paws [OF assms(1,2), of now g] only_check_paws [OF assms(3), of env now g] c by simp_all
  then show ?thesis using assms(2)
    by (simp add: ValidateSequence_def c Let_def okp_rules only_rules split: bool.split)
qed

lemma ProcessRST_ok:
  assumes "okp env L m" "L s" "only s m0 m"
  shows "may_end env L s m0 (snd (ProcessRST env s ack m))"
  using assms by (auto simp: ProcessRST_def Let_def okp_rules only_rules stream_view_def flow_key_def intro!: may_end_intros)

lemma fast_cwnd_flags [simp]:
  "on_control_list (fast_cwnd v) = on_control_list v" "on_send_list (fast_cwnd v) = on_send_list v"
  "on_ack_list (fast_cwnd v) = on_ack_list v" "nif_out (fast_cwnd v) = nif_out v"
  by (simp_all add: fast_cwnd_def Let_def)

lemma grow_cwnd_flags:
  "grow_cwnd p v = Some w \<Longrightarrow> on_control_list w = on_control_list v \<and> on_send_list w = on_send_list v \<and> on_ack_list w = on_ack_list v \<and> nif_out w = nif_out v"
  by (auto simp: grow_cwnd_def Let_def split: if_splits)

lemma okp_ack_parts [okp_rules]:
  assumes "okp env L m" "L s"
  shows "okp env L (update_window sq ack cw s m)" "okp env L (snd (count_dup ack n edge s m))"
    "okp env L (fast_retransmit env dup ack s m)" "okp env L (recover_nxt env ack b s m)" "okp env L (measure_rtt now s m)"
  using assms
  by (simp_all add: update_window_def count_dup_def fast_retransmit_def recover_nxt_def measure_rtt_def EstimateRTT_def Let_def okp_rules
      stream_view_def flow_key_def)

lemma only_ack_parts [only_rules]:
  assumes "only s m m'"
  shows "only s m (update_window sq ack cw s m')" "only s m (snd (count_dup ack n edge s m'))"
    "only s m (fast_retransmit env dup ack s m')" "only s m (recover_nxt env ack b s m')" "only s m (measure_rtt now s m')"
  using assms
  by (simp_all add: update_window_def count_dup_def fast_retransmit_def recover_nxt_def measure_rtt_def EstimateRTT_def Let_def only_rules)

lemma okp_upd_snd_at:
  assumes "okp env L m" "on_control_list v = on_control_list (snd_v m s)" "on_send_list v = on_send_list (snd_v m s)"
    "on_ack_list v = on_ack_list (snd_v m s)" "nif_out v = nif_out (snd_v m s)"
  shows "okp env L (upd_snd s (\<lambda>_. v) m)"
proof -
  have "upd_snd s (\<lambda>_. v) m = upd_stream s (\<lambda>_. (streams m s) \<lparr> sndvar := v \<rparr>) m"
    by (simp add: m_simps)
  then show ?thesis using assms by (auto simp: stream_view_def flow_key_def intro!: okp_upd_at)
qed

lemma okp_ack_new_data [okp_rules]:
  assumes ok: "okp env L m" and s: "L s"
  shows "okp env L (ack_new_data now ack b s m)"
proof -
  define m1 where "m1 = measure_rtt now s m"
  have ok1: "okp env L m1" using ok s by (simp add: m1_def okp_rules)
  have "okp env L (upd_snd s (\<lambda>_. v \<lparr> sndbuf := x, snd_una := y, snd_wnd := z \<rparr>) m1)"
    if "(if TCP_ST_ESTABLISHED \<le> st m1 s then grow_cwnd p (snd_v m1 s) else Some (snd_v m1 s)) = Some v" for p v x y z
    using that by (intro okp_upd_snd_at [OF ok1(1)]) (auto dest: grow_cwnd_flags split: if_splits)
  then show ?thesis using s ok ok1
    by (auto simp: ack_new_data_def m1_def [symmetric] Let_def okp_rules split: option.split)
qed

lemma only_ack_new_data [only_rules]: "only s m m' \<Longrightarrow> only s m (ack_new_data now ack b s m')"
  by (simp add: ack_new_data_def Let_def only_rules split: option.split)

lemma okp_ProcessACK [okp_rules]: "okp env L m \<Longrightarrow> L s \<Longrightarrow> okp env L (ProcessACK env now g s m)"
  using okp_ack_parts(1,2)
  by (simp add: ProcessACK_def Let_def okp_rules case_prod_unfold split: option.split)

lemma only_ProcessACK [only_rules]: "only s m m' \<Longrightarrow> only s m (ProcessACK env now g s m')"
  by (simp add: ProcessACK_def Let_def only_rules case_prod_unfold split: option.split)

lemma okp_take_ack [okp_rules]: "okp env L m \<Longrightarrow> L s \<Longrightarrow> okp env L (take_ack env now g s m)"
  by (simp add: take_ack_def okp_rules)

lemma only_take_ack [only_rules]: "only s m m' \<Longrightarrow> only s m (take_ack env now g s m')"
  by (simp add: take_ack_def only_rules)

lemma get_rcvbuf_ok:
  assumes "okp env L m" "only s m0 m"
  shows "okp env L (snd (get_rcvbuf env s m)) \<and> only s m0 (snd (get_rcvbuf env s m))"
  using assms by (simp add: get_rcvbuf_def okp_rules only_rules split: option.split sum.split prod.split)

lemma ProcessTCPPayload_ok:
  assumes "okp env L m" "only s m0 m"
  shows "okp env L (snd (ProcessTCPPayload env g s m)) \<and> only s m0 (snd (ProcessTCPPayload env g s m))"
proof -
  obtain x m1 where c: "get_rcvbuf env s m = (x, m1)" by fastforce
  have "okp env L m1" "only s m0 m1" using get_rcvbuf_ok [OF assms] c by simp_all
  then show ?thesis using assms
    by (simp add: ProcessTCPPayload_def c Let_def okp_rules only_rules stream_view_def flow_key_def split: option.split sum.split prod.split)
qed

lemma okp_take_payload [okp_rules]: "okp env L m \<Longrightarrow> L s \<Longrightarrow> okp env L (take_payload env g s m)"
  using ProcessTCPPayload_ok [of env L m s m g] by (simp add: take_payload_def okp_rules only_rules case_prod_unfold)

lemma only_get_rcvbuf: "only s m m' \<Longrightarrow> only s m (snd (get_rcvbuf env s m'))"
  by (simp add: get_rcvbuf_def only_rules split: option.split sum.split prod.split)

lemma only_take_payload [only_rules]:
  assumes "only s m m'"
  shows "only s m (take_payload env g s m')"
proof -
  obtain x m1 where c: "get_rcvbuf env s m' = (x, m1)" by fastforce
  have "only s m m1" using only_get_rcvbuf [OF assms, of env] c by simp
  then have "only s m (snd (ProcessTCPPayload env g s m'))" using assms
    by (simp add: ProcessTCPPayload_def c Let_def only_rules split: option.split sum.split prod.split)
  then show ?thesis using assms by (simp add: take_payload_def only_rules case_prod_unfold)
qed

lemma okp_accept_stream [okp_rules]: "okp env L m \<Longrightarrow> L s \<Longrightarrow> okp env L (accept_stream env port s m)"
  by (simp add: accept_stream_def Let_def okp_rules split: option.split sum.split prod.split)

lemma only_AddEpollEvent [only_rules]: "only s m m' \<Longrightarrow> only s m (snd (AddEpollEvent qt k e m'))"
  by (simp add: only_def)

lemma only_listener_mem [only_rules]: "only s m m' \<Longrightarrow> only s m (m' \<lparr> listener_mem := x \<rparr>)"
  by (simp add: only_def)

lemma only_accept_stream [only_rules]: "only s m m' \<Longrightarrow> only s m (accept_stream env port s m')"
  by (simp add: accept_stream_def Let_def only_rules split: option.split sum.split prod.split)

lemma okp_fin_acked [okp_rules]: "okp env L m \<Longrightarrow> L s \<Longrightarrow> okp env L (fin_acked g s m)"
  by (simp add: fin_acked_def Let_def okp_rules stream_view_def flow_key_def)

lemma only_fin_acked [only_rules]: "only s m m' \<Longrightarrow> only s m (fin_acked g s m')"
  by (simp add: fin_acked_def Let_def only_rules)

lemma okp_handlers [okp_rules]:
  assumes "okp env L m" "L s"
  shows "okp env L (Handle_TCP_ST_LISTEN env g s m)" "okp env L (Handle_TCP_ST_SYN_RCVD env g s m)"
    "okp env L (Handle_TCP_ST_ESTABLISHED env now g s m)" "okp env L (Handle_TCP_ST_CLOSE_WAIT env now g s m)"
    "okp env L (Handle_TCP_ST_FIN_WAIT_1 env now g s m)" "okp env L (Handle_TCP_ST_FIN_WAIT_2 env now g s m)"
    "okp env L (Handle_TCP_ST_CLOSING env now g s m)" "okp env L (Handle_TCP_ST_TIME_WAIT env now s m)"
    "okp env L (note_packet now g s m)"
  using assms
  by (simp_all add: Handle_TCP_ST_LISTEN_def Handle_TCP_ST_SYN_RCVD_def Handle_TCP_ST_ESTABLISHED_def Handle_TCP_ST_CLOSE_WAIT_def
      Handle_TCP_ST_FIN_WAIT_1_def Handle_TCP_ST_FIN_WAIT_2_def Handle_TCP_ST_CLOSING_def Handle_TCP_ST_TIME_WAIT_def note_packet_def
      Let_def okp_rules stream_view_def flow_key_def)

lemma only_handlers [only_rules]:
  assumes "only s m m'"
  shows "only s m (Handle_TCP_ST_LISTEN env g s m')" "only s m (Handle_TCP_ST_SYN_RCVD env g s m')"
    "only s m (Handle_TCP_ST_ESTABLISHED env now g s m')" "only s m (Handle_TCP_ST_CLOSE_WAIT env now g s m')"
    "only s m (Handle_TCP_ST_FIN_WAIT_1 env now g s m')" "only s m (Handle_TCP_ST_FIN_WAIT_2 env now g s m')"
    "only s m (Handle_TCP_ST_CLOSING env now g s m')" "only s m (Handle_TCP_ST_TIME_WAIT env now s m')"
    "only s m (note_packet now g s m')"
  using assms
  by (simp_all add: Handle_TCP_ST_LISTEN_def Handle_TCP_ST_SYN_RCVD_def Handle_TCP_ST_ESTABLISHED_def Handle_TCP_ST_CLOSE_WAIT_def
      Handle_TCP_ST_FIN_WAIT_1_def Handle_TCP_ST_FIN_WAIT_2_def Handle_TCP_ST_CLOSING_def Handle_TCP_ST_TIME_WAIT_def note_packet_def
      Let_def only_rules)

lemma established_ok:
  assumes "okp env L m" "L s" "only s m0 m"
  shows "may_end env L s m0 (established env now g s m)"
  using assms by (auto simp: established_def Let_def okp_rules only_rules stream_view_def flow_key_def intro!: may_end_intros)

lemma Handle_TCP_ST_SYN_SENT_ok:
  assumes "okp env L m" "L s" "only s m0 m"
  shows "may_end env L s m0 (Handle_TCP_ST_SYN_SENT env now g s m)"
  using assms
  by (auto simp: Handle_TCP_ST_SYN_SENT_def Let_def okp_rules only_rules stream_view_def flow_key_def intro!: may_end_intros established_ok)

lemma Handle_TCP_ST_LAST_ACK_ok:
  assumes "okp env L m" "L s" "only s m0 m"
  shows "may_end env L s m0 (Handle_TCP_ST_LAST_ACK env now g s m)"
  using assms by (auto simp: Handle_TCP_ST_LAST_ACK_def Let_def okp_rules only_rules intro!: may_end_intros)

lemma handle_state_ok:
  assumes "okp env L m" "L s" "only s m0 m"
  shows "may_end env L s m0 (handle_state env now g s m)"
  using assms Handle_TCP_ST_SYN_SENT_ok [OF assms] Handle_TCP_ST_LAST_ACK_ok [OF assms]
  by (cases "st m s") (simp_all add: handle_state_def Let_def okp_rules only_rules may_endI)

lemma stream_input_ok:
  assumes ok: "okp env L m" and s: "L s" and o: "only s m0 m"
  shows "may_end env L s m0 (stream_input env now g s m)"
proof -
  define x where "x = (if TCP_ST_SYN_RCVD < st m s then ValidateSequence env now g s m else (True, m))"
  obtain a m1 where a: "x = (a, m1)" by fastforce
  have ok1: "okp env L m1" "only s m0 m1"
    using ValidateSequence_ok [OF assms, of now g] ok o a by (auto simp: x_def split: if_splits)
  define m3 where "m3 = upd_stream s (\<lambda>t. t \<lparr> have_reset := True \<rparr>) (note_packet now g s m1)"
  have ok2: "okp env L (note_packet now g s m1)" "only s m0 (note_packet now g s m1)" "okp env L m3" "only s m0 m3"
    using ok1 s by (simp_all add: m3_def okp_rules only_rules stream_view_def flow_key_def)
  obtain r m4 where r: "ProcessRST env s (sg_ack g) m3 = (r, m4)" by fastforce
  have "may_end env L s m0 m4" using ProcessRST_ok [OF ok2(3) s ok2(4), of "sg_ack g"] r by simp
  moreover have "\<not> r \<Longrightarrow> m4 = m3" using r by (auto simp: ProcessRST_def Let_def split: if_splits)
  ultimately show ?thesis
    unfolding stream_input_def x_def [symmetric] a
    using ok1 ok2 s handle_state_ok [OF ok2(1) s ok2(2)] handle_state_ok [OF ok2(3) s ok2(4)]
    by (cases a; cases r) (simp_all add: Let_def m3_def [symmetric] r may_endI)
qed

lemma StreamHTSearch_live:
  assumes "okp env L m" "StreamHTSearch key m = Some s"
  shows "L s"
proof -
  have "s \<in> set (flow_table m (HashFlow key))" using assms(2) by (auto simp: StreamHTSearch_def find_Some_iff)
  moreover have "table_ok m" "live m = L" using assms(1) by (auto simp: okp_def stack_inv_def)
  ultimately show ?thesis by (auto simp: table_ok_def listed_def)
qed

lemma HandlePassiveOpen_ok:
  assumes "env_ok env" "okp env L m" "HandlePassiveOpen env now g m = (x, m')"
  shows "\<exists>L'. okp env L' m' \<and> (\<forall>s. x = Some s \<longrightarrow> L' s)"
proof -
  obtain y m1 where y: "CreateTCPStream env None 1 (sg_da g) (th_dest (sg_hdr g)) (sg_sa g) (th_source (sg_hdr g)) m = (y, m1)" by fastforce
  from CreateTCPStream_ok [OF assms(1,2) y] obtain L' where "okp env L' m1" "\<forall>s. y = Some s \<longrightarrow> L' s" by (metis fun_upd_same)
  then show ?thesis using assms(3) y
    by (auto simp: HandlePassiveOpen_def Let_def okp_rules stream_view_def flow_key_def split: option.splits intro!: exI [of _ L'])
qed

lemma CreateNewFlowHTEntry_ok:
  assumes "env_ok env" "okp env L m" "CreateNewFlowHTEntry env now g m = (x, m')"
  shows "\<exists>L'. okp env L' m' \<and> (\<forall>s. x = Some s \<longrightarrow> L' s)"
proof -
  obtain y m1 where y: "HandlePassiveOpen env now g m = (y, m1)" by fastforce
  from HandlePassiveOpen_ok [OF assms(1,2) y] obtain L' where "okp env L' m1" "\<forall>s. y = Some s \<longrightarrow> L' s" by blast
  then have "\<exists>L'. okp env L' (send_reset env now g 0 (sg_end g + 1) (TCP_FLAG_RST OR TCP_FLAG_ACK) m1)"
    "\<exists>L'. okp env L' m1 \<and> (\<forall>s. y = Some s \<longrightarrow> L' s)" by (auto intro: okp_send_reset)
  then show ?thesis using assms(2,3) y
    by (auto simp: CreateNewFlowHTEntry_def Let_def split: if_splits option.splits intro: okp_send_reset)
qed

lemma okp_ProcessTCPPacket:
  assumes "env_ok env" "okp env L m"
  shows "\<exists>L'. okp env L' (snd (ProcessTCPPacket env now pkt ip_len m))"
proof -
  have input: "\<exists>L'. okp env L' (stream_input env now g s m')" if "okp env K m'" "K s" for g s m' K
    using stream_input_ok [OF that, of m'] by (auto simp: may_end_def only_rules)
  have "\<exists>L'. okp env L' (snd (case CreateNewFlowHTEntry env now g m of (None, m1) \<Rightarrow> (1 :: int, m1) | (Some s, m1) \<Rightarrow> (1, stream_input env now g s m1)))" for g
  proof -
    obtain x m1 where x: "CreateNewFlowHTEntry env now g m = (x, m1)" by fastforce
    from CreateNewFlowHTEntry_ok [OF assms x] obtain K where "okp env K m1" "\<forall>s. x = Some s \<longrightarrow> K s" by blast
    then show ?thesis using x input [of K m1] by (cases x) auto
  qed
  moreover have "\<exists>L'. okp env L' (raise e m)" for e using assms(2) okp_raise by blast
  ultimately show ?thesis using assms(2) input [OF assms(2)] StreamHTSearch_live [OF assms(2)]
    by (auto simp: ProcessTCPPacket_def Let_def split: option.split)
qed

end
