(* ===== verification/TcpStates.thy ===== *)
theory TcpStates
  imports TcpIn
begin

text \<open>
  What receiving a segment does to the state of a connection (\<^verbatim>\<open>tcp_in.c\<close>): the moves of the state diagram
  and the handshake.
\<close>

section \<open>Operations that leave the state of the connection alone\<close>

named_theorems st_rules

lemma st_lists [st_rules]:
  "st (AddtoControlList env u m) s = st m s" "st (AddtoSendList env u m) s = st m s" "st (AddtoACKList env u m) s = st m s"
  "st (RemoveFromSendList env u m) s = st m s" "st (RemoveFromRTOList u m) s = st m s" "st (AddtoTimeoutList u m) s = st m s"
  "st (RemoveFromTimewaitList u m) s = st m s" "st (UpdateTimeoutList u m) s = st m s" "st (AddtoRTOList u m) s = st m s"
  by (auto simp: AddtoControlList_def AddtoSendList_def AddtoACKList_def RemoveFromSendList_def RemoveFromRTOList_def
      AddtoTimeoutList_def RemoveFromTimewaitList_def UpdateTimeoutList_def AddtoRTOList_def upd_sender_def set_rto_list_def
      tq_remove_def Let_def split: option.split sum.split)

lemma st_more [st_rules]:
  "st (AddtoTimewaitList env now u m) s = st m s" "st (EnqueueACK env opt u m) s = st m s"
  "st (UpdateRetransmissionTimer now u m) s = st m s"
  by (auto simp: AddtoTimewaitList_def EnqueueACK_def UpdateRetransmissionTimer_def tq_remove_def Let_def st_rules
      split: sum.split ack_opt.split)

lemma parse_options_state:
  assumes "parse_options now mem len i s = Some r"
  shows "\<forall>t. r = Inr t \<longrightarrow> state t = state s"
  by (rule parse_options.raw_induct [where P = "\<lambda>now mem len i s r. \<forall>t. r = Inr t \<longrightarrow> state t = state s", OF _ assms])
    (auto simp: parse_option_def Let_def split: if_splits option.splits sum.splits prod.splits)

lemma st_parse_into [st_rules]: "st (parse_into now g u m) s = st m s"
  by (auto simp: parse_into_def ParseTCPOptions_def split: option.split sum.split dest!: parse_options_state)

lemma st_input_parts [st_rules]:
  "st (HandleActiveOpen env now g u m) s = st m s" "st (snd (check_paws env now g u m)) s = st m s"
  "st (update_window sq ack cw u m) s = st m s" "st (snd (count_dup ack n edge u m)) s = st m s"
  "st (fast_retransmit env dup ack u m) s = st m s" "st (recover_nxt env ack b u m) s = st m s" "st (measure_rtt now u m) s = st m s"
  "st (note_packet now g u m) s = st m s"
  by (auto simp: HandleActiveOpen_def check_paws_def update_window_def count_dup_def fast_retransmit_def recover_nxt_def
      measure_rtt_def EstimateRTT_def note_packet_def Let_def st_rules split: option.split sum.split)

lemma st_ack_new_data [st_rules]: "st (ack_new_data now ack b u m) s = st m s"
  by (auto simp: ack_new_data_def Let_def st_rules split: option.split)

lemma st_ProcessACK [st_rules]: "st (ProcessACK env now g u m) s = st m s" "st (take_ack env now g u m) s = st m s"
proof -
  show *: "st (ProcessACK env now g u m) s = st m s"
    by (simp add: ProcessACK_def Let_def st_rules case_prod_unfold split: option.split)
  show "st (take_ack env now g u m) s = st m s" by (simp add: take_ack_def *)
qed

lemma st_ValidateSequence [st_rules]: "st (snd (ValidateSequence env now g u m)) s = st m s"
proof -
  obtain a m1 where c: "check_paws env now g u m = (a, m1)" by fastforce
  have "st m1 s = st m s" using st_input_parts(2) [of env now g u m s] c by simp
  then show ?thesis by (simp add: ValidateSequence_def c Let_def st_rules split: bool.split)
qed

lemma st_take_payload: "st (take_payload env g s m) s = st m s \<or> st (take_payload env g s m) s = TCP_ST_CLOSED"
proof -
  obtain x m1 where c: "get_rcvbuf env s m = (x, m1)" by fastforce
  have "st m1 s = st m s" using c by (auto simp: get_rcvbuf_def split: option.splits sum.splits prod.splits)
  then have "st (snd (ProcessTCPPayload env g s m)) s = st m s \<or> st (snd (ProcessTCPPayload env g s m)) s = TCP_ST_CLOSED"
    by (auto simp: ProcessTCPPayload_def c Let_def close_stream_def split: option.split sum.split prod.split)
  then show ?thesis by (simp add: take_payload_def st_rules case_prod_unfold)
qed

section \<open>The diagram\<close>

text \<open>The states a stream may have after a segment, if it still exists. A segment may make several moves of the diagram at
  once: the last acknowledgement of a handshake may carry data and a FIN, and one segment may acknowledge our FIN and
  carry the FIN of the peer. \<^verbatim>\<open>TCP_ST_CLOSED\<close> is entered when the stack has no memory for the data or the
  backlog of the listener is full.\<close>

fun tcp_next :: "tcp_state \<Rightarrow> tcp_state list" where
  "tcp_next TCP_ST_CLOSED = [TCP_ST_CLOSED]"
| "tcp_next TCP_ST_LISTEN = [TCP_ST_LISTEN, TCP_ST_SYN_RCVD]"
| "tcp_next TCP_ST_SYN_SENT = [TCP_ST_SYN_SENT, TCP_ST_SYN_RCVD, TCP_ST_ESTABLISHED, TCP_ST_CLOSE_WAIT]"
| "tcp_next TCP_ST_SYN_RCVD = [TCP_ST_SYN_RCVD, TCP_ST_ESTABLISHED, TCP_ST_CLOSE_WAIT, TCP_ST_CLOSED]"
| "tcp_next TCP_ST_ESTABLISHED = [TCP_ST_ESTABLISHED, TCP_ST_CLOSE_WAIT, TCP_ST_CLOSED]"
| "tcp_next TCP_ST_FIN_WAIT_1 = [TCP_ST_FIN_WAIT_1, TCP_ST_FIN_WAIT_2, TCP_ST_CLOSING, TCP_ST_TIME_WAIT, TCP_ST_CLOSED]"
| "tcp_next TCP_ST_FIN_WAIT_2 = [TCP_ST_FIN_WAIT_2, TCP_ST_TIME_WAIT, TCP_ST_CLOSED]"
| "tcp_next TCP_ST_CLOSE_WAIT = [TCP_ST_CLOSE_WAIT]"
| "tcp_next TCP_ST_CLOSING = [TCP_ST_CLOSING, TCP_ST_TIME_WAIT]"
| "tcp_next TCP_ST_LAST_ACK = [TCP_ST_LAST_ACK]"
| "tcp_next TCP_ST_TIME_WAIT = [TCP_ST_TIME_WAIT]"

definition moved :: "sid \<Rightarrow> tcp_state \<Rightarrow> mtcp_manager \<Rightarrow> bool" where
  "moved s x m \<longleftrightarrow> \<not> live m s \<or> st m s \<in> set (tcp_next x)"

lemma dead_Destroy: "okp env L m \<Longrightarrow> L s \<Longrightarrow> \<not> live (DestroyTCPStream env s m) s"
  using okp_DestroyTCPStream [of env L m s] by (auto simp: okp_def fun_eq_iff split: if_splits)

lemma moved_Destroy: "okp env L m \<Longrightarrow> L s \<Longrightarrow> moved s x (DestroyTCPStream env s m)"
  by (simp add: moved_def dead_Destroy)

lemma movedI: "st m s \<in> set (tcp_next x) \<Longrightarrow> moved s x m"
  by (simp add: moved_def)

lemma moved_simple:
  "st m s = TCP_ST_LISTEN \<or> st m s = TCP_ST_SYN_RCVD \<Longrightarrow> st (Handle_TCP_ST_LISTEN env g s m) s \<in> {st m s, TCP_ST_SYN_RCVD}"
  "st m s = TCP_ST_CLOSE_WAIT \<Longrightarrow> st (Handle_TCP_ST_CLOSE_WAIT env now g s m) s = TCP_ST_CLOSE_WAIT"
  "st (Handle_TCP_ST_CLOSING env now g s m) s \<in> {st m s, TCP_ST_TIME_WAIT}"
  "st (Handle_TCP_ST_TIME_WAIT env now s m) s = st m s"
  "st (accept_stream env port s m) s \<in> {st m s, TCP_ST_CLOSED}"
  "st (fin_acked g s m) s \<in> {st m s, TCP_ST_FIN_WAIT_2}"
  by (auto simp: Handle_TCP_ST_LISTEN_def Handle_TCP_ST_CLOSE_WAIT_def Handle_TCP_ST_CLOSING_def Handle_TCP_ST_TIME_WAIT_def
      accept_stream_def close_stream_def fin_acked_def Let_def st_rules split: option.split sum.split prod.split)

lemma moved_SYN_RCVD: "st (Handle_TCP_ST_SYN_RCVD env g s m) s \<in> {st m s, TCP_ST_ESTABLISHED, TCP_ST_CLOSED}"
proof -
  have "st (accept_stream env port s (upd_stream s (\<lambda>t. t \<lparr> state := TCP_ST_ESTABLISHED \<rparr>) m')) s \<in> {TCP_ST_ESTABLISHED, TCP_ST_CLOSED}" for port m'
    using moved_simple(5) [of env port s "upd_stream s (\<lambda>t. t \<lparr> state := TCP_ST_ESTABLISHED \<rparr>) m'"] by auto
  then show ?thesis
    by (cases "th_ack (sg_hdr g)") (simp_all add: Handle_TCP_ST_SYN_RCVD_def Let_def st_rules del: streams_upd_stream, simp)
qed

lemma moved_ESTABLISHED:
  "st m s = TCP_ST_ESTABLISHED \<Longrightarrow> st (Handle_TCP_ST_ESTABLISHED env now g s m) s \<in> {TCP_ST_ESTABLISHED, TCP_ST_CLOSE_WAIT, TCP_ST_CLOSED}"
  using st_take_payload [of env g s m] by (auto simp: Handle_TCP_ST_ESTABLISHED_def Let_def st_rules)

lemma moved_FIN_WAIT_1:
  assumes "st m s = TCP_ST_FIN_WAIT_1"
  shows "st (Handle_TCP_ST_FIN_WAIT_1 env now g s m) s \<in> set (tcp_next TCP_ST_FIN_WAIT_1)"
proof -
  define m1 where "m1 = take_payload env g s (fin_acked g s (take_ack env now g s m))"
  have "st m1 s \<in> {TCP_ST_FIN_WAIT_1, TCP_ST_FIN_WAIT_2, TCP_ST_CLOSED}"
    using st_take_payload [of env g s "fin_acked g s (take_ack env now g s m)"] moved_simple(6) [of g s "take_ack env now g s m"] assms
    by (auto simp: m1_def st_rules)
  then show ?thesis using assms by (auto simp: Handle_TCP_ST_FIN_WAIT_1_def m1_def [symmetric] Let_def st_rules)
qed

lemma moved_FIN_WAIT_2:
  assumes "st m s = TCP_ST_FIN_WAIT_2"
  shows "st (Handle_TCP_ST_FIN_WAIT_2 env now g s m) s \<in> set (tcp_next TCP_ST_FIN_WAIT_2)"
  using st_take_payload [of env g s "take_ack env now g s m"] assms
  by (auto simp: Handle_TCP_ST_FIN_WAIT_2_def Let_def st_rules)

lemma moved_LAST_ACK:
  assumes "okp env L m" "L s" "st m s = TCP_ST_LAST_ACK"
  shows "moved s TCP_ST_LAST_ACK (Handle_TCP_ST_LAST_ACK env now g s m)"
  using assms by (auto simp: Handle_TCP_ST_LAST_ACK_def Let_def okp_rules st_rules movedI moved_Destroy [of env L])

lemma moved_SYN_SENT:
  assumes "okp env L m" "L s" "st m s = TCP_ST_SYN_SENT"
  shows "moved s TCP_ST_SYN_SENT (Handle_TCP_ST_SYN_SENT env now g s m)"
proof -
  have "moved s TCP_ST_SYN_SENT (established env now g s m1)" if "okp env L m1" for m1
    using that assms(2)
    by (auto simp: established_def Let_def okp_rules stream_view_def flow_key_def st_rules movedI moved_Destroy [of env L])
  moreover have "moved s TCP_ST_SYN_SENT (notify_or_destroy env s m1)" if "okp env L m1" "st m1 s = TCP_ST_CLOSE_WAIT" for m1
    using that assms(2) by (auto simp: notify_or_destroy_def okp_rules movedI moved_Destroy [of env L])
  ultimately show ?thesis using assms
    by (auto simp: Handle_TCP_ST_SYN_SENT_def Let_def okp_rules stream_view_def flow_key_def st_rules movedI)
qed

lemma moved_handle:
  assumes ok: "okp env L m" and s: "L s"
  shows "moved s (st m s) (handle_state env now g s m)"
proof (cases "st m s")
  case TCP_ST_SYN_RCVD
  have "st (Handle_TCP_ST_LISTEN env g s m) s = TCP_ST_SYN_RCVD" using moved_simple(1) [of m s env g] TCP_ST_SYN_RCVD by auto
  then show ?thesis using moved_SYN_RCVD [of env g s m] moved_ESTABLISHED [of "Handle_TCP_ST_SYN_RCVD env g s m" s env now g] TCP_ST_SYN_RCVD
    by (auto simp: handle_state_def Let_def intro!: movedI)
next
  case TCP_ST_SYN_SENT
  then show ?thesis using moved_SYN_SENT [OF ok s] by (simp add: handle_state_def)
next
  case TCP_ST_LAST_ACK
  then show ?thesis using moved_LAST_ACK [OF ok s] by (simp add: handle_state_def)
next
  case TCP_ST_FIN_WAIT_1
  then show ?thesis using moved_FIN_WAIT_1 [of m s env now g] by (simp add: handle_state_def movedI)
next
  case TCP_ST_FIN_WAIT_2
  then show ?thesis using moved_FIN_WAIT_2 [of m s env now g] by (simp add: handle_state_def movedI)
next
  case TCP_ST_LISTEN
  then show ?thesis using moved_simple(1) [of m s env g] by (auto simp: handle_state_def intro!: movedI)
next
  case TCP_ST_CLOSING
  then show ?thesis using moved_simple(3) [of env now g s m] by (auto simp: handle_state_def intro!: movedI)
next
  case TCP_ST_ESTABLISHED
  then show ?thesis using moved_ESTABLISHED [of m s env now g] by (auto simp: handle_state_def intro!: movedI)
qed (simp_all add: handle_state_def movedI moved_simple)

lemma moved_ProcessRST:
  assumes "okp env L m" "L s"
  shows "moved s (st m s) (snd (ProcessRST env s ack m))"
  using assms
  by (cases "st m s") (auto simp: ProcessRST_def Let_def st_order okp_rules movedI moved_Destroy [of env L])

lemma moved_stream_input:
  assumes ok: "okp env L m" and s: "L s"
  shows "moved s (st m s) (stream_input env now g s m)"
proof -
  define x where "x = (if TCP_ST_SYN_RCVD < st m s then ValidateSequence env now g s m else (True, m))"
  obtain a m1 where a: "x = (a, m1)" by fastforce
  have ok1: "okp env L m1" "st m1 s = st m s"
    using ValidateSequence_ok [OF ok s, of m now g] st_ValidateSequence [of env now g s m s] ok a
    by (auto simp: x_def only_rules split: if_splits)
  define m2 where "m2 = note_packet now g s m1"
  define m3 where "m3 = upd_stream s (\<lambda>t. t \<lparr> have_reset := True \<rparr>) m2"
  have ok2: "okp env L m2" "okp env L m3" "st m2 s = st m s" "st m3 s = st m s"
    using ok1 s by (simp_all add: m2_def m3_def okp_rules stream_view_def flow_key_def st_rules)
  obtain r m4 where r: "ProcessRST env s (sg_ack g) m3 = (r, m4)" by fastforce
  have "moved s (st m s) m4" using moved_ProcessRST [OF ok2(2) s, of "sg_ack g"] r ok2(4) by simp
  moreover have "\<not> r \<Longrightarrow> m4 = m3" using r by (auto simp: ProcessRST_def Let_def split: if_splits)
  moreover have "st m s \<in> set (tcp_next (st m s))" by (cases "st m s") simp_all
  ultimately show ?thesis
    unfolding stream_input_def x_def [symmetric] a
    using ok1 ok2 moved_handle [OF ok2(1) s, of now g] moved_handle [OF ok2(2) s, of now g]
    by (cases a; cases r) (simp_all add: Let_def m2_def [symmetric] m3_def [symmetric] r movedI)
qed

section \<open>A packet leaves the other streams alone\<close>

lemma streams_frees [simp]:
  "streams (free_flow s m) = streams m" "streams (free_rv a m) = streams m" "streams (free_sv a m) = streams m"
  by (simp_all add: free_flow_def free_rv_def free_sv_def split: sum.split)

lemma CreateTCPStream_others:
  assumes ok: "okp env L m" and r: "CreateTCPStream env socket ty sa sp da dp m = (x, m')" and u: "L u"
  shows "streams m' u = streams m u"
proof -
  obtain y p where y: "MPAllocateChunk (flow_pool m) = Inr (y, p)" "\<And>s. y = Some s \<Longrightarrow> \<not> L s"
    using okp_alloc [OF ok refl] by blast
  have al: "streams m1 u = streams m u \<and> (\<forall>s. z = Some s \<longrightarrow> \<not> L s)" if "alloc_stream m = (z, m1)" for z m1
    using that y u by (auto simp: alloc_stream_def Let_def split: option.splits sum.splits)
  obtain z m1 where z: "alloc_stream m = (z, m1)" by fastforce
  then show ?thesis using r al [OF z] u
    by (auto simp: CreateTCPStream_def StreamHTInsert_def Let_def split: option.splits sum.splits if_splits prod.splits)
qed

lemma CreateNewFlowHTEntry_others:
  assumes env: "env_ok env" and ok: "okp env L m" and r: "CreateNewFlowHTEntry env now g m = (x, m')"
  shows "(\<forall>u. L u \<longrightarrow> streams m' u = streams m u) \<and> (\<forall>s. x = Some s \<longrightarrow> \<not> L s)"
proof -
  obtain y m1 where y: "CreateTCPStream env None 1 (sg_da g) (th_dest (sg_hdr g)) (sg_sa g) (th_source (sg_hdr g)) m = (y, m1)" by fastforce
  have o: "L u \<Longrightarrow> streams m1 u = streams m u" for u by (rule CreateTCPStream_others [OF ok y])
  have n: "y = Some s \<Longrightarrow> \<not> L s" for s using CreateTCPStream_ok [OF env ok y] by blast
  have p: "HandlePassiveOpen env now g m = (z, m2) \<Longrightarrow> z = y \<and> (\<forall>u. L u \<longrightarrow> streams m2 u = streams m u)" for z m2
  proof (cases y)
    case (Some s)
    assume h: "HandlePassiveOpen env now g m = (z, m2)"
    have "z = Some s" "only s m1 m2" using h y Some by (auto simp: HandlePassiveOpen_def Let_def only_rules)
    then show ?thesis using o n [OF Some] Some onlyD by metis
  qed (use y o in \<open>auto simp: HandlePassiveOpen_def\<close>)
  show ?thesis using r p n by (auto simp: CreateNewFlowHTEntry_def Let_def split: if_splits option.splits prod.splits)
qed

section \<open>Properties\<close>

text \<open>C3. Whatever TCP packet arrives, every connection that existed before it either is destroyed or moves along the TCP
  state diagram: its new state is one of those the diagram allows after its old one.\<close>

theorem ProcessTCPPacket_follows_diagram:
  assumes "env_ok env" "stack_inv env m" "live m s"
  shows "let m' = snd (ProcessTCPPacket env now pkt ip_len m) in \<not> live m' s \<or> st m' s \<in> set (tcp_next (st m s))"
proof -
  let ?L = "live m"
  have ok: "okp env ?L m" using assms(2) by (simp add: okp_def)
  have refl: "st m s \<in> set (tcp_next (st m s))" by (cases "st m s") simp_all
  have input: "moved s (st m s) (stream_input env now g u m')"
    if "okp env K m'" "K u" "K s" "streams m' s = streams m s" for g u m' K
  proof (cases "u = s")
    case True
    then show ?thesis using moved_stream_input [OF that(1,2)] that(4) by simp
  next
    case False
    have "only u m' (stream_input env now g u m')"
      using stream_input_ok [OF that(1,2), of m'] by (simp add: may_end_def only_rules)
    then show ?thesis using onlyD [of u m' "stream_input env now g u m'" s] False that(4) refl by (simp add: movedI)
  qed
  have new: "moved s (st m s) (snd (case CreateNewFlowHTEntry env now g m of (None, m1) \<Rightarrow> (1 :: int, m1) | (Some u, m1) \<Rightarrow> (1, stream_input env now g u m1)))" for g
  proof -
    obtain x m1 where x: "CreateNewFlowHTEntry env now g m = (x, m1)" by fastforce
    obtain K where K: "okp env K m1" "\<forall>u. x = Some u \<longrightarrow> K u" using CreateNewFlowHTEntry_ok [OF assms(1) ok x] by blast
    have same: "streams m1 s = streams m s" using CreateNewFlowHTEntry_others [OF assms(1) ok x] assms(3) by blast
    then have "K s" using okp_live [OF K(1), of s] assms(3) by simp
    then show ?thesis using x K input [OF K(1)] same refl by (cases x) (auto simp: movedI)
  qed
  have "moved s (st m s) (snd (ProcessTCPPacket env now pkt ip_len m))"
    using new input [OF ok] StreamHTSearch_live [OF ok] assms(3) refl
    by (auto simp: ProcessTCPPacket_def Let_def movedI split: option.split)
  then show ?thesis by (simp add: moved_def Let_def)
qed

definition demo_ip :: "u8 list" where
  "demo_ip = [0x45, 0, 0, 40, 0, 0, 0, 0, 64, 6, 0, 0, 10, 0, 0, 2, 10, 0, 0, 1]"

definition demo_syn :: "u8 list" where
  "demo_syn = demo_ip @ [0, 4, 80, 0, 0, 0, 0, 9, 0, 0, 0, 0, 0x50, 0x02, 16, 0, 0, 0, 0, 0]"

theorem ProcessTCPPacket_follows_diagram_witness:
  "let m' = snd (ProcessTCPPacket demo_stack 7 demo_syn 40 demo_one) in
    \<not> live m' 4096 \<or> st m' 4096 = TCP_ST_LISTEN \<or> st m' 4096 = TCP_ST_SYN_RCVD"
proof -
  have "stack_inv demo_stack demo_one" using demo_one_okp by (simp add: okp_def)
  then show ?thesis
    using ProcessTCPPacket_follows_diagram [OF demo_env_ok _ demo_stream(1), of 7 demo_syn 40] by (simp add: Let_def demo_stream)
qed

lemma streams_UpdateTimeoutList [simp]: "streams (UpdateTimeoutList s m) = streams m"
  by (simp add: UpdateTimeoutList_def tq_remove_def split: sum.split)

text \<open>C10. A connection in the state \<^verbatim>\<open>TCP_ST_SYN_RCVD\<close> is completed only by a segment that acknowledges our initial sequence
  number and resets nothing: no other segment makes it \<^verbatim>\<open>TCP_ST_ESTABLISHED\<close> or, with data and a FIN,
  \<^verbatim>\<open>TCP_ST_CLOSE_WAIT\<close>.\<close>

theorem handshake_needs_ack_of_iss:
  assumes "st m s = TCP_ST_SYN_RCVD" "st (stream_input env now g s m) s = TCP_ST_ESTABLISHED \<or> st (stream_input env now g s m) s = TCP_ST_CLOSE_WAIT"
    and "live (stream_input env now g s m) s" "stack_inv env m" "live m s"
  shows "th_ack (sg_hdr g) \<and> sg_ack g = iss (snd_v m s) + 1 \<and> \<not> th_rst (sg_hdr g)"
proof -
  define m2 where "m2 = note_packet now g s m"
  have m2: "st m2 s = TCP_ST_SYN_RCVD" "iss (snd_v m2 s) = iss (snd_v m s)" using assms(1) by (simp_all add: m2_def note_packet_def)
  have "okp env (live m) m" using assms(4) by (simp add: okp_def)
  then have ok: "okp env (live m) m2" using assms(5) by (simp add: m2_def okp_rules)
  have "\<not> th_rst (sg_hdr g)"
  proof
    assume r: "th_rst (sg_hdr g)"
    define m3 where "m3 = upd_stream s (\<lambda>t. t \<lparr> have_reset := True \<rparr>) m2"
    have "okp env (live m) m3" "st m3 s = TCP_ST_SYN_RCVD" using ok m2 by (simp_all add: m3_def okp_rules stream_view_def flow_key_def)
    then show False using assms r m2(1)
      by (auto simp: stream_input_def Let_def m2_def [symmetric] m3_def [symmetric] st_order ProcessRST_def dead_Destroy [of env "live m"] okp_rules split: if_splits)
  qed
  moreover from this have "stream_input env now g s m = handle_state env now g s m2"
    using assms(1) by (simp add: stream_input_def Let_def m2_def st_order)
  moreover have "st (Handle_TCP_ST_LISTEN env g s m2) s = TCP_ST_SYN_RCVD" using moved_simple(1) [of m2 s env g] m2(1) by auto
  moreover have "st (Handle_TCP_ST_SYN_RCVD env g s m2) s = TCP_ST_SYN_RCVD" if "\<not> (th_ack (sg_hdr g) \<and> sg_ack g = iss (snd_v m s) + 1)"
    using that m2 by (auto simp: Handle_TCP_ST_SYN_RCVD_def st_rules)
  ultimately show ?thesis
    using assms(2) m2(1) by (cases "th_ack (sg_hdr g) \<and> sg_ack g = iss (snd_v m s) + 1") (auto simp: handle_state_def Let_def split: if_splits)
qed

definition demo_listening :: mtcp_manager where
  "demo_listening = (upd_stream 4096 (\<lambda>t. t \<lparr> state := TCP_ST_SYN_RCVD \<rparr>) demo_one)
     \<lparr> listeners := (\<lambda>_. [0]), listener_mem := (\<lambda>_. \<lparr> l_sockid = 0, l_backlog = 1, l_acceptq = \<lparr> q_capacity = 1, q_head = 0, q_tail = 0, q_slots = [None, None] \<rparr> \<rparr>),
       smap := (\<lambda>_. unused_socket \<lparr> sock_saddr := \<lparr> sin_addr = 0, sin_port = 80 \<rparr> \<rparr>) \<rparr>"

definition demo_ack :: tcp_seg where
  "demo_ack = \<lparr> sg_sa = 0x0200000A, sg_da = 0x0100000A,
     sg_hdr = \<lparr> th_source = 1024, th_dest = 80, th_seq = 0, th_ack_seq = 0, th_doff = 5, th_fin = False, th_syn = False, th_rst = False,
       th_psh = False, th_ack = True, th_window = 0, th_check = 0 \<rparr>,
     sg_seq = 1, sg_ack = 1001, sg_window = 100, sg_opts = [], sg_optlen = 0, sg_payload = [], sg_len = 0 \<rparr>"

lemma demo_listening_simps:
  "st demo_listening 4096 = TCP_ST_SYN_RCVD" "iss (snd_v demo_listening 4096) = 1000" "live demo_listening 4096"
  "on_rto_idx (streams demo_listening 4096) = - 1" "\<not> on_timeout_list (streams demo_listening 4096)"
  "stack_inv demo_stack demo_listening"
proof -
  have "okp demo_stack ((\<lambda>_. False)(4096 := True)) demo_listening"
    using demo_one_okp by (simp add: demo_listening_def okp_rules stream_view_def flow_key_def)
  then show "stack_inv demo_stack demo_listening" by (simp add: okp_def)
qed (simp_all add: demo_listening_def demo_stream)

lemma demo_handshake:
  "st (stream_input demo_stack 7 demo_ack 4096 demo_listening) 4096 = TCP_ST_ESTABLISHED"
  "live (stream_input demo_stack 7 demo_ack 4096 demo_listening) 4096"
proof -
  define m2 where "m2 = note_packet 7 demo_ack 4096 demo_listening"
  have m2: "st m2 4096 = TCP_ST_SYN_RCVD" "iss (snd_v m2 4096) = 1000" "live m2 4096" "on_rto_idx (streams m2 4096) = - 1"
    "\<not> on_timeout_list (streams m2 4096)" "listeners m2 = listeners demo_listening" "listener_mem m2 = listener_mem demo_listening" "smap m2 = smap demo_listening"
    using demo_listening_simps by (simp_all add: m2_def note_packet_def UpdateTimeoutList_def upd_stream_def upd_snd_def)
  have l: "stream_input demo_stack 7 demo_ack 4096 demo_listening = Handle_TCP_ST_SYN_RCVD demo_stack demo_ack 4096 m2"
    using demo_listening_simps(1) m2(1) by (simp add: stream_input_def st_order Let_def m2_def demo_ack_def handle_state_def)
  show "st (stream_input demo_stack 7 demo_ack 4096 demo_listening) 4096 = TCP_ST_ESTABLISHED"
    "live (stream_input demo_stack 7 demo_ack 4096 demo_listening) 4096"
    unfolding l using m2
    by (simp_all add: Handle_TCP_ST_SYN_RCVD_def demo_ack_def Let_def RemoveFromRTOList_def accept_stream_def ListenerHTSearch_def
        EqualListener_def listener_port_def demo_listening_def StreamEnqueue_def click_enqueue_def NextIndex_def AddtoTimeoutList_def upd_stream_def upd_snd_def)
qed

theorem handshake_needs_ack_of_iss_witness:
  "st (stream_input demo_stack 7 demo_ack 4096 demo_listening) 4096 = TCP_ST_ESTABLISHED \<and> th_ack (sg_hdr demo_ack) \<and>
    sg_ack demo_ack = iss (snd_v demo_listening 4096) + 1"
  using handshake_needs_ack_of_iss [OF demo_listening_simps(1) _ demo_handshake(2) demo_listening_simps(6,3)] demo_handshake(1) by simp

end
