(* ===== verification/RttEstimate.thy ===== *)
theory RttEstimate
  imports TcpStates
begin

text \<open>
  The estimator of round trip times (\<^verbatim>\<open>EstimateRTT\<close>, \<^verbatim>\<open>tcp_in.c\<close>) keeps its values in 32-bit fields that it adds
  64-bit differences to. For measurements up to \<open>2 ^ 28\<close> ticks no sum wraps, the smoothed time follows its
  recurrence over the integers, and the timeout derived from it is positive. A measurement of \<open>2 ^ 31\<close> ticks, which is
  the echo a peer puts into its timestamp option, makes the timeout zero, and a peer that announces no segment size
  makes the acknowledgement of new data divide by zero.
\<close>

section \<open>Exact sums\<close>

lemma uint_add_of_int:
  fixes w :: u32
  assumes "0 \<le> uint w + k" "uint w + k < 4294967296"
  shows "uint (w + of_int k) = uint w + k"
proof -
  have "uint (w + of_int k) = (uint w + k) mod 4294967296"
    by (simp add: uint_word_ariths(1) uint_word_of_int mod_add_right_eq)
  then show ?thesis using assms by simp
qed

lemma uint_of_int_small: "0 \<le> k \<Longrightarrow> k < 4294967296 \<Longrightarrow> uint (of_int k :: u32) = k"
  by (simp add: uint_word_of_int)

lemma uint_drop_small [simp]: "uint (drop_bit 3 (w :: u32)) = uint w div 8" "uint (drop_bit 2 (w :: u32)) = uint w div 4"
  by (simp_all add: drop_bit_eq_div uint_div_distrib)

section \<open>Bounds\<close>

abbreviation max_rtt :: int where "max_rtt \<equiv> 268435456"

definition rtt_ok :: "tcp_recv_vars \<Rightarrow> bool" where
  "rtt_ok v \<longleftrightarrow> srtt v = 0 \<or> 8 \<le> uint (srtt v) \<and> uint (srtt v) \<le> 8 * max_rtt \<and> uint (mdev v) \<le> 4 * max_rtt \<and>
     uint (mdev_max v) \<le> 4 * max_rtt \<and> uint (rttvar v) \<le> 4 * max_rtt"

lemma srtt_step:
  assumes "8 \<le> s" "s \<le> 8 * max_rtt" "1 \<le> m" "m \<le> max_rtt"
  shows "8 \<le> s + (m - s div 8)" "s + (m - s div 8) \<le> 8 * max_rtt"
proof -
  define q r where "q = s div 8" and "r = s mod 8"
  have s: "s = 8 * q + r" "0 \<le> r" "r \<le> 7" by (simp_all add: q_def r_def)
  show "8 \<le> s + (m - s div 8)" "s + (m - s div 8) \<le> 8 * max_rtt"
    unfolding q_def [symmetric] using s assms by linarith+
qed

lemma mdev_step:
  fixes d m :: int
  assumes "0 \<le> d" "d \<le> 4 * max_rtt" "- max_rtt \<le> m" "m \<le> max_rtt"
  defines "n \<equiv> (if m < 0 then (let n = - m - d div 4 in if n > 0 then n div 8 else n) else m - d div 4)"
  shows "0 \<le> d + n" "d + n \<le> 4 * max_rtt"
proof -
  define q r where "q = d div 4" and "r = d mod 4"
  have d: "d = 4 * q + r" "0 \<le> r" "r \<le> 3" by (simp_all add: q_def r_def)
  have e: "k > 0 \<Longrightarrow> 0 \<le> k div 8 \<and> k div 8 \<le> k" for k :: int by linarith
  show "0 \<le> d + n" "d + n \<le> 4 * max_rtt"
    unfolding n_def Let_def q_def [symmetric] using d assms(1-4) e [of "- m - q"] by (auto split: if_splits)
qed

lemma rtt_update_rec:
  fixes mrtt una nxt
  assumes ok: "rtt_ok v" and le: "uint mrtt \<le> max_rtt"
  defines "m \<equiv> (if mrtt = 0 then 1 else uint mrtt)" and "w \<equiv> rtt_update mrtt una nxt v"
  shows "rtt_ok w \<and> uint (srtt w) = (if srtt v = 0 then 8 * m else uint (srtt v) - uint (srtt v) div 8 + m) \<and> 8 \<le> uint (srtt w) \<and>
    uint (rttvar w) \<le> 4 * max_rtt"
proof -
  have "mrtt \<noteq> 0 \<Longrightarrow> 0 < uint mrtt" using uint_ge_0 [of mrtt] by (simp only: uint_0_iff [symmetric] less_le) simp
  then have m: "1 \<le> m" "m \<le> max_rtt" using le by (auto simp: m_def)
  show ?thesis
  proof (cases "srtt v = 0")
    case True
    have "uint (of_int (m * 8) :: u32) = m * 8" "uint (of_int (m * 2) :: u32) = m * 2" using m by (simp_all only: uint_of_int_small)
    moreover have "srtt w = of_int (m * 8)" "mdev w = of_int (m * 2)" "mdev_max w = of_int (m * 2)" "rttvar w = of_int (m * 2)"
      using True by (simp_all only: w_def rtt_update_def m_def Let_def) simp_all
    ultimately show ?thesis using m True by (simp add: rtt_ok_def)
  next
    case False
    then have b: "8 \<le> uint (srtt v)" "uint (srtt v) \<le> 8 * max_rtt" "uint (mdev v) \<le> 4 * max_rtt" "uint (mdev_max v) \<le> 4 * max_rtt" "uint (rttvar v) \<le> 4 * max_rtt"
      using ok by (auto simp: rtt_ok_def)
    define m1 where "m1 = m - uint (srtt v) div 8"
    define m2 where "m2 = rtt_deviation m1 (mdev v)"
    have m1: "- max_rtt \<le> m1" "m1 \<le> max_rtt" using m b by (auto simp: m1_def)
    note s = srtt_step [OF b(1,2) m, folded m1_def]
    have d: "0 \<le> uint (mdev v) + m2" "uint (mdev v) + m2 \<le> 4 * max_rtt"
      using mdev_step [OF uint_ge_0 b(3) m1] by (simp_all only: m2_def rtt_deviation_def uint_drop_small)
    define S where "S = srtt v + of_int m1"
    define D where "D = mdev v + of_int m2"
    have S: "uint S = uint (srtt v) + m1" unfolding S_def using s by (intro uint_add_of_int) simp_all
    have D: "uint D \<le> 4 * max_rtt" unfolding D_def using d by (subst uint_add_of_int) simp_all
    define X where "X = (if D > mdev_max v then D else mdev_max v)"
    define R where "R = (if D > mdev_max v \<and> D > rttvar v then D else rttvar v)"
    have XR: "uint X \<le> 4 * max_rtt" "uint R \<le> 4 * max_rtt" using D b by (simp_all add: X_def R_def)
    have "srtt w = S \<and> mdev w = D \<and> (mdev_max w = X \<or> mdev_max w = 0) \<and> (rttvar w = R \<or> X < R \<and> rttvar w = R - drop_bit 2 (R - X))"
      unfolding w_def rtt_update_def m_def [symmetric] Let_def uint_drop_small m1_def [symmetric] S_def [symmetric]
      using False
      by (cases "D > mdev_max v"; cases "D > rttvar v") (simp_all add: m2_def [symmetric] D_def [symmetric] X_def R_def)
    moreover have "uint (R - drop_bit 2 (R - X)) \<le> uint R" if "X < R"
    proof -
      have "uint (R - X) = uint R - uint X" using that by (simp add: word_less_def uint_sub_lem [THEN iffD1])
      then have "uint (drop_bit 2 (R - X)) \<le> uint R" using that uint_ge_0 [of X] by (simp only: uint_drop_small word_less_def)
      then have "uint (R - drop_bit 2 (R - X)) = uint R - uint (drop_bit 2 (R - X))" by (simp only: uint_sub_lem [THEN iffD1])
      then show ?thesis using uint_ge_0 [of "drop_bit 2 (R - X)"] by linarith
    qed
    ultimately show ?thesis using S D XR s False m1_def by (auto simp: rtt_ok_def)
  qed
qed

section \<open>Properties\<close>



lemma wrapped_times: "of_int (2147483648 * 8) = (0 :: u32)" "of_int (2147483648 * 2) = (0 :: u32)"
  by simp_all

lemma rtt_update_far:
  assumes "srtt v = 0"
  shows "drop_bit 3 (srtt (rtt_update 0x80000000 una nxt v)) + rttvar (rtt_update 0x80000000 una nxt v) = 0"
proof -
  have "(if (0x80000000 :: u32) = 0 then 1 else uint (0x80000000 :: u32)) = 2147483648" by simp
  then have "rtt_update 0x80000000 una nxt v = v \<lparr> srtt := 0, mdev := 0, mdev_max := 0, rttvar := 0, rtt_seq := nxt \<rparr>"
    using assms by (simp only: rtt_update_def Let_def wrapped_times if_False simp_thms)
  then show ?thesis by simp
qed

text \<open>A peer that echoes a timestamp \<open>2 ^ 31\<close> ticks away from the clock in the first acknowledgement of new data ends the
  process: the estimated times are cut to zero and the assertion on the timeout fails.\<close>

theorem far_echo_fails_assertion:
  assumes "eff_mss (snd_v m s) \<noteq> 0" "saw_timestamp (streams m s)" "srtt (rcv_v m s) = 0"
    and "ts_lastack_rcvd (rcv_v m s) = now + 0x80000000" "fault m = None"
  shows "fault (ack_new_data now ack b s m) = Some AssertFail"
proof -
  have "0x80000000 + 0x80000000 = (0 :: u32)" by code_simp
  then have "now - (now + 0x80000000) = (0x80000000 :: u32)" by (simp only: diff_eq_eq add.assoc [symmetric]) (simp only: add.commute add.left_commute add_0_left)
  then have d: "now - ts_lastack_rcvd (rcv_v m s) = 0x80000000" using assms(4) by simp
  have "rto (snd_v (measure_rtt now s m) s) = 0"
    using assms(2,3) by (simp add: measure_rtt_def EstimateRTT_def Let_def d rtt_update_far)
  moreover have "fault (measure_rtt now s m) = None"
    using assms(5) by (simp add: measure_rtt_def EstimateRTT_def Let_def m_simps)
  ultimately show ?thesis using assms(1,2) by (simp add: ack_new_data_def Let_def raise_def)
qed

theorem far_echo_fails_assertion_witness:
  "fault (ack_new_data 5 1003 demo_sb 4096 (upd_stream 4096 (\<lambda>t. t \<lparr> saw_timestamp := True,
      rcvvar := zero_rcvvar \<lparr> ts_lastack_rcvd := 0x80000005 \<rparr>, sndvar := zero_sndvar \<lparr> eff_mss := 1448 \<rparr> \<rparr>) demo_one)) = Some AssertFail"
  by (rule far_echo_fails_assertion) (simp_all add: demo_one_created zero_rcvvar_def)

text \<open>C32. A peer whose SYN carries no options, hence no MSS, leaves \<^verbatim>\<open>eff_mss\<close> at zero, and as long as it is zero an
  acknowledgement of new data on the connection makes the stack divide by zero.\<close>

theorem missing_mss_divides_by_zero:
  assumes "HandlePassiveOpen env now g m = (Some s, m1)" "sg_optlen g \<le> 0" "okp env L m" "env_ok env"
  shows "eff_mss (snd_v m1 s) = 0 \<and>
    (\<forall>m2 t ack b. eff_mss (snd_v m2 s) = eff_mss (snd_v m1 s) \<and> fault m2 = None \<longrightarrow> fault (ack_new_data t ack b s m2) = Some DivByZero)"
proof -
  have p: "parse_options now mem len 0 t = Some (Inr t)" if "len \<le> 0" for mem len t
    using that by (subst parse_options.simps) simp
  obtain m0 where c: "CreateTCPStream env None 1 (sg_da g) (th_dest (sg_hdr g)) (sg_sa g) (th_source (sg_hdr g)) m = (Some s, m0)"
    using assms(1) by (auto simp: HandlePassiveOpen_def split: option.splits prod.splits)
  have "eff_mss (snd_v m0 s) = 0"
    using c alloc_stream_ok [OF assms(3)]
    by (auto simp: CreateTCPStream_def StreamHTInsert_def init_stream_def zero_stream_def zero_sndvar_def Let_def
        split: option.splits sum.splits if_splits prod.splits)
  then have "eff_mss (snd_v m1 s) = 0"
    using assms(1,2) c by (auto simp: HandlePassiveOpen_def Let_def parse_into_def ParseTCPOptions_def p)
  then show ?thesis by (simp add: ack_new_data_def Let_def raise_def)
qed

lemma demo_opened:
  assumes "g = \<lparr> sg_sa = 0x0200000A, sg_da = 0x0100000A, sg_hdr = h, sg_seq = 9, sg_ack = 0, sg_window = 16, sg_opts = [], sg_optlen = 0,
    sg_payload = [], sg_len = 0 \<rparr>"
  shows "fst (HandlePassiveOpen demo_stack 7 g demo_mtcp) = Some 4096" "fault (snd (HandlePassiveOpen demo_stack 7 g demo_mtcp)) = None"
proof -
  have p: "parse_options now mem 0 0 t = Some (Inr t)" for now mem t
    by (subst parse_options.simps) simp
  obtain p q r where al: "MPAllocateChunk (demo_mem_pool 4096 256) = Inr (Some 4096, p)" "MPAllocateChunk (demo_mem_pool 8192 128) = Inr (Some 8192, q)"
    "MPAllocateChunk (demo_mem_pool 12288 128) = Inr (Some 12288, r)"
    by (simp add: demo_mem_pool_def MPAllocateChunk_def put_header_def Let_def)
  show "fst (HandlePassiveOpen demo_stack 7 g demo_mtcp) = Some 4096" "fault (snd (HandlePassiveOpen demo_stack 7 g demo_mtcp)) = None"
    unfolding assms
    by (auto simp: HandlePassiveOpen_def CreateTCPStream_def alloc_stream_def demo_start_ok StreamHTInsert_def demo_route upd_stream_def Let_def al HashFlow_less
        zero_stream_def parse_into_def ParseTCPOptions_def p demo_okp(2) m_simps)
qed

definition demo_bare_syn :: tcp_seg where
  "demo_bare_syn = \<lparr> sg_sa = 0x0200000A, sg_da = 0x0100000A, sg_hdr = tcphdr_of (drop 20 demo_syn), sg_seq = 9, sg_ack = 0, sg_window = 16,
     sg_opts = [], sg_optlen = 0, sg_payload = [], sg_len = 0 \<rparr>"

theorem missing_mss_divides_by_zero_witness:
  "let m = snd (HandlePassiveOpen demo_stack 7 demo_bare_syn demo_mtcp) in
   eff_mss (snd_v m 4096) = 0 \<and> fault m = None \<and> fault (ack_new_data 8 1001 demo_sb 4096 m) = Some DivByZero"
proof -
  have "HandlePassiveOpen demo_stack 7 demo_bare_syn demo_mtcp = (Some 4096, snd (HandlePassiveOpen demo_stack 7 demo_bare_syn demo_mtcp))"
    using demo_opened(1) [OF demo_bare_syn_def] by (metis prod.collapse)
  then show ?thesis
    using missing_mss_divides_by_zero [OF _ _ demo_okp(1) demo_env_ok, of 7 demo_bare_syn 4096] demo_opened(2) [OF demo_bare_syn_def]
    by (simp add: demo_bare_syn_def Let_def)
qed

end
