(* ===== verification/Core.thy ===== *)
theory Core
  imports RttEstimate
begin

text \<open>
  The thread of the stack (\<^verbatim>\<open>core.c\<close>) and the entry of a received frame (\<^verbatim>\<open>eth_in.c\<close>, \<^verbatim>\<open>ip_in.c\<close>): dispatch by
  protocol, the calls of the application that wait in the stream queues, writing to the device, and one round of the
  main loop. A stream that the application left in a queue may have ended in the meantime; the code then works on a
  freed chunk, which is the fault \<open>UseAfterFree\<close>. Every round keeps the invariant of the stack.
\<close>

section \<open>Receiving a frame\<close>

text \<open>\<open>pkt_data\<close> is the receive buffer; \<open>hw_csum\<close> says that the device has verified the checksums.\<close>

definition ProcessIPv4Packet :: "stack_env \<Rightarrow> u32 \<Rightarrow> u8 list \<Rightarrow> mtcp_manager \<Rightarrow> int \<times> mtcp_manager" where
  "ProcessIPv4Packet env now pkt_data m =
    (let iph = drop ETHERNET_HEADER_LEN pkt_data in
     if length iph < IP_HEADER_LEN then (- 1, raise OutOfBounds m)
     else
       let ip_len = uint (ntohs (word16 (iph ! 2) (iph ! 3))) in
       if ip_len < int IP_HEADER_LEN then (- 1, m)
       else case (if hw_csum env then Inr 0 else ip_fast_csum iph (ip_ihl iph)) of
         Inl e \<Rightarrow> (- 1, raise e m)
       | Inr c \<Rightarrow>
         if c \<noteq> 0 then (- 1, m)
         else if drop_bit 4 (iph ! 0) \<noteq> 4 then (0, m)
         else if iph ! 9 = IPPROTO_TCP then ProcessTCPPacket env now iph ip_len m
         else if iph ! 9 = IPPROTO_ICMP then (1, ProcessICMPPacket env iph ip_len m)
         else (0, m))"

definition ProcessPacket :: "stack_env \<Rightarrow> nat \<Rightarrow> u32 \<Rightarrow> u8 list \<Rightarrow> mtcp_manager \<Rightarrow> int \<times> mtcp_manager" where
  "ProcessPacket env ifidx now pkt_data m =
    (if length pkt_data < ETHERNET_HEADER_LEN then (- 1, raise OutOfBounds m)
     else
       let ip_proto = ntohs (word16 (pkt_data ! 12) (pkt_data ! 13)) in
       if ip_proto = ETH_P_IP then ProcessIPv4Packet env now pkt_data m
       else if ip_proto = ETH_P_ARP then (1, ProcessARPPacket env ifidx pkt_data m)
       else (1, m))"

section \<open>Calls of the application\<close>

definition with_stream :: "(sid \<Rightarrow> mtcp_manager \<Rightarrow> mtcp_manager) \<Rightarrow> sid \<Rightarrow> mtcp_manager \<Rightarrow> mtcp_manager" where
  "with_stream f s m = (if live m s then f s m else raise UseAfterFree m)"

text \<open>\<^verbatim>\<open>while ((stream = StreamDequeue(q))) ...\<close>, for the queue that \<open>get\<close> and \<open>put\<close> read and store.\<close>

fun drain :: "nat \<Rightarrow> (mtcp_manager \<Rightarrow> sid click_queue) \<Rightarrow> (sid click_queue \<Rightarrow> mtcp_manager \<Rightarrow> mtcp_manager) \<Rightarrow>
    (sid \<Rightarrow> mtcp_manager \<Rightarrow> mtcp_manager) \<Rightarrow> mtcp_manager \<Rightarrow> mtcp_manager" where
  "drain fuel get put f m =
    (case StreamDequeue (get m) of
       Inl e \<Rightarrow> raise e m
     | Inr (None, q) \<Rightarrow> put q m
     | Inr (Some s, q) \<Rightarrow>
       (case fuel of 0 \<Rightarrow> raise Diverges m
        | Suc n \<Rightarrow> drain n get put f (with_stream f s (put q m))))"

declare drain.simps [simp del]

definition drain_all :: "(mtcp_manager \<Rightarrow> sid click_queue) \<Rightarrow> (sid click_queue \<Rightarrow> mtcp_manager \<Rightarrow> mtcp_manager) \<Rightarrow>
    (sid \<Rightarrow> mtcp_manager \<Rightarrow> mtcp_manager) \<Rightarrow> mtcp_manager \<Rightarrow> mtcp_manager" where
  "drain_all get put f m = drain (unat (q_capacity (get m))) get put f m"

text \<open>The loops over the internal queues take as many streams as the queue has at the start.\<close>

fun requeue :: "nat \<Rightarrow> (mtcp_manager \<Rightarrow> sid stream_queue_int) \<Rightarrow> (sid stream_queue_int \<Rightarrow> mtcp_manager \<Rightarrow> mtcp_manager) \<Rightarrow>
    (sid \<Rightarrow> mtcp_manager \<Rightarrow> mtcp_manager) \<Rightarrow> mtcp_manager \<Rightarrow> mtcp_manager" where
  "requeue 0 get put f m = m"
| "requeue (Suc n) get put f m =
    requeue n get put f
      (case StreamInternalDequeue (get m) of
         Inl e \<Rightarrow> raise e m
       | Inr (None, q) \<Rightarrow> raise NullDeref m
       | Inr (Some s, q) \<Rightarrow> with_stream f s (put q m))"

definition requeue_all :: "(mtcp_manager \<Rightarrow> sid stream_queue_int) \<Rightarrow> (sid stream_queue_int \<Rightarrow> mtcp_manager \<Rightarrow> mtcp_manager) \<Rightarrow>
    (sid \<Rightarrow> mtcp_manager \<Rightarrow> mtcp_manager) \<Rightarrow> mtcp_manager \<Rightarrow> mtcp_manager" where
  "requeue_all get put f m = requeue (nat (sint (sqi_count (get m)))) get put f m"

definition put_internal :: "(mtcp_manager \<Rightarrow> sid stream_queue_int) \<Rightarrow> (sid stream_queue_int \<Rightarrow> mtcp_manager \<Rightarrow> mtcp_manager) \<Rightarrow>
    sid \<Rightarrow> mtcp_manager \<Rightarrow> mtcp_manager" where
  "put_internal get put s m =
    (case StreamInternalEnqueue (get m) (Some s) of Inl e \<Rightarrow> raise e m | Inr (_, q) \<Rightarrow> put q m)"

abbreviation put_connectq :: "sid click_queue \<Rightarrow> mtcp_manager \<Rightarrow> mtcp_manager" where "put_connectq q m \<equiv> m \<lparr> connectq := q \<rparr>"
abbreviation put_sendq :: "sid click_queue \<Rightarrow> mtcp_manager \<Rightarrow> mtcp_manager" where "put_sendq q m \<equiv> m \<lparr> sendq := q \<rparr>"
abbreviation put_ackq :: "sid click_queue \<Rightarrow> mtcp_manager \<Rightarrow> mtcp_manager" where "put_ackq q m \<equiv> m \<lparr> ackq := q \<rparr>"
abbreviation put_closeq :: "sid click_queue \<Rightarrow> mtcp_manager \<Rightarrow> mtcp_manager" where "put_closeq q m \<equiv> m \<lparr> closeq := q \<rparr>"
abbreviation put_resetq :: "sid click_queue \<Rightarrow> mtcp_manager \<Rightarrow> mtcp_manager" where "put_resetq q m \<equiv> m \<lparr> resetq := q \<rparr>"
abbreviation put_destroyq :: "sid click_queue \<Rightarrow> mtcp_manager \<Rightarrow> mtcp_manager" where "put_destroyq q m \<equiv> m \<lparr> destroyq := q \<rparr>"
abbreviation put_closeq_int :: "sid stream_queue_int \<Rightarrow> mtcp_manager \<Rightarrow> mtcp_manager" where
  "put_closeq_int q m \<equiv> m \<lparr> closeq_int := q \<rparr>"
abbreviation put_resetq_int :: "sid stream_queue_int \<Rightarrow> mtcp_manager \<Rightarrow> mtcp_manager" where
  "put_resetq_int q m \<equiv> m \<lparr> resetq_int := q \<rparr>"

definition send_call :: "stack_env \<Rightarrow> sid \<Rightarrow> mtcp_manager \<Rightarrow> mtcp_manager" where
  "send_call env s m = AddtoSendList env s (upd_snd s (\<lambda>v. v \<lparr> on_sendq := False \<rparr>) m)"

definition ack_call :: "stack_env \<Rightarrow> sid \<Rightarrow> mtcp_manager \<Rightarrow> mtcp_manager" where
  "ack_call env s m = EnqueueACK env ACK_OPT_AGGREGATE s (upd_snd s (\<lambda>v. v \<lparr> on_ackq := False \<rparr>) m)"

text \<open>The state a stream moves to when the application closes it.\<close>

definition start_close :: "sid \<Rightarrow> mtcp_manager \<Rightarrow> mtcp_manager" where
  "start_close s m =
    (if st m s = TCP_ST_ESTABLISHED then upd_stream s (\<lambda>t. t \<lparr> state := TCP_ST_FIN_WAIT_1 \<rparr>) m
     else if st m s = TCP_ST_CLOSE_WAIT then upd_stream s (\<lambda>t. t \<lparr> state := TCP_ST_LAST_ACK \<rparr>) m
     else m)"

definition drop_timeout :: "stack_env \<Rightarrow> sid \<Rightarrow> mtcp_manager \<Rightarrow> mtcp_manager" where
  "drop_timeout env s m = (if tcp_timeout env > 0 then RemoveFromTimeoutList s m else m)"

definition end_reset :: "stack_env \<Rightarrow> sid \<Rightarrow> mtcp_manager \<Rightarrow> mtcp_manager" where
  "end_reset env s m = (if st m s \<noteq> TCP_ST_CLOSED then DestroyTCPStream env s (close_stream TCP_RESET s m) else m)"

definition close_call :: "stack_env \<Rightarrow> sid \<Rightarrow> mtcp_manager \<Rightarrow> mtcp_manager" where
  "close_call env s m =
    (let m1 = upd_stream s (\<lambda>t. t \<lparr> sndvar := (sndvar t) \<lparr> on_closeq := False,
               fss := (case sndbuf (sndvar t) of Some b \<Rightarrow> sb_head_seq b + sb_len b | None \<Rightarrow> snd_nxt t) \<rparr> \<rparr>) m;
         m2 = drop_timeout env s m1 in
     if have_reset (streams m2 s) then end_reset env s m2
     else if on_control_list (snd_v m2 s)
     then put_internal closeq_int put_closeq_int s (upd_snd s (\<lambda>v. v \<lparr> on_closeq_int := True \<rparr>) m2)
     else if on_send_list (snd_v m2 s) \<or> on_ack_list (snd_v m2 s)
     then upd_stream s (\<lambda>t. t \<lparr> control_list_waiting := True \<rparr>) (start_close s m2)
     else if st m2 s \<noteq> TCP_ST_CLOSED then AddtoControlList env s (start_close s m2)
     else m2)"

definition close_again :: "stack_env \<Rightarrow> sid \<Rightarrow> mtcp_manager \<Rightarrow> mtcp_manager" where
  "close_again env s m =
    (if on_control_list (snd_v m s) then put_internal closeq_int put_closeq_int s m
     else
       let m1 = upd_snd s (\<lambda>v. v \<lparr> on_closeq_int := False \<rparr>) m in
       if st m s \<noteq> TCP_ST_CLOSED then AddtoControlList env s (start_close s m1) else m1)"

definition abort_stream :: "stack_env \<Rightarrow> sid \<Rightarrow> mtcp_manager \<Rightarrow> mtcp_manager" where
  "abort_stream env s m =
    (if st m s \<noteq> TCP_ST_CLOSED then AddtoControlList env s (close_stream TCP_ACTIVE_CLOSE s m) else m)"

definition reset_call :: "stack_env \<Rightarrow> sid \<Rightarrow> mtcp_manager \<Rightarrow> mtcp_manager" where
  "reset_call env s m =
    (let m1 = drop_timeout env s (upd_snd s (\<lambda>v. v \<lparr> on_resetq := False \<rparr>) m); v = snd_v m1 s in
     if have_reset (streams m1 s) then end_reset env s m1
     else if on_control_list v \<or> on_send_list v \<or> on_ack_list v
     then put_internal resetq_int put_resetq_int s (upd_snd s (\<lambda>v. v \<lparr> on_resetq_int := True \<rparr>) m1)
     else abort_stream env s m1)"

definition reset_again :: "stack_env \<Rightarrow> sid \<Rightarrow> mtcp_manager \<Rightarrow> mtcp_manager" where
  "reset_again env s m =
    (let v = snd_v m s in
     if on_control_list v \<or> on_send_list v \<or> on_ack_list v then put_internal resetq_int put_resetq_int s m
     else abort_stream env s (upd_snd s (\<lambda>v. v \<lparr> on_resetq_int := False \<rparr>) m))"

definition HandleApplicationCalls :: "stack_env \<Rightarrow> mtcp_manager \<Rightarrow> mtcp_manager" where
  "HandleApplicationCalls env m =
    (let m1 = drain_all connectq put_connectq (AddtoControlList env) m;
         m2 = drain_all sendq put_sendq (send_call env) m1;
         m3 = drain_all ackq put_ackq (ack_call env) m2;
         m4 = drain_all closeq put_closeq (close_call env) m3;
         m5 = requeue_all closeq_int put_closeq_int (close_again env) m4;
         m6 = drain_all resetq put_resetq (reset_call env) m5;
         m7 = requeue_all resetq_int put_resetq_int (reset_again env) m6;
         m8 = drain_all destroyq put_destroyq (DestroyTCPStream env) m7 in
     m8 \<lparr> wakeup_flag := False \<rparr>)"

section \<open>Writing\<close>

definition write_lists :: "stack_env \<Rightarrow> u32 \<Rightarrow> int \<Rightarrow> mtcp_manager \<Rightarrow> mtcp_manager" where
  "write_lists env now e m =
    (let thresh = max_concurrency env;
         m1 = (if control_list_cnt (senders m e) \<noteq> 0 then WriteTCPControlList env e now thresh m else m);
         m2 = (if ack_list_cnt (senders m1 e) \<noteq> 0 then WriteTCPACKList env e now thresh m1 else m1) in
     if send_list_cnt (senders m2 e) \<noteq> 0 then WriteTCPDataList env e now thresh m2 else m2)"

definition WritePacketsToChunks :: "stack_env \<Rightarrow> u32 \<Rightarrow> mtcp_manager \<Rightarrow> mtcp_manager" where
  "WritePacketsToChunks env now m = fold (write_lists env now) [- 1..int (length (eths env)) - 1] m"

section \<open>The main loop\<close>

text \<open>\<open>rx ! i\<close> are the buffers that \<^verbatim>\<open>get_rptr\<close> returns for interface \<open>i\<close> in this round, \<open>None\<close> for a null pointer.\<close>

definition receive_all :: "stack_env \<Rightarrow> u32 \<Rightarrow> u8 list option list list \<Rightarrow> mtcp_manager \<Rightarrow> mtcp_manager" where
  "receive_all env ts rx m =
    fold (\<lambda>(i, bufs). fold (\<lambda>b m. case b of None \<Rightarrow> m | Some pkt \<Rightarrow> snd (ProcessPacket env i ts pkt m)) bufs)
      (zip [0..<length (eths env)] rx) m"

definition check_timers :: "stack_env \<Rightarrow> u32 \<Rightarrow> u32 \<Rightarrow> mtcp_manager \<Rightarrow> mtcp_manager" where
  "check_timers env ts ts_prev m =
    (if flow_cnt m > 0
     then
       let thresh = max_concurrency env;
           m1 = CheckTimewaitExpire env ts thresh (CheckRtmTimeout env ts thresh m) in
       if tcp_timeout env > 0 \<and> ts \<noteq> ts_prev then CheckConnectionTimeout env ts thresh m1 else m1
     else m)"

definition main_round :: "stack_env \<Rightarrow> bool \<Rightarrow> u32 \<Rightarrow> u32 \<Rightarrow> u8 list option list list \<Rightarrow> mtcp_manager \<Rightarrow> mtcp_manager" where
  "main_round env master ts ts_prev rx m =
    (let m1 = check_timers env ts ts_prev (receive_all env ts rx (m \<lparr> cur_ts := ts \<rparr>));
         m2 = (if ep m1 \<noteq> None then FlushEpollEvents ts m1 else m1);
         m3 = (if flow_cnt m2 > 0 then HandleApplicationCalls env m2 else m2);
         m4 = WritePacketsToChunks env ts m3 in
     if ts \<noteq> ts_prev \<and> master then ARPTimer ts m4 else m4)"

section \<open>Every round keeps the invariant\<close>

named_theorems inv_rules

lemma okp_stack_inv: "stack_inv env m \<longleftrightarrow> okp env (live m) m"
  by (simp add: okp_def)

lemma stack_invI: "(\<And>L. okp env L m \<Longrightarrow> \<exists>L'. okp env L' m') \<Longrightarrow> stack_inv env m \<Longrightarrow> stack_inv env m'"
  using okp_stack_inv okp_inv by blast

lemma stack_inv_frame: "frame_eq m m' \<Longrightarrow> stack_inv env m \<Longrightarrow> stack_inv env m'"
  using okp_frame by (blast intro: stack_invI)

lemma inv_raise [inv_rules]: "stack_inv env m \<Longrightarrow> stack_inv env (raise e m)"
  by (rule stack_inv_frame [OF frame_eq_raise [OF frame_eq_refl]])

lemma inv_fields [inv_rules]:
  "stack_inv env (m \<lparr> connectq := q1 \<rparr>) = stack_inv env m" "stack_inv env (m \<lparr> sendq := q1 \<rparr>) = stack_inv env m"
  "stack_inv env (m \<lparr> ackq := q1 \<rparr>) = stack_inv env m" "stack_inv env (m \<lparr> closeq := q1 \<rparr>) = stack_inv env m"
  "stack_inv env (m \<lparr> resetq := q1 \<rparr>) = stack_inv env m" "stack_inv env (m \<lparr> destroyq := q1 \<rparr>) = stack_inv env m"
  "stack_inv env (m \<lparr> closeq_int := q2 \<rparr>) = stack_inv env m" "stack_inv env (m \<lparr> resetq_int := q2 \<rparr>) = stack_inv env m"
  "stack_inv env (m \<lparr> wakeup_flag := b \<rparr>) = stack_inv env m" "stack_inv env (m \<lparr> cur_ts := t \<rparr>) = stack_inv env m"
  "stack_inv env (m \<lparr> ep := e \<rparr>) = stack_inv env m" "stack_inv env (m \<lparr> ts_last_event := t \<rparr>) = stack_inv env m"
  "stack_inv env (m \<lparr> arp_queue := a \<rparr>) = stack_inv env m" "stack_inv env (m \<lparr> arp_entries := a' \<rparr>) = stack_inv env m"
  "stack_inv env (m \<lparr> smap := sm \<rparr>) = stack_inv env m"
  using okp_fields by (simp_all add: okp_stack_inv)

lemma frame_eq_gateway [simp]: "frame_eq m (m' \<lparr> arp_gateway := x \<rparr>) = frame_eq m m'"
  by (simp add: frame_eq_def same_lists_def same_flows_def timer_view_def)

lemma frame_eq_ProcessARPPacket: "frame_eq m (ProcessARPPacket env i pkt m)"
  by (simp add: ProcessARPPacket_def ProcessARPRequest_def ProcessARPReply_def RegisterARPEntry_def frame_eq_ARPOutput Let_def split: option.split)

lemma frame_eq_ICMPOutput: "frame_eq m (snd (ICMPOutput env sa da ty code i n d m))"
  by (auto simp: ICMPOutput_def Let_def dest: frame_eq_IPOutputStandalone split: option.split prod.splits sum.split)

lemma frame_eq_ProcessICMPPacket: "frame_eq m (ProcessICMPPacket env pkt n m)"
  by (simp add: ProcessICMPPacket_def ProcessICMPECHORequest_def frame_eq_ICMPOutput Let_def split: sum.split)

lemma inv_ProcessPacket:
  assumes "env_ok env" "stack_inv env m"
  shows "stack_inv env (snd (ProcessPacket env i now pkt m))"
proof -
  have t: "stack_inv env (snd (ProcessTCPPacket env now p n m))" for p n
    using okp_ProcessTCPPacket [OF assms(1)] assms(2) by (blast intro: stack_invI)
  show ?thesis
    using assms(2) stack_inv_frame [OF frame_eq_ProcessARPPacket assms(2)] stack_inv_frame [OF frame_eq_ProcessICMPPacket assms(2)]
    by (simp add: ProcessPacket_def ProcessIPv4Packet_def Let_def inv_rules t split: sum.split)
qed


lemma inv_fold [inv_rules]:
  "(\<And>x m. x \<in> set xs \<Longrightarrow> stack_inv env m \<Longrightarrow> stack_inv env (f x m)) \<Longrightarrow> stack_inv env m \<Longrightarrow> stack_inv env (fold f xs m)"
  by (induction xs arbitrary: m) auto

lemma inv_receive_all: "env_ok env \<Longrightarrow> stack_inv env m \<Longrightarrow> stack_inv env (receive_all env ts rx m)"
  unfolding receive_all_def
  by (rule inv_fold) (auto simp: inv_ProcessPacket split: option.split intro!: inv_fold)

lemma inv_check_timers: "stack_inv env m \<Longrightarrow> stack_inv env (check_timers env ts ts_prev m)"
proof -
  have "stack_inv env (CheckRtmTimeout env ts n m)" "stack_inv env (CheckTimewaitExpire env ts n m)"
    "stack_inv env (CheckConnectionTimeout env ts n m)" if "stack_inv env m" for n m
    using that okp_CheckRtmTimeout okp_CheckTimewaitExpire okp_CheckConnectionTimeout by (blast intro: stack_invI)+
  then show "stack_inv env m \<Longrightarrow> stack_inv env (check_timers env ts ts_prev m)"
    by (simp add: check_timers_def Let_def)
qed

lemma inv_FlushEpollEvents: "stack_inv env m \<Longrightarrow> stack_inv env (FlushEpollEvents now m)"
  by (simp add: FlushEpollEvents_def Let_def inv_rules split: option.split sum.split prod.split)

lemma inv_WritePacketsToChunks: "stack_inv env m \<Longrightarrow> stack_inv env (WritePacketsToChunks env now m)"
proof -
  have "stack_inv env (WriteTCPControlList env e now n m)" "stack_inv env (WriteTCPACKList env e now n m)"
    "stack_inv env (WriteTCPDataList env e now n m)" if "stack_inv env m" for e n m
    by (rule stack_invI [OF _ that], fast intro: okp_WriteTCPControlList okp_WriteTCPACKList okp_WriteTCPDataList)+
  then have "stack_inv env (write_lists env now e m)" if "stack_inv env m" for e m
    using that by (simp add: write_lists_def Let_def)
  then show "stack_inv env m \<Longrightarrow> stack_inv env (WritePacketsToChunks env now m)"
    by (simp add: WritePacketsToChunks_def inv_fold)
qed

text \<open>A call of the application keeps the invariant when it does so on a live stream.\<close>

definition call_ok :: "stack_env \<Rightarrow> (sid \<Rightarrow> mtcp_manager \<Rightarrow> mtcp_manager) \<Rightarrow> bool" where
  "call_ok env f \<longleftrightarrow> (\<forall>L s m. okp env L m \<and> L s \<longrightarrow> stack_inv env (f s m))"

lemma inv_with_stream: "call_ok env f \<Longrightarrow> stack_inv env m \<Longrightarrow> stack_inv env (with_stream f s m)"
  using okp_stack_inv [of env m] by (simp add: with_stream_def inv_raise call_ok_def)

lemma inv_drain:
  assumes "call_ok env f" "\<And>q m. stack_inv env m \<Longrightarrow> stack_inv env (put q m)"
  shows "stack_inv env m \<Longrightarrow> stack_inv env (drain n get put f m)"
  using assms
  by (induction n arbitrary: m) (subst drain.simps; auto simp: inv_rules inv_with_stream split: sum.split option.split)+

lemma inv_requeue:
  assumes "call_ok env f" "\<And>q m. stack_inv env m \<Longrightarrow> stack_inv env (put q m)"
  shows "stack_inv env m \<Longrightarrow> stack_inv env (requeue n get put f m)"
  using assms
  by (induction n arbitrary: m) (auto simp: inv_rules inv_with_stream split: sum.split option.split)

lemma okp_put_internal [okp_rules]:
  assumes "okp env L m" "\<And>q m. okp env L m \<Longrightarrow> okp env L (put q m)"
  shows "okp env L (put_internal get put s m)"
  using assms by (auto simp: put_internal_def okp_rules split: sum.split)

lemma okp_start_close [okp_rules]: "okp env L m \<Longrightarrow> okp env L (start_close s m)"
  by (simp add: start_close_def okp_rules stream_view_def flow_key_def)

lemma okp_drop_timeout [okp_rules]: "okp env L m \<Longrightarrow> L s \<Longrightarrow> okp env L (drop_timeout env s m)"
  by (simp add: drop_timeout_def okp_rules)

lemma call_ok_destroy: "call_ok env (DestroyTCPStream env)" "call_ok env (end_reset env)"
proof -
  have d: "stack_inv env (DestroyTCPStream env s m)" if "okp env L m" "L s" for L s m
    using okp_DestroyTCPStream [OF that] by (rule okp_inv)
  show "call_ok env (DestroyTCPStream env)" using d by (auto simp: call_ok_def)
  have "okp env L (close_stream r s m)" if "okp env L m" for L r s m using that by (simp add: okp_rules)
  then show "call_ok env (end_reset env)" using d okp_inv unfolding call_ok_def end_reset_def by (metis (full_types))
qed

lemma call_okI: "(\<And>L s m. okp env L m \<Longrightarrow> L s \<Longrightarrow> okp env L (f s m)) \<Longrightarrow> call_ok env f"
  unfolding call_ok_def using okp_inv by metis

lemma okp_abort_stream [okp_rules]: "okp env L m \<Longrightarrow> L s \<Longrightarrow> okp env L (abort_stream env s m)"
  by (simp add: abort_stream_def okp_rules)

lemma call_ok_simple:
  "call_ok env (AddtoControlList env)" "call_ok env (send_call env)" "call_ok env (ack_call env)" "call_ok env (close_again env)"
  "call_ok env (reset_again env)"
  by (rule call_okI; simp add: send_call_def ack_call_def close_again_def reset_again_def Let_def okp_rules okp_fields)+

lemma call_ok_close: "call_ok env (close_call env)"
proof (unfold call_ok_def, intro allI impI)
  fix L s m assume "okp env L m \<and> L s"
  then have ok: "okp env L m" and s: "L s" by auto
  define m2 where "m2 = drop_timeout env s (upd_stream s (\<lambda>t. t \<lparr> sndvar := (sndvar t) \<lparr> on_closeq := False,
    fss := (case sndbuf (sndvar t) of Some b \<Rightarrow> sb_head_seq b + sb_len b | None \<Rightarrow> snd_nxt t) \<rparr> \<rparr>) m)"
  have ok2: "okp env L m2" unfolding m2_def using ok s by (simp add: okp_rules stream_view_def flow_key_def)
  have "stack_inv env (end_reset env s m2)" using call_ok_destroy(2) ok2 s by (auto simp: call_ok_def)
  moreover have "okp env L (put_internal closeq_int put_closeq_int s (upd_snd s (\<lambda>v. v \<lparr> on_closeq_int := True \<rparr>) m2))"
    "okp env L (upd_stream s (\<lambda>t. t \<lparr> control_list_waiting := True \<rparr>) (start_close s m2))" "okp env L (AddtoControlList env s (start_close s m2))"
    using ok2 s by (simp_all add: okp_rules okp_fields stream_view_def flow_key_def)
  ultimately show "stack_inv env (close_call env s m)"
    using okp_inv ok2 unfolding close_call_def Let_def m2_def [symmetric] by (auto intro: okp_inv)
qed

lemma call_ok_reset: "call_ok env (reset_call env)"
proof (unfold call_ok_def, intro allI impI)
  fix L s m assume "okp env L m \<and> L s"
  then have ok: "okp env L m" and s: "L s" by auto
  define m1 where "m1 = drop_timeout env s (upd_snd s (\<lambda>v. v \<lparr> on_resetq := False \<rparr>) m)"
  have ok1: "okp env L m1" unfolding m1_def using ok s by (simp add: okp_rules)
  have "stack_inv env (end_reset env s m1)" using call_ok_destroy(2) ok1 s by (auto simp: call_ok_def)
  moreover have "okp env L (put_internal resetq_int put_resetq_int s (upd_snd s (\<lambda>v. v \<lparr> on_resetq_int := True \<rparr>) m1))"
    "okp env L (abort_stream env s m1)"
    using ok1 s by (simp_all add: okp_rules okp_fields)
  ultimately show "stack_inv env (reset_call env s m)"
    unfolding reset_call_def Let_def m1_def [symmetric] by (auto intro: okp_inv)
qed

lemma inv_HandleApplicationCalls: "stack_inv env m \<Longrightarrow> stack_inv env (HandleApplicationCalls env m)"
  unfolding HandleApplicationCalls_def Let_def drain_all_def requeue_all_def inv_fields
  by (intro inv_drain inv_requeue call_ok_simple call_ok_close call_ok_reset call_ok_destroy) (simp_all add: inv_fields)

lemma inv_main_round: "env_ok env \<Longrightarrow> stack_inv env m \<Longrightarrow> stack_inv env (main_round env master ts ts_prev rx m)"
  by (simp add: main_round_def Let_def ARPTimer_def inv_fields inv_WritePacketsToChunks inv_HandleApplicationCalls inv_FlushEpollEvents
      inv_check_timers inv_receive_all)

end
