(* ===== verification/AppCalls.thy ===== *)
theory AppCalls
  imports Core
begin

text \<open>
  What \<^verbatim>\<open>HandleApplicationCalls\<close> (\<^verbatim>\<open>core.c\<close>) does with the queues the application fills: it serves every call
  that waits, and it works on a freed stream when the timeout check of the same round has ended a stream that the
  application is closing.
\<close>

section \<open>Serving a call\<close>

text \<open>Serving a call leaves the queues alone, forgets no fault and revives no stream.\<close>

definition app_queues :: "mtcp_manager \<Rightarrow> sid click_queue list" where
  "app_queues m = [connectq m, sendq m, ackq m, closeq m, resetq m, destroyq m]"

definition serves :: "mtcp_manager \<Rightarrow> mtcp_manager \<Rightarrow> bool" where
  "serves m m' \<longleftrightarrow> app_queues m' = app_queues m \<and> (fault m \<noteq> None \<longrightarrow> fault m' \<noteq> None) \<and> (\<forall>s. live m' s \<longrightarrow> live m s)"

named_theorems serves_rules

lemma serves_refl [simp]: "serves m m"
  by (simp add: serves_def)

lemma serves_trans: "serves m m1 \<Longrightarrow> serves m1 m2 \<Longrightarrow> serves m m2"
  by (auto simp: serves_def)

lemma serves_raise [serves_rules]: "serves m m' \<Longrightarrow> serves m (raise e m')"
  by (auto simp: serves_def app_queues_def raise_def split: option.split)

lemma serves_upd [serves_rules]:
  "serves m m' \<Longrightarrow> (\<And>t. on_hash_table (f t) = on_hash_table t) \<Longrightarrow> serves m (upd_stream s f m')"
  "serves m m' \<Longrightarrow> serves m (upd_stream s (\<lambda>t. t \<lparr> on_hash_table := False \<rparr>) m')"
  "serves m m' \<Longrightarrow> serves m (upd_snd s g m')" "serves m m' \<Longrightarrow> serves m (upd_rcv s h m')"
  by (auto simp: serves_def app_queues_def m_simps)

lemma serves_fields [serves_rules]:
  "serves m (m' \<lparr> rto_list := x1 \<rparr>) = serves m m'" "serves m (m' \<lparr> timewait_list := x2 \<rparr>) = serves m m'"
  "serves m (m' \<lparr> timeout_list := x2 \<rparr>) = serves m m'" "serves m (m' \<lparr> rto_list_cnt := y1 \<rparr>) = serves m m'"
  "serves m (m' \<lparr> timewait_list_cnt := y1 \<rparr>) = serves m m'" "serves m (m' \<lparr> timeout_list_cnt := y1 \<rparr>) = serves m m'"
  "serves m (m' \<lparr> flow_table := z3 \<rparr>) = serves m m'" "serves m (m' \<lparr> flow_pool := z4 \<rparr>) = serves m m'"
  "serves m (m' \<lparr> rv_pool := z4 \<rparr>) = serves m m'" "serves m (m' \<lparr> sv_pool := z4 \<rparr>) = serves m m'"
  "serves m (m' \<lparr> flow_cnt := z7 \<rparr>) = serves m m'" "serves m (m' \<lparr> rbm_snd := z8 \<rparr>) = serves m m'"
  "serves m (m' \<lparr> rbm_rcv := z9 \<rparr>) = serves m m'" "serves m (m' \<lparr> ap_core := w1 \<rparr>) = serves m m'"
  "serves m (m' \<lparr> ap_dev := w2 \<rparr>) = serves m m'" "serves m (m' \<lparr> closeq_int := i \<rparr>) = serves m m'"
  "serves m (m' \<lparr> resetq_int := i \<rparr>) = serves m m'" "serves m (m' \<lparr> wakeup_flag := b \<rparr>) = serves m m'"
  "serves m (m' \<lparr> ep := e \<rparr>) = serves m m'" "serves m (m' \<lparr> smap := sm \<rparr>) = serves m m'" "serves m (m' \<lparr> senders := sn \<rparr>) = serves m m'"
  by (simp_all add: serves_def app_queues_def)

lemma serves_tq_remove [serves_rules]: "serves m m' \<Longrightarrow> (\<And>ys. serves m (store ys m')) \<Longrightarrow> serves m (tq_remove s xs store m')"
  by (simp add: tq_remove_def serves_rules split: sum.split)

lemma serves_lists [serves_rules]:
  assumes "serves m m'"
  shows "serves m (AddtoControlList env s m')" "serves m (AddtoSendList env s m')" "serves m (AddtoACKList env s m')"
    "serves m (RemoveFromControlList env s m')" "serves m (RemoveFromSendList env s m')" "serves m (RemoveFromACKList env s m')"
    "serves m (RemoveFromRTOList s m')" "serves m (RemoveFromTimewaitList s m')" "serves m (RemoveFromTimeoutList s m')"
  using assms
  by (auto simp: AddtoControlList_def AddtoSendList_def AddtoACKList_def RemoveFromControlList_def RemoveFromSendList_def RemoveFromACKList_def
      RemoveFromRTOList_def RemoveFromTimewaitList_def RemoveFromTimeoutList_def upd_sender_def set_rto_list_def Let_def serves_rules split: option.split)

lemma serves_EnqueueACK [serves_rules]: "serves m m' \<Longrightarrow> serves m (EnqueueACK env opt s m')"
  by (simp add: EnqueueACK_def serves_rules split: ack_opt.split)

lemma serves_frees [serves_rules]:
  assumes "serves m m'"
  shows "serves m (free_flow s m')" "serves m (free_rv a m')" "serves m (free_sv a m')" "serves m (free_buffers s m')"
    "serves m (StreamHTRemove s m')" "serves m (release_address env b m')" "serves m (leave_lists env s m')"
  using assms
  by (auto simp: free_flow_def free_rv_def free_sv_def free_buffers_def StreamHTRemove_def release_address_def free_address_def
      leave_lists_def Let_def serves_rules split: option.split sum.split prod.split)

lemma serves_DestroyTCPStream [serves_rules]: "serves m m' \<Longrightarrow> serves m (DestroyTCPStream env s m')"
  by (simp add: DestroyTCPStream_def Let_def serves_rules)

lemma serves_AddEpollEvent [serves_rules]: "serves m m' \<Longrightarrow> serves m (snd (AddEpollEvent q k event m'))"
  by (auto simp: AddEpollEvent_def Let_def serves_rules split: option.split sum.split)

lemma serves_RaiseErrorEvent [serves_rules]: "serves m m' \<Longrightarrow> serves m (RaiseErrorEvent s m')"
  by (simp add: RaiseErrorEvent_def Let_def serves_rules split: option.split)

lemma serves_parts [serves_rules]:
  assumes "serves m m'"
  shows "serves m (close_stream r s m')" "serves m (start_close s m')" "serves m (drop_timeout env s m')" "serves m (end_reset env s m')"
    "serves m (abort_stream env s m')" "serves m (put_internal closeq_int put_closeq_int s m')"
    "serves m (put_internal resetq_int put_resetq_int s m')" "serves m (notify_or_destroy env s m')"
  using assms
  by (auto simp: close_stream_def start_close_def drop_timeout_def end_reset_def abort_stream_def put_internal_def notify_or_destroy_def
      serves_rules split: sum.split)

lemma serves_calls:
  "serves m (AddtoControlList env s m)" "serves m (send_call env s m)" "serves m (ack_call env s m)" "serves m (close_call env s m)"
  "serves m (close_again env s m)" "serves m (reset_call env s m)" "serves m (reset_again env s m)" "serves m (DestroyTCPStream env s m)"
  by (simp_all add: send_call_def ack_call_def close_call_def close_again_def reset_call_def reset_again_def Let_def serves_rules)

lemma serves_with_stream: "(\<And>s m. serves m (f s m)) \<Longrightarrow> serves m (with_stream f s m)"
  by (simp add: with_stream_def serves_rules)

lemma serves_requeue: "(\<And>s m. serves m (f s m)) \<Longrightarrow> (\<And>q m. serves m (put q m)) \<Longrightarrow> serves m (requeue n get put f m)"
proof (induction n arbitrary: m)
  case (Suc n)
  have "serves m (case StreamInternalDequeue (get m) of Inl e \<Rightarrow> raise e m | Inr (None, q) \<Rightarrow> raise NullDeref m
      | Inr (Some s, q) \<Rightarrow> with_stream f s (put q m))"
    using Suc.prems serves_trans [OF Suc.prems(2) serves_with_stream [of f]] by (simp add: serves_rules split: sum.split option.split)
  then show ?case using Suc serves_trans by fastforce
qed simp

section \<open>A queue of calls\<close>

text \<open>No stream comes to life and no fault is forgotten.\<close>

definition grows :: "mtcp_manager \<Rightarrow> mtcp_manager \<Rightarrow> bool" where
  "grows m m' \<longleftrightarrow> (fault m \<noteq> None \<longrightarrow> fault m' \<noteq> None) \<and> (\<forall>s. live m' s \<longrightarrow> live m s)"

lemma grows_trans: "grows m m1 \<Longrightarrow> grows m1 m2 \<Longrightarrow> grows m m2"
  by (auto simp: grows_def)

text \<open>What the loops rely on: the accessors of a queue read and store that queue and nothing else.\<close>

locale call_queue =
  fixes get :: "mtcp_manager \<Rightarrow> sid click_queue" and put :: "sid click_queue \<Rightarrow> mtcp_manager \<Rightarrow> mtcp_manager"
  assumes get_put [simp]: "get (put q m) = q"
    and get_queues: "app_queues m' = app_queues m \<Longrightarrow> get m' = get m"
    and put_fault [simp]: "fault (put q m) = fault m"
    and put_streams [simp]: "streams (put q m) = streams m"
begin

lemma get_serves: "serves m m' \<Longrightarrow> get m' = get m"
  by (rule get_queues) (simp add: serves_def)

lemma get_with_stream:
  assumes f: "\<And>s m. serves m (f s m)"
  shows "get (with_stream f s (put q m)) = q"
  using get_serves [OF serves_with_stream [of f "put q m" s, OF f]] by simp

lemma drain_frame:
  assumes f: "\<And>s m. serves m (f s m)"
  shows "grows m (drain n get put f m)"
proof -
  have b: "grows m (raise e m)" "grows m (put q m)" for e q m by (simp_all add: grows_def)
  have w: "grows m (with_stream f u (put q m))" for u q m
    using serves_with_stream [of f "put q m" u, OF f] by (auto simp: serves_def grows_def)
  show ?thesis
  proof (induction n arbitrary: m)
    case 0
    show ?case by (subst drain.simps) (simp add: b split: sum.split option.split)
  next
    case (Suc n)
    show ?case by (subst drain.simps) (auto simp: b intro: grows_trans [OF w Suc] split: sum.split option.split)
  qed
qed

lemma drain_others:
  assumes f: "\<And>s m. serves m (f s m)" and g: "\<And>m m'. app_queues m' = app_queues m \<Longrightarrow> g m' = g m" and p: "\<And>q m. g (put q m) = g m"
  shows "g (drain n get put f m) = g m"
proof -
  have s: "serves m m' \<Longrightarrow> g m' = g m" for m m' by (rule g) (simp add: serves_def)
  have r: "g (raise e m) = g m" for e m by (rule s) (simp add: serves_raise)
  have w: "g (with_stream f u (put q m)) = g m" for u q m using s [OF serves_with_stream [of f "put q m" u, OF f]] p by simp
  show ?thesis
    by (induction n arbitrary: m; subst drain.simps) (simp_all add: r w p split: sum.split option.split)
qed

lemma drain_empties:
  assumes f: "\<And>s m. serves m (f s m)"
  shows "click_inv (get m) \<Longrightarrow> length (click_content (get m)) \<le> n \<Longrightarrow>
    click_inv (get (drain n get put f m)) \<and> click_content (get (drain n get put f m)) = []"
proof (induction n arbitrary: m)
  case 0
  then show ?case using click_dequeue_empty [of "get m"] by (subst (1 2) drain.simps) (simp add: StreamDequeue_def)
next
  case (Suc n)
  show ?case
  proof (cases "click_content (get m)")
    case Nil
    then show ?thesis using click_dequeue_empty [of "get m"] Suc.prems by (subst (1 2) drain.simps) (simp add: StreamDequeue_def)
  next
    case (Cons s ss)
    obtain q where q: "click_dequeue (get m) = Inr (Some s, q)" "click_inv q" "click_content q = ss"
      using click_dequeue_cons [OF Suc.prems(1) Cons] by blast
    have "get (with_stream f s (put q m)) = q" by (rule get_with_stream [of f, OF f])
    then show ?thesis using Suc.IH [of "with_stream f s (put q m)"] Suc.prems(2) Cons q
      by (subst (1 2) drain.simps) (simp add: StreamDequeue_def)
  qed
qed

lemma drain_all_empties:
  assumes "\<And>s m. serves m (f s m)" "click_inv (get m)"
  shows "click_inv (get (drain_all get put f m))" "click_content (get (drain_all get put f m)) = []"
  using drain_empties [of f, OF assms] click_content_le [OF assms(2)] by (simp_all add: drain_all_def click_cap_def)

text \<open>A stream that has ended is met.\<close>

lemma drain_dead:
  assumes f: "\<And>s m. serves m (f s m)"
  shows "click_inv (get m) \<Longrightarrow> length (click_content (get m)) \<le> n \<Longrightarrow> s \<in> set (click_content (get m)) \<Longrightarrow> \<not> live m s \<Longrightarrow>
    fault (drain n get put f m) \<noteq> None"
proof (induction n arbitrary: m)
  case (Suc n)
  then obtain u us where us: "click_content (get m) = u # us" by (cases "click_content (get m)") auto
  obtain q where q: "click_dequeue (get m) = Inr (Some u, q)" "click_inv q" "click_content q = us"
    using click_dequeue_cons [OF Suc.prems(1) us] by blast
  let ?m = "with_stream f u (put q m)"
  have g: "get ?m = q" by (rule get_with_stream [of f, OF f])
  have d: "drain (Suc n) get put f m = drain n get put f ?m" using q by (subst drain.simps) (simp add: StreamDequeue_def)
  show ?case
  proof (cases "u = s")
    case True
    then have "fault ?m \<noteq> None" using Suc.prems(4) by (simp add: with_stream_def)
    then show ?thesis unfolding d using drain_frame [of f, OF f] unfolding grows_def by blast
  next
    case False
    have "\<not> live ?m s" using serves_with_stream [of f "put q m" u, OF f] Suc.prems(4) by (auto simp: serves_def)
    then show ?thesis unfolding d using Suc.IH [of ?m] Suc.prems(2,3) g q(2,3) us False by simp
  qed
qed simp

end

interpretation connect_calls: call_queue connectq put_connectq by unfold_locales (simp_all add: app_queues_def)
interpretation send_calls: call_queue sendq put_sendq by unfold_locales (simp_all add: app_queues_def)
interpretation ack_calls: call_queue ackq put_ackq by unfold_locales (simp_all add: app_queues_def)
interpretation close_calls: call_queue closeq put_closeq by unfold_locales (simp_all add: app_queues_def)
interpretation reset_calls: call_queue resetq put_resetq by unfold_locales (simp_all add: app_queues_def)
interpretation destroy_calls: call_queue destroyq put_destroyq by unfold_locales (simp_all add: app_queues_def)


lemma others_connect:
  assumes "\<And>s m. serves m (f s m)"
  shows "sendq (drain_all connectq put_connectq f m) = sendq m" "ackq (drain_all connectq put_connectq f m) = ackq m"
    "closeq (drain_all connectq put_connectq f m) = closeq m" "resetq (drain_all connectq put_connectq f m) = resetq m"
    "destroyq (drain_all connectq put_connectq f m) = destroyq m"
  unfolding drain_all_def by (rule connect_calls.drain_others [of f, OF assms]; simp add: app_queues_def)+

lemma others_send:
  assumes "\<And>s m. serves m (f s m)"
  shows "connectq (drain_all sendq put_sendq f m) = connectq m" "ackq (drain_all sendq put_sendq f m) = ackq m"
    "closeq (drain_all sendq put_sendq f m) = closeq m" "resetq (drain_all sendq put_sendq f m) = resetq m"
    "destroyq (drain_all sendq put_sendq f m) = destroyq m"
  unfolding drain_all_def by (rule send_calls.drain_others [of f, OF assms]; simp add: app_queues_def)+

lemma others_ack:
  assumes "\<And>s m. serves m (f s m)"
  shows "connectq (drain_all ackq put_ackq f m) = connectq m" "sendq (drain_all ackq put_ackq f m) = sendq m"
    "closeq (drain_all ackq put_ackq f m) = closeq m" "resetq (drain_all ackq put_ackq f m) = resetq m"
    "destroyq (drain_all ackq put_ackq f m) = destroyq m"
  unfolding drain_all_def by (rule ack_calls.drain_others [of f, OF assms]; simp add: app_queues_def)+

lemma others_close:
  assumes "\<And>s m. serves m (f s m)"
  shows "connectq (drain_all closeq put_closeq f m) = connectq m" "sendq (drain_all closeq put_closeq f m) = sendq m"
    "ackq (drain_all closeq put_closeq f m) = ackq m" "resetq (drain_all closeq put_closeq f m) = resetq m"
    "destroyq (drain_all closeq put_closeq f m) = destroyq m"
  unfolding drain_all_def by (rule close_calls.drain_others [of f, OF assms]; simp add: app_queues_def)+

lemma others_reset:
  assumes "\<And>s m. serves m (f s m)"
  shows "connectq (drain_all resetq put_resetq f m) = connectq m" "sendq (drain_all resetq put_resetq f m) = sendq m"
    "ackq (drain_all resetq put_resetq f m) = ackq m" "closeq (drain_all resetq put_resetq f m) = closeq m"
    "destroyq (drain_all resetq put_resetq f m) = destroyq m"
  unfolding drain_all_def by (rule reset_calls.drain_others [of f, OF assms]; simp add: app_queues_def)+

lemma others_destroy:
  assumes "\<And>s m. serves m (f s m)"
  shows "connectq (drain_all destroyq put_destroyq f m) = connectq m" "sendq (drain_all destroyq put_destroyq f m) = sendq m"
    "ackq (drain_all destroyq put_destroyq f m) = ackq m" "closeq (drain_all destroyq put_destroyq f m) = closeq m"
    "resetq (drain_all destroyq put_destroyq f m) = resetq m"
  unfolding drain_all_def by (rule destroy_calls.drain_others [of f, OF assms]; simp add: app_queues_def)+

lemmas queue_frames = others_connect [OF serves_calls(1)] others_send [OF serves_calls(2)] others_ack [OF serves_calls(3)]
  others_close [OF serves_calls(4)] others_reset [OF serves_calls(6)] others_destroy [OF serves_calls(8)]

lemma queues_requeue:
  assumes "\<And>s m. serves m (f s m)"
  shows "app_queues (requeue_all closeq_int put_closeq_int f m) = app_queues m" "app_queues (requeue_all resetq_int put_resetq_int f m) = app_queues m"
  using serves_requeue [of f put_closeq_int m, OF assms] serves_requeue [of f put_resetq_int m, OF assms]
  by (simp_all add: requeue_all_def serves_rules) (simp_all add: serves_def)

lemma app_queues_eq: "app_queues m' = app_queues m \<longleftrightarrow> connectq m' = connectq m \<and> sendq m' = sendq m \<and> ackq m' = ackq m \<and>
    closeq m' = closeq m \<and> resetq m' = resetq m \<and> destroyq m' = destroyq m"
  by (auto simp: app_queues_def)

lemmas requeue_frames = queues_requeue [OF serves_calls(5), unfolded app_queues_eq] queues_requeue [OF serves_calls(7), unfolded app_queues_eq]


section \<open>A stream that times out while it is being closed\<close>

lemma serves_timeout_walk: "serves m (timeout_walk env now n p m)"
proof (induction env now n p m rule: timeout_walk.induct)
  case (3 env now n s m)
  let ?m = "notify_or_destroy env s (close_stream TCP_TIMEDOUT s (tq_remove s (timeout_list m)
    (\<lambda>ys m1. m1 \<lparr> timeout_list := ys, timeout_list_cnt := timeout_list_cnt m1 - 1 \<rparr>) (upd_stream s (\<lambda>t. t \<lparr> on_timeout_list := False \<rparr>) m)))"
  have "serves m ?m" by (simp add: serves_rules)
  then show ?case using 3 serves_trans [of m ?m] by (simp add: Let_def)
qed simp_all

lemma grows_parts:
  "grows m (requeue_all closeq_int put_closeq_int (close_again env) m)" "grows m (requeue_all resetq_int put_resetq_int (reset_again env) m)"
  "grows m (drain_all connectq put_connectq (AddtoControlList env) m)" "grows m (drain_all sendq put_sendq (send_call env) m)"
  "grows m (drain_all ackq put_ackq (ack_call env) m)" "grows m (drain_all resetq put_resetq (reset_call env) m)"
  "grows m (drain_all destroyq put_destroyq (DestroyTCPStream env) m)"
proof -
  have "serves m m' \<Longrightarrow> grows m m'" for m' by (simp add: serves_def grows_def)
  then show "grows m (requeue_all closeq_int put_closeq_int (close_again env) m)" "grows m (requeue_all resetq_int put_resetq_int (reset_again env) m)"
    using serves_requeue [of "close_again env" put_closeq_int m, OF serves_calls(5)] serves_requeue [of "reset_again env" put_resetq_int m, OF serves_calls(7)]
    by (simp_all add: requeue_all_def serves_rules)
  show "grows m (drain_all connectq put_connectq (AddtoControlList env) m)" "grows m (drain_all sendq put_sendq (send_call env) m)"
    "grows m (drain_all ackq put_ackq (ack_call env) m)" "grows m (drain_all resetq put_resetq (reset_call env) m)"
    "grows m (drain_all destroyq put_destroyq (DestroyTCPStream env) m)"
    unfolding drain_all_def
    by (rule connect_calls.drain_frame [OF serves_calls(1)] send_calls.drain_frame [OF serves_calls(2)] ack_calls.drain_frame [OF serves_calls(3)]
        reset_calls.drain_frame [OF serves_calls(6)] destroy_calls.drain_frame [OF serves_calls(8)])+
qed

lemma HandleApplicationCalls_dead:
  assumes "click_inv (closeq m)" "s \<in> set (click_content (closeq m))" "\<not> live m s"
  shows "fault (HandleApplicationCalls env m) \<noteq> None"
proof -
  define m1 where "m1 = drain_all connectq put_connectq (AddtoControlList env) m"
  define m2 where "m2 = drain_all sendq put_sendq (send_call env) m1"
  define m3 where "m3 = drain_all ackq put_ackq (ack_call env) m2"
  define m4 where "m4 = drain_all closeq put_closeq (close_call env) m3"
  have q: "closeq m3 = closeq m" by (simp add: m3_def m2_def m1_def queue_frames)
  have "grows m m3" unfolding m3_def m2_def m1_def by (rule grows_trans [OF grows_trans [OF grows_parts(3) grows_parts(4)] grows_parts(5)])
  then have "\<not> live m3 s" using assms(3) by (auto simp: grows_def)
  then have "fault m4 \<noteq> None"
    unfolding m4_def drain_all_def using assms click_content_le [OF assms(1)]
    by (intro close_calls.drain_dead [OF serves_calls(4)]) (simp_all add: q click_cap_def)
  moreover have "grows m4 (drain_all destroyq put_destroyq (DestroyTCPStream env) (requeue_all resetq_int put_resetq_int (reset_again env)
      (drain_all resetq put_resetq (reset_call env) (requeue_all closeq_int put_closeq_int (close_again env) m4))))"
    by (rule grows_trans [OF grows_trans [OF grows_trans [OF grows_parts(1) grows_parts(6)] grows_parts(2)] grows_parts(7)])
  ultimately show ?thesis
    by (simp add: HandleApplicationCalls_def Let_def m1_def [symmetric] m2_def [symmetric] m3_def [symmetric] m4_def [symmetric]) (simp add: grows_def)
qed

text \<open>C21. The timeout check frees an idle stream that has no socket. \<^verbatim>\<open>mtcp_close\<close> takes the socket away before the stack
  has seen the call, so a stream that times out in the round in which it is closed is freed while it waits in
  \<^verbatim>\<open>closeq\<close>, and \<^verbatim>\<open>HandleApplicationCalls\<close> then works on the freed stream.\<close>

theorem timeout_frees_closing_stream:
  assumes "okp env L m" "timeout_list m = s # xs" "sock (streams m s) = None" "0 < n"
    and "sint (now - last_active_ts (streams m s)) \<ge> tcp_timeout env"
    and "click_inv (closeq m)" "s \<in> set (click_content (closeq m))"
  shows "let m' = CheckConnectionTimeout env now n m in
    \<not> live m' s \<and> s \<in> set (click_content (closeq m')) \<and> fault (HandleApplicationCalls env m') \<noteq> None"
proof -
  obtain k where k: "nat n = Suc k" using assms(4) by (metis gr0_implies_Suc zero_less_nat_eq)
  define m0 where "m0 = close_stream TCP_TIMEDOUT s (tq_remove s (timeout_list m)
    (\<lambda>ys m1. m1 \<lparr> timeout_list := ys, timeout_list_cnt := timeout_list_cnt m1 - 1 \<rparr>) (upd_stream s (\<lambda>t. t \<lparr> on_timeout_list := False \<rparr>) m))"
  have so: "sock (streams m0 s) = None" using assms(3) by (simp add: m0_def close_stream_def tq_remove_def split: sum.split)
  have w: "CheckConnectionTimeout env now n m = timeout_walk env now k (tq_next (timeout_list m) s) (DestroyTCPStream env s m0)"
    using assms(2,5) so by (simp add: CheckConnectionTimeout_def k tq_first_def notify_or_destroy_def m0_def Let_def)
  have o: "L s" "on_timeout_list (streams m s)" using okp_timer_lists(3) [OF assms(1), of s] assms(2) by simp_all
  then have "m0 = close_stream TCP_TIMEDOUT s (RemoveFromTimeoutList s m)" by (simp add: m0_def RemoveFromTimeoutList_def)
  then have "okp env L m0" using assms(1) o by (simp add: okp_rules)
  then have d: "\<not> live (DestroyTCPStream env s m0) s" using o(1) by (rule dead_Destroy)
  let ?m = "CheckConnectionTimeout env now n m"
  have "serves (DestroyTCPStream env s m0) ?m" unfolding w by (rule serves_timeout_walk)
  then have "\<not> live ?m s" using d by (auto simp: serves_def)
  moreover have "closeq ?m = closeq m"
    by (rule close_calls.get_serves) (simp add: CheckConnectionTimeout_def serves_timeout_walk)
  ultimately show ?thesis using HandleApplicationCalls_dead [of ?m s env] assms(6,7) by (simp add: Let_def)
qed


section \<open>The theorems on a small stack\<close>

definition demo_queue :: "sid option \<Rightarrow> sid click_queue" where
  "demo_queue x = \<lparr> q_capacity = 1, q_head = 0, q_tail = (if x = None then 0 else 1), q_slots = [x, None] \<rparr>"

lemma demo_queue_ok: "click_inv (demo_queue x)" "click_content (demo_queue x) = (case x of None \<Rightarrow> [] | Some s \<Rightarrow> [s])"
  by (cases x; simp add: demo_queue_def click_inv_def click_indices_def click_content_def click_pending_def ring_slots_def ring_dist_def ring_idx_def)+

definition demo_calls :: mtcp_manager where
  "demo_calls = demo_one \<lparr> connectq := demo_queue (Some 4096), sendq := demo_queue None, ackq := demo_queue (Some 4096),
     closeq := demo_queue None, resetq := demo_queue None, destroyq := demo_queue None \<rparr>"


definition demo_closing :: mtcp_manager where
  "demo_closing = (AddtoTimeoutList 4096 demo_one) \<lparr> closeq := demo_queue (Some 4096) \<rparr>"

lemma demo_closing_ok:
  "okp demo_stack ((\<lambda>_. False)(4096 := True)) demo_closing" "timeout_list demo_closing = [4096]"
proof -
  have "timeout_list demo_one = []"
    using okp_timer_lists(3) [OF demo_one_okp] demo_stream(4) by (metis fun_upd_apply list.set_intros(1) neq_Nil_conv)
  then show "timeout_list demo_closing = [4096]" using demo_stream(4) by (simp add: demo_closing_def AddtoTimeoutList_def)
  show "okp demo_stack ((\<lambda>_. False)(4096 := True)) demo_closing"
    using demo_one_okp by (simp add: demo_closing_def okp_rules okp_fields demo_stack_def)
qed

theorem timeout_frees_closing_stream_witness:
  "fault demo_closing = None \<and> fault (HandleApplicationCalls demo_stack (CheckConnectionTimeout demo_stack 40 2 demo_closing)) \<noteq> None"
proof -
  have "fault demo_closing = None" using demo_stream(4) demo_one_created(5) by (simp add: demo_closing_def AddtoTimeoutList_def)
  moreover have "last_active_ts (streams demo_closing 4096) = 0" "sock (streams demo_closing 4096) = None"
    using demo_one_created(2) demo_stream(4,6)
    by (auto simp: demo_closing_def AddtoTimeoutList_def init_stream_def Let_def zero_stream_def)
  ultimately show ?thesis
    using timeout_frees_closing_stream [OF demo_closing_ok, of 2 40]
    by (simp add: Let_def demo_queue_ok demo_stack_def demo_closing_def)
qed

end
