(* ===== verification/StackRun.thy ===== *)
theory StackRun
  imports AppCalls
begin

text \<open>
  The runs of a stack thread: it starts with \<^verbatim>\<open>InitializeMTCPManager\<close>, its main loop (\<^verbatim>\<open>RunMainLoop\<close>) makes rounds, and
  between them the application opens connections and fills the queues, sockets and buffers it shares with the
  thread. The invariant of the stack holds in every state of every run, whatever arrives from the network, and in such a
  state a stream can be unlinked from every list without a fault.
\<close>

section \<open>Reachable states\<close>

text \<open>What the application may do between two rounds, besides opening a connection: anything that leaves the lists of
  the senders, the timers, the flow table and the pool of streams alone.\<close>

inductive stack_run :: "stack_env \<Rightarrow> mtcp_manager \<Rightarrow> bool" for env :: stack_env where
  start: "InitializeMTCPManager ie env = Inr (Some m) \<Longrightarrow> pool_args (ie_size_stream ie) (max_concurrency env) \<Longrightarrow> stack_run env m"
| round: "stack_run env m \<Longrightarrow> stack_run env (main_round env master ts ts_prev rx m)"
| connect: "stack_run env m \<Longrightarrow> CreateTCPStream env socket ty sa sp da dp m = (x, m') \<Longrightarrow> stack_run env m'"
| application: "stack_run env m \<Longrightarrow> frame_eq m m' \<Longrightarrow> stack_run env m'"

lemma stack_run_inv:
  assumes env: "env_ok env" and "stack_run env m"
  shows "stack_inv env m"
  using assms(2)
proof induction
  case (start ie m)
  then show ?case using InitializeMTCPManager_okp(1) okp_inv by blast
next
  case (round m master ts ts_prev rx)
  then show ?case using inv_main_round [OF env] by blast
next
  case (connect m socket ty sa sp da dp x m')
  then show ?case using CreateTCPStream_ok [OF env _ connect(2)] okp_stack_inv okp_inv by blast
next
  case (application m m')
  then show ?case using stack_inv_frame by blast
qed

lemma demo_one_run: "stack_run demo_stack demo_one"
proof -
  have "stack_run demo_stack demo_mtcp"
    using stack_run.start [OF demo_start_ok(1)] by (simp add: pool_args_def demo_init_def demo_stack_def)
  then show ?thesis using stack_run.connect [OF _ surjective_pairing] unfolding demo_one_def by blast
qed

text \<open>C1. In every state a run reaches, whatever the network and the application do, the invariant of the stack holds: the
  streams of the flow table are the live ones, each once and in its bucket, none of them is a free chunk, every list
  holds exactly the live streams whose flag says so, and every counter is the length of its list.\<close>

theorem stack_run_keeps_invariant:
  assumes "env_ok env" "stack_run env m"
  shows "stack_inv env m"
  using assms by (rule stack_run_inv)

text \<open>The round that the main loop makes when the peer of the demonstration stack sends a SYN.\<close>

theorem stack_run_keeps_invariant_witness:
  "stack_inv demo_stack (main_round demo_stack True 7 0 [[Some (replicate 12 0 @ [8, 0] @ demo_syn)]] demo_one)"
  by (intro stack_run_keeps_invariant demo_env_ok stack_run.round demo_one_run)

section \<open>Unlinking\<close>

lemma leave_lists_fault:
  assumes ok: "okp env L m" and s: "L s"
  shows "fault (leave_lists env s m) = fault m"
proof -
  define m1 where "m1 = RemoveFromACKList env s (RemoveFromSendList env s (RemoveFromControlList env s m))"
  define m2 where "m2 = (if on_rto_idx (streams m1 s) \<ge> 0 then RemoveFromRTOList s m1 else m1)"
  define m3 where "m3 = (if on_timewait_list (streams m2 s) then RemoveFromTimewaitList s m2 else m2)"
  have l: "lists_ok env x" "live x s" if "okp env L x" for x using that s okp_lists okp_live by auto
  have k: "okp env L (RemoveFromControlList env s m)" "okp env L (RemoveFromSendList env s (RemoveFromControlList env s m))" "okp env L m1"
    "okp env L m2" "okp env L m3"
    using ok s by (simp_all add: m1_def m2_def m3_def okp_rules)
  have "fault m1 = fault m"
    unfolding m1_def using RemoveFromControlList_ok [OF l [OF ok]] RemoveFromSendList_ok [OF l [OF k(1)]] RemoveFromACKList_ok [OF l [OF k(2)]] by simp
  moreover have "fault m2 = fault m1" unfolding m2_def using RemoveFromRTOList_ok [OF l [OF k(3)]] by simp
  moreover have "fault m3 = fault m2" unfolding m3_def using RemoveFromTimewaitList_ok [OF l [OF k(4)]] by simp
  moreover have "fault (RemoveFromTimeoutList s m3) = fault m3" using RemoveFromTimeoutList_ok [OF l [OF k(5)]] by simp
  ultimately show ?thesis unfolding leave_lists_def Let_def m1_def [symmetric] m2_def [symmetric] m3_def [symmetric] by simp
qed



end
