(* ===== verification/Spec2Isabelle.thy ===== *)
theory Spec2Isabelle
  imports StackRun
begin

text \<open>
  A verification library for the user-level TCP stack of MCC, the copy of mTCP under \<^verbatim>\<open>src/mtcp/mtcp/src\<close>. File and
  function names below are relative to that directory.

  \<^bold>\<open>The program.\<close> One thread per core runs \<^verbatim>\<open>RunMainLoop\<close> (\<^verbatim>\<open>core.c\<close>). Every round it takes frames from the device
  (\<^verbatim>\<open>eth_in.c\<close>, \<^verbatim>\<open>ip_in.c\<close>, \<^verbatim>\<open>arp.c\<close>, \<^verbatim>\<open>icmp.c\<close>, \<^verbatim>\<open>tcp_in.c\<close>), checks the timers (\<^verbatim>\<open>timer.c\<close>), moves readiness events to
  the application (\<^verbatim>\<open>eventpoll.c\<close>), serves the calls the application has left in bounded queues
  (\<^verbatim>\<open>tcp_stream_queue.c\<close>), and writes the segments of the streams that wait on the lists of a sender
  (\<^verbatim>\<open>tcp_out.c\<close>, \<^verbatim>\<open>ip_out.c\<close>, \<^verbatim>\<open>eth_out.c\<close>). A stream (\<^verbatim>\<open>tcp_stream.c\<close>) lives in a chunk of a pool (\<^verbatim>\<open>memory_mgt.c\<close>), is found
  through the flow table (\<^verbatim>\<open>fhash.c\<close>), and owns a send buffer and a receive buffer (\<^verbatim>\<open>tcp_send_buffer.c\<close>,
  \<^verbatim>\<open>tcp_ring_buffer.c\<close>).

  \<^bold>\<open>The model.\<close> Self-contained components are pure functions into \<open>c_result\<close>, which is an error of \<open>c_error\<close> or a
  value: a failed assertion, an access out of bounds, a null pointer, a removal from a list that lacks the element, a
  freed stream, a division by zero, the exit of the process, or a loop that does not end. The stack is the record
  \<open>mtcp_manager\<close>, field by field the structure of \<^verbatim>\<open>mtcp.h\<close>; its operations map a state to a state and record the first
  error in \<open>fault\<close>. A stream is the address of its chunk; the intrusive lists of the source are lists of
  addresses next to the flags and counters that the source keeps for them. Machine integers are words of their
  width, and wrap. What the environment decides is an argument: the outcome of each allocation, the memory a pool is
  given, the transmit buffers the device grants and the checksums it verifies, the routing table, the clock, and the
  frames that arrive. The conditional compilation is that of the repository: timestamps on, SACK off, blocking calls
  off, the build without DPDK for the memory pools.

  \<^bold>\<open>The theories\<close>, in the order of their imports:
  \<^item> \<open>Prelude\<close>: error results, byte lists and copies with bounds, byte order, facts on words; \<open>SeqNum\<close>: the
    comparisons of sequence numbers (\<^verbatim>\<open>tcp_in.h\<close>) as distances modulo \<open>2 ^ 32\<close>.
  \<^item> \<open>ClickQueue\<close>: the three bounded queues of pointers and the internal queue refine a bounded FIFO list (locale
    \<open>bounded_fifo\<close>); one producer and one consumer interleaved at every load and store lose nothing.
  \<^item> \<open>ResourcePool\<close>: the interface of a pool (locale \<open>resource_pool\<close>), whose client theorem is that nothing is handed out
    twice; \<open>MemPool\<close>, the chunk pools, \<open>AddrPool\<close>, the pools of local addresses, and the sockets of \<open>EventPoll\<close> provide it.
  \<^item> \<open>Spans\<close> and \<open>RingBuffer\<close>: the receive buffer and its list of fragments reassemble the stream of the peer whatever
    the order, overlap and repetition of segments; \<open>SendBuffer\<close>: the send buffer is a byte queue (locale \<open>byte_queue\<close>).
  \<^item> \<open>Rss\<close>: the cached hash of \<^verbatim>\<open>rss.c\<close> is the Toeplitz hash, and \<open>AddrPool\<close>: the addresses of a core hash to it.
  \<^item> \<open>Stream\<close>: the state of the stack; \<open>FlowTable\<close>: both hash tables are maps (locale \<open>keyed_table\<close>).
  \<^item> \<open>TcpWire\<close>, \<open>IpLayer\<close>: checksums, headers and options and that they are read back as written, ARP, routing, ICMP.
  \<^item> \<open>EventPoll\<close>: event queues, registration, flushing and fetching of events; sockets.
  \<^item> \<open>StreamLists\<close> and \<open>StreamLife\<close>: the lists of streams, \<^verbatim>\<open>CreateTCPStream\<close> and \<^verbatim>\<open>DestroyTCPStream\<close>, and the invariant
    \<open>stack_inv\<close> that ties flow table, pool, lists, flags and counters together; \<open>StackInit\<close>: it holds at the start.
  \<^item> \<open>TcpOut\<close> and \<open>TcpFlush\<close>: sending; the flush of a send buffer puts its bytes on the wire in order and inside both
    windows, and ends.
  \<^item> \<open>Timer\<close> and \<open>RtoClock\<close>: timeouts; a timer is checked at its tick and the check catches up with the clock.
  \<^item> \<open>TcpIn\<close>, \<open>TcpStates\<close>, \<open>RttEstimate\<close>: every function of \<^verbatim>\<open>tcp_in.c\<close>; a segment moves a connection only along the
    edges of the state diagram, a handshake needs the acknowledgement of the initial sequence number, and the
    estimates of the round trip time do not wrap.
  \<^item> \<open>Core\<close> and \<open>AppCalls\<close>: dispatch of frames, \<^verbatim>\<open>HandleApplicationCalls\<close> and a round of the main loop; every call
    that waits is served (locale \<open>call_queue\<close>).
  \<^item> \<open>StackRun\<close>: the runs of a thread, with arbitrary frames and with arbitrary steps of the application between rounds;
    \<open>stack_inv\<close> holds throughout.

  \<^bold>\<open>What the errors show.\<close> Where the code does not do what it means to, a theorem states the inputs and the effect:
  a fragment that returns to the wrong allocator, guards that miss a segment \<open>2 ^ 31\<close> behind, an option of length zero that
  stops the thread, an idle stream that is freed while it is being closed, a peer without a segment size that ends the
  process, timers moved to the wrong bucket, and others.

  \<^bold>\<open>Loops, bounds and fuel.\<close> Loops over lists are structural. The loop over a queue of calls gets its capacity as
  fuel, which is never used up on a well-formed queue; the loop of \<^verbatim>\<open>CheckRtmTimeout\<close> gets the distance of the clock;
  the flush of a send buffer is a \<open>while_option\<close> and the search for options a \<open>partial_function\<close>, and that they return is
  proved. Witnesses use a stack of two streams with buffers of 16 bytes.

  \<^bold>\<open>Not modelled.\<close> Locks, condition variables and the memory order between the application and the stack, except for
  the queues, where every interleaving of one producer with one consumer is covered; hence \<^verbatim>\<open>api.c\<close> and the reading and
  writing of pipes, which run in the thread of the application, are represented by arbitrary steps between rounds.
  Device drivers, the configuration files, logging and printing are input and output. The creation and the end of
  threads in \<^verbatim>\<open>core.c\<close>, and the path that leaves the main loop, only call the operating system. The C++ load generator
  around the stack, the example programs and the bundled copies of DPDK, lighttpd and the Apache benchmark are
  other programs.
\<close>

end
